(* ===== verification/Prelude.thy ===== *)
theory Prelude
  imports Main "HOL-Library.Word" "HOL-Library.Multiset"
begin

unbundle bit_operations_syntax

text \<open>
  Shared vocabulary of the development: the machine integers of the C code, byte-addressed
  memory with the little-endian loads and stores an x86 host performs, the byte-order
  conversions, and the generic facts about lists that the burst loops use.

  \<^item> \<open>ld16\<close>/\<open>ld32\<close> and \<open>st16\<close>/\<open>st32\<close> read and write a native (little-endian) C
    \<open>uint16_t\<close>/\<open>uint32_t\<close> at a byte address;
  \<^item> \<open>bswap16\<close>/\<open>bswap32\<close> are what \<open>rte_cpu_to_be_16\<close>, \<open>rte_be_to_cpu_16\<close>,
    \<open>rte_cpu_to_be_32\<close> and \<open>rte_be_to_cpu_32\<close> compute on such a host;
  \<^item> the collection \<open>mem_simps\<close> holds the load-after-store laws, \<open>bswap_simps\<close> the
    byte-order laws.
\<close>

named_theorems mem_simps
named_theorems bswap_simps

type_synonym u8 = "8 word"
type_synonym u16 = "16 word"
type_synonym u32 = "32 word"
type_synonym u64 = "64 word"
type_synonym mem = "nat \<Rightarrow> u8"

subsection \<open>Ranges of the machine integers\<close>

lemma unat_u8_less: "unat (x :: u8) < 256"
proof -
  have "unat x < 2 ^ LENGTH(8)" by (rule unsigned_less)
  then show ?thesis by simp
qed

lemma unat_u16_less: "unat (x :: u16) < 65536"
proof -
  have "unat x < 2 ^ LENGTH(16)" by (rule unsigned_less)
  then show ?thesis by simp
qed

lemma unat_u32_less: "unat (x :: u32) < 4294967296"
proof -
  have "unat x < 2 ^ LENGTH(32)" by (rule unsigned_less)
  then show ?thesis by simp
qed

lemma unat_of_nat_u32 [simp]: "n < 4294967296 \<Longrightarrow> unat (of_nat n :: u32) = n"
  by (simp add: unat_of_nat take_bit_nat_eq_self)

lemma unat_of_nat_u16 [simp]: "n < 65536 \<Longrightarrow> unat (of_nat n :: u16) = n"
  by (simp add: unat_of_nat take_bit_nat_eq_self)

lemma nth_upd: "j < length xs \<Longrightarrow> xs[i := x] ! j = (if i = j then x else xs ! j)"
  by (auto simp: nth_list_update)

subsection \<open>Words as bytes\<close>

definition lo16 :: "u16 \<Rightarrow> u8" where "lo16 v = ucast v"
definition hi16 :: "u16 \<Rightarrow> u8" where "hi16 v = ucast (drop_bit 8 v)"
definition make16 :: "u8 \<Rightarrow> u8 \<Rightarrow> u16" where
  "make16 b0 b1 = ucast b0 OR push_bit 8 (ucast b1)"

definition byte32 :: "nat \<Rightarrow> u32 \<Rightarrow> u8" where
  "byte32 k v = ucast (drop_bit (8 * k) v)"
definition make32 :: "u8 \<Rightarrow> u8 \<Rightarrow> u8 \<Rightarrow> u8 \<Rightarrow> u32" where
  "make32 b0 b1 b2 b3 = ucast b0 OR push_bit 8 (ucast b1) OR push_bit 16 (ucast b2)
     OR push_bit 24 (ucast b3)"

lemma make16_bytes [simp]: "make16 (lo16 v) (hi16 v) = v"
  by (rule bit_word_eqI) (auto simp: make16_def lo16_def hi16_def bit_simps)

lemma lo16_make16 [simp]: "lo16 (make16 a b) = a"
  by (rule bit_word_eqI) (auto simp: make16_def lo16_def bit_simps)

lemma hi16_make16 [simp]: "hi16 (make16 a b) = b"
  by (rule bit_word_eqI) (auto simp: make16_def hi16_def bit_simps dest: bit_imp_le_length)

lemma make16_inject [simp]: "make16 a b = make16 c d \<longleftrightarrow> a = c \<and> b = d"
  by (metis lo16_make16 hi16_make16)

lemma byte32_make32 [simp]:
  "byte32 0 (make32 a b c d) = a"
  "byte32 (Suc 0) (make32 a b c d) = b" "byte32 1 (make32 a b c d) = b"
  "byte32 2 (make32 a b c d) = c" "byte32 3 (make32 a b c d) = d"
  by (rule bit_word_eqI; auto simp: make32_def byte32_def bit_simps dest: bit_imp_le_length)+

lemma make32_bytes [simp]:
  "make32 (byte32 0 v) (byte32 (Suc 0) v) (byte32 2 v) (byte32 3 v) = v"
proof (rule bit_word_eqI)
  fix n assume n: "n < LENGTH(32)"
  consider "n < 8" | "8 \<le> n" "n < 16" | "16 \<le> n" "n < 24" | "24 \<le> n" "n < 32"
    using n by force
  then show "bit (make32 (byte32 0 v) (byte32 (Suc 0) v) (byte32 2 v) (byte32 3 v)) n = bit v n"
    by cases (auto simp: make32_def byte32_def bit_simps)
qed

lemma make32_inject [simp]:
  "make32 a b c d = make32 a' b' c' d' \<longleftrightarrow> a = a' \<and> b = b' \<and> c = c' \<and> d = d'"
  by (metis byte32_make32)

subsection \<open>Little-endian memory\<close>

definition ld16 :: "mem \<Rightarrow> nat \<Rightarrow> u16" where
  "ld16 m a = make16 (m a) (m (a + 1))"

definition ld32 :: "mem \<Rightarrow> nat \<Rightarrow> u32" where
  "ld32 m a = make32 (m a) (m (a + 1)) (m (a + 2)) (m (a + 3))"

definition st8 :: "mem \<Rightarrow> nat \<Rightarrow> u8 \<Rightarrow> mem" where
  "st8 m a v = m(a := v)"

definition st16 :: "mem \<Rightarrow> nat \<Rightarrow> u16 \<Rightarrow> mem" where
  "st16 m a v = m(a := lo16 v, a + 1 := hi16 v)"

definition st32 :: "mem \<Rightarrow> nat \<Rightarrow> u32 \<Rightarrow> mem" where
  "st32 m a v = m(a := byte32 0 v, a + 1 := byte32 1 v, a + 2 := byte32 2 v, a + 3 := byte32 3 v)"

lemma ld16_st16_same [mem_simps]: "ld16 (st16 m a v) a = v"
  by (simp add: ld16_def st16_def)

lemma ld32_st32_same [mem_simps]: "ld32 (st32 m a v) a = v"
  by (simp add: ld32_def st32_def)

lemma ld_st_other [mem_simps]:
  "a + 2 \<le> b \<or> b + 2 \<le> a \<Longrightarrow> ld16 (st16 m a v) b = ld16 m b"
  "a + 4 \<le> b \<or> b + 2 \<le> a \<Longrightarrow> ld16 (st32 m a w) b = ld16 m b"
  "a + 2 \<le> b \<or> b + 4 \<le> a \<Longrightarrow> ld32 (st16 m a v) b = ld32 m b"
  "a + 4 \<le> b \<or> b + 4 \<le> a \<Longrightarrow> ld32 (st32 m a w) b = ld32 m b"
  "a + 1 \<le> b \<or> b + 2 \<le> a \<Longrightarrow> ld16 (st8 m a x) b = ld16 m b"
  "a + 1 \<le> b \<or> b + 4 \<le> a \<Longrightarrow> ld32 (st8 m a x) b = ld32 m b"
  by (auto simp: ld16_def ld32_def st16_def st32_def st8_def)

lemma byte_st_other [mem_simps]:
  "b < a \<or> a + 2 \<le> b \<Longrightarrow> st16 m a v b = m b"
  "b < a \<or> a + 4 \<le> b \<Longrightarrow> st32 m a w b = m b"
  "b \<noteq> a \<Longrightarrow> st8 m a x b = m b"
  "st8 m a x a = x"
  by (auto simp: st16_def st32_def st8_def)

subsection \<open>Byte order\<close>

definition bswap16 :: "u16 \<Rightarrow> u16" where
  "bswap16 v = make16 (hi16 v) (lo16 v)"

definition bswap32 :: "u32 \<Rightarrow> u32" where
  "bswap32 v = make32 (byte32 3 v) (byte32 2 v) (byte32 1 v) (byte32 0 v)"

text \<open>The macro \<open>RTE_IPV4\<close> (and the copies of it in the programs): a host-order address.\<close>

definition ipv4_addr :: "u8 \<Rightarrow> u8 \<Rightarrow> u8 \<Rightarrow> u8 \<Rightarrow> u32" where
  "ipv4_addr a b c d = make32 d c b a"

lemma bswap16_bswap16 [bswap_simps, simp]: "bswap16 (bswap16 v) = v"
  by (simp add: bswap16_def)

lemma bswap32_bswap32 [bswap_simps, simp]: "bswap32 (bswap32 v) = v"
  by (simp add: bswap32_def)

lemma bswap16_inject [bswap_simps, simp]: "bswap16 v = bswap16 w \<longleftrightarrow> v = w"
  by (metis bswap16_bswap16)

lemma bswap32_inject [bswap_simps, simp]: "bswap32 v = bswap32 w \<longleftrightarrow> v = w"
  by (metis bswap32_bswap32)

lemma bswap32_ipv4_addr [bswap_simps]: "bswap32 (ipv4_addr a b c d) = make32 a b c d"
  by (simp add: bswap32_def ipv4_addr_def)

text \<open>What a big-endian field holds on the wire, read back through the host.\<close>

lemma st16_bswap16_bytes [mem_simps]:
  "st16 m a (bswap16 v) a = hi16 v" "st16 m a (bswap16 v) (Suc a) = lo16 v"
  by (simp_all add: st16_def bswap16_def)

end
