(* ===== verification/Dpdk.thy ===== *)
theory Dpdk
  imports Prelude
begin

unbundle bit_operations_syntax

text \<open>
  What the programs take from DPDK. DPDK itself is not part of the repository, so its
  operations are parameters of the model: a record of functions for each library
  (\<open>cksum_api\<close> for the checksum helpers of \<open>rte_ip.h\<close>, \<open>hash_api\<close> for
  \<open>rte_hash\<close>), with the documented behaviour the programs rely on as a predicate
  (\<open>cksum_laws\<close>, \<open>hash_laws\<close>) that theorems name as a hypothesis. \<open>ref_cksum\<close>
  and \<open>ref_hash\<close> are concrete instances, used to show that the hypotheses can hold.

  An mbuf is its buffer memory, the offset and length of the packet data in it, and the
  address that identifies it. Header fields are read and written at their wire offsets
  (Ethernet, RFC 791, RFC 768, RFC 793) from \<open>rte_pktmbuf_mtod\<close>, in host byte order
  as a C load of the field does.
\<close>

named_theorems pkt_simps

record mbuf =
  mbuf_id :: nat
  buf :: mem
  data_off :: nat
  data_len :: nat

subsection \<open>Reading and writing packet data\<close>

definition rd8 :: "mbuf \<Rightarrow> nat \<Rightarrow> u8" where
  "rd8 m i = buf m (data_off m + i)"
definition rd16 :: "mbuf \<Rightarrow> nat \<Rightarrow> u16" where
  "rd16 m i = ld16 (buf m) (data_off m + i)"
definition rd32 :: "mbuf \<Rightarrow> nat \<Rightarrow> u32" where
  "rd32 m i = ld32 (buf m) (data_off m + i)"
definition wr8 :: "mbuf \<Rightarrow> nat \<Rightarrow> u8 \<Rightarrow> mbuf" where
  "wr8 m i v = m\<lparr>buf := st8 (buf m) (data_off m + i) v\<rparr>"
definition wr16 :: "mbuf \<Rightarrow> nat \<Rightarrow> u16 \<Rightarrow> mbuf" where
  "wr16 m i v = m\<lparr>buf := st16 (buf m) (data_off m + i) v\<rparr>"
definition wr32 :: "mbuf \<Rightarrow> nat \<Rightarrow> u32 \<Rightarrow> mbuf" where
  "wr32 m i v = m\<lparr>buf := st32 (buf m) (data_off m + i) v\<rparr>"

lemma wr_frame [pkt_simps, simp]:
  "data_off (wr8 m i x) = data_off m" "data_off (wr16 m i v) = data_off m"
  "data_off (wr32 m i w) = data_off m"
  "data_len (wr8 m i x) = data_len m" "data_len (wr16 m i v) = data_len m"
  "data_len (wr32 m i w) = data_len m"
  "mbuf_id (wr8 m i x) = mbuf_id m" "mbuf_id (wr16 m i v) = mbuf_id m"
  "mbuf_id (wr32 m i w) = mbuf_id m"
  by (simp_all add: wr8_def wr16_def wr32_def)

lemma rd_wr_same [pkt_simps, simp]:
  "rd8 (wr8 m i x) i = x" "rd16 (wr16 m i v) i = v" "rd32 (wr32 m i w) i = w"
  by (simp_all add: rd8_def rd16_def rd32_def wr8_def wr16_def wr32_def mem_simps)

lemma rd8_wr_other [pkt_simps, simp]:
  "j \<noteq> i \<Longrightarrow> rd8 (wr8 m i x) j = rd8 m j"
  "j < i \<or> i + 2 \<le> j \<Longrightarrow> rd8 (wr16 m i v) j = rd8 m j"
  "j < i \<or> i + 4 \<le> j \<Longrightarrow> rd8 (wr32 m i w) j = rd8 m j"
  by (simp_all add: rd8_def wr8_def wr16_def wr32_def mem_simps)

lemma rd16_wr_other [pkt_simps, simp]:
  "j + 2 \<le> i \<or> i + 1 \<le> j \<Longrightarrow> rd16 (wr8 m i x) j = rd16 m j"
  "j + 2 \<le> i \<or> i + 2 \<le> j \<Longrightarrow> rd16 (wr16 m i v) j = rd16 m j"
  "j + 2 \<le> i \<or> i + 4 \<le> j \<Longrightarrow> rd16 (wr32 m i w) j = rd16 m j"
  by (auto simp: rd16_def wr8_def wr16_def wr32_def mem_simps)

lemma rd32_wr_other [pkt_simps, simp]:
  "j + 4 \<le> i \<or> i + 1 \<le> j \<Longrightarrow> rd32 (wr8 m i x) j = rd32 m j"
  "j + 4 \<le> i \<or> i + 2 \<le> j \<Longrightarrow> rd32 (wr16 m i v) j = rd32 m j"
  "j + 4 \<le> i \<or> i + 4 \<le> j \<Longrightarrow> rd32 (wr32 m i w) j = rd32 m j"
  by (auto simp: rd32_def wr8_def wr16_def wr32_def mem_simps)

lemma rd16_bytes: "rd16 m i = make16 (rd8 m i) (rd8 m (i + 1))"
  by (simp add: rd16_def rd8_def ld16_def)

lemma rd32_bytes: "rd32 m i = make32 (rd8 m i) (rd8 m (i + 1)) (rd8 m (i + 2)) (rd8 m (i + 3))"
  by (simp add: rd32_def rd8_def ld32_def add.assoc)

subsection \<open>Protocol constants and header fields\<close>

abbreviation (input) RTE_ETHER_TYPE_IPV4 :: u16 where "RTE_ETHER_TYPE_IPV4 \<equiv> 0x0800"
abbreviation (input) RTE_ETHER_TYPE_VLAN :: u16 where "RTE_ETHER_TYPE_VLAN \<equiv> 0x8100"
abbreviation (input) RTE_ETHER_TYPE_IPV6 :: u16 where "RTE_ETHER_TYPE_IPV6 \<equiv> 0x86DD"
abbreviation (input) IPPROTO_ICMP :: u8 where "IPPROTO_ICMP \<equiv> 1"
abbreviation (input) IPPROTO_TCP :: u8 where "IPPROTO_TCP \<equiv> 6"
abbreviation (input) IPPROTO_UDP :: u8 where "IPPROTO_UDP \<equiv> 17"

text \<open>Sizes of the packed header structures.\<close>

abbreviation (input) ETHER_HDR :: nat where "ETHER_HDR \<equiv> 14"
abbreviation (input) VLAN_HDR :: nat where "VLAN_HDR \<equiv> 4"
abbreviation (input) IPV4_HDR :: nat where "IPV4_HDR \<equiv> 20"
abbreviation (input) IPV6_HDR :: nat where "IPV6_HDR \<equiv> 40"
abbreviation (input) UDP_HDR :: nat where "UDP_HDR \<equiv> 8"
abbreviation (input) TCP_HDR :: nat where "TCP_HDR \<equiv> 20"
abbreviation (input) ICMP_HDR :: nat where "ICMP_HDR \<equiv> 8"
abbreviation (input) VXLAN_HDR :: nat where "VXLAN_HDR \<equiv> 8"

text \<open>
  Offsets of the fields inside their header: \<open>ether_type\<close>, the fields of
  \<open>struct rte_ipv4_hdr\<close>, and those of the TCP and UDP headers.
\<close>

abbreviation (input) O_ETHER_TYPE :: nat where "O_ETHER_TYPE \<equiv> 12"
abbreviation (input) O_VERSION_IHL :: nat where "O_VERSION_IHL \<equiv> 0"
abbreviation (input) O_TOS :: nat where "O_TOS \<equiv> 1"
abbreviation (input) O_TOTAL_LENGTH :: nat where "O_TOTAL_LENGTH \<equiv> 2"
abbreviation (input) O_PACKET_ID :: nat where "O_PACKET_ID \<equiv> 4"
abbreviation (input) O_FRAGMENT :: nat where "O_FRAGMENT \<equiv> 6"
abbreviation (input) O_TTL :: nat where "O_TTL \<equiv> 8"
abbreviation (input) O_PROTO :: nat where "O_PROTO \<equiv> 9"
abbreviation (input) O_HDR_CKSUM :: nat where "O_HDR_CKSUM \<equiv> 10"
abbreviation (input) O_SRC :: nat where "O_SRC \<equiv> 12"
abbreviation (input) O_DST :: nat where "O_DST \<equiv> 16"
abbreviation (input) O_SPORT :: nat where "O_SPORT \<equiv> 0"
abbreviation (input) O_DPORT :: nat where "O_DPORT \<equiv> 2"
abbreviation (input) O_TCP_CKSUM :: nat where "O_TCP_CKSUM \<equiv> 16"
abbreviation (input) O_UDP_LEN :: nat where "O_UDP_LEN \<equiv> 4"
abbreviation (input) O_UDP_CKSUM :: nat where "O_UDP_CKSUM \<equiv> 6"

text \<open>\<open>ip->ihl\<close>, the low nibble of \<open>version_ihl\<close>, and the two ways the programs find L4.\<close>

definition ip_ihl :: "mbuf \<Rightarrow> nat \<Rightarrow> nat" where
  "ip_ihl m ip = unat (rd8 m (ip + O_VERSION_IHL) AND 0x0F)"

lemma ip_ihl_le: "ip_ihl m ip \<le> 15"
proof -
  have "rd8 m (ip + 0) AND 0x0F \<le> (0x0F :: u8)" by (rule word_and_le1)
  then show ?thesis by (simp add: ip_ihl_def word_le_nat_alt)
qed

subsection \<open>The Internet checksum (RFC 1071)\<close>

function oc_fold :: "nat \<Rightarrow> nat" where
  "oc_fold n = (if n < 65536 then n else oc_fold (n mod 65536 + n div 65536))"
  by pat_completeness auto
termination
proof (relation "measure id")
  fix n :: nat
  assume "\<not> n < 65536"
  then have "0 < n div 65536" by (simp add: div_greater_zero_iff)
  moreover have "n = 65536 * (n div 65536) + n mod 65536" by simp
  ultimately have "n mod 65536 + n div 65536 < n" by linarith
  then show "(n mod 65536 + n div 65536, n) \<in> measure id" by simp
qed simp

declare oc_fold.simps [simp del]

definition rfc1071 :: "u16 list \<Rightarrow> u16" where
  "rfc1071 ws = NOT (of_nat (oc_fold (sum_list (map unat ws))))"

text \<open>The 16-bit words of \<open>n\<close> bytes from offset \<open>i\<close>; an odd last byte is padded with zero.\<close>

definition words_at :: "mbuf \<Rightarrow> nat \<Rightarrow> nat \<Rightarrow> u16 list" where
  "words_at m i n = map (\<lambda>k. if 2 * k + 1 < n then rd16 m (i + 2 * k)
     else make16 (rd8 m (i + 2 * k)) 0) [0..<(n + 1) div 2]"

definition ipv4_words :: "mbuf \<Rightarrow> nat \<Rightarrow> u16 list" where
  "ipv4_words m ip = words_at m ip (4 * ip_ihl m ip)"

definition l4_len :: "mbuf \<Rightarrow> nat \<Rightarrow> nat" where
  "l4_len m ip = unat (bswap16 (rd16 m (ip + O_TOTAL_LENGTH))) - 4 * ip_ihl m ip"

definition pseudo_words :: "mbuf \<Rightarrow> nat \<Rightarrow> u16 list" where
  "pseudo_words m ip = [rd16 m (ip + O_SRC), rd16 m (ip + O_SRC + 2), rd16 m (ip + O_DST),
     rd16 m (ip + O_DST + 2), make16 0 (rd8 m (ip + O_PROTO)), bswap16 (of_nat (l4_len m ip))]"

definition l4_words :: "mbuf \<Rightarrow> nat \<Rightarrow> nat \<Rightarrow> u16 list" where
  "l4_words m ip l4 = pseudo_words m ip @ words_at m l4 (l4_len m ip)"

text \<open>The offset of the checksum in a TCP or UDP header, by protocol.\<close>

definition l4_cksum_off :: "u8 \<Rightarrow> nat" where
  "l4_cksum_off proto = (if proto = IPPROTO_TCP then O_TCP_CKSUM else O_UDP_CKSUM)"

text \<open>A receiver accepts a header (a datagram) whose words add up to all ones.\<close>

definition ipv4_cksum_ok :: "mbuf \<Rightarrow> nat \<Rightarrow> bool" where
  "ipv4_cksum_ok m ip \<longleftrightarrow> oc_fold (sum_list (map unat (ipv4_words m ip))) = 65535"

definition l4_cksum_ok :: "mbuf \<Rightarrow> nat \<Rightarrow> nat \<Rightarrow> bool" where
  "l4_cksum_ok m ip l4 \<longleftrightarrow> oc_fold (sum_list (map unat (l4_words m ip l4))) = 65535"

record cksum_api =
  rte_ipv4_cksum :: "mbuf \<Rightarrow> nat \<Rightarrow> u16"
  rte_ipv4_udptcp_cksum :: "mbuf \<Rightarrow> nat \<Rightarrow> nat \<Rightarrow> u16"

text \<open>
  The documented contract: called on a header whose checksum field is zero, each helper
  returns the complemented checksum; a UDP checksum of zero may be returned as all ones.
  Nothing is promised when the caller did not clear the field.
\<close>

definition cksum_laws :: "cksum_api \<Rightarrow> bool" where
  "cksum_laws C \<longleftrightarrow>
     (\<forall>m ip. rd16 m (ip + O_HDR_CKSUM) = 0 \<longrightarrow>
        rte_ipv4_cksum C m ip = rfc1071 (ipv4_words m ip)) \<and>
     (\<forall>m ip l4. rd16 m (l4 + l4_cksum_off (rd8 m (ip + O_PROTO))) = 0 \<longrightarrow>
        4 * ip_ihl m ip \<le> unat (bswap16 (rd16 m (ip + O_TOTAL_LENGTH))) \<longrightarrow>
        (rte_ipv4_udptcp_cksum C m ip l4 = rfc1071 (l4_words m ip l4) \<or>
         rfc1071 (l4_words m ip l4) = 0 \<and> rte_ipv4_udptcp_cksum C m ip l4 = 0xFFFF))"

definition ref_cksum :: cksum_api where
  "ref_cksum = \<lparr>rte_ipv4_cksum = (\<lambda>m ip. rfc1071 (ipv4_words m ip)),
     rte_ipv4_udptcp_cksum = (\<lambda>m ip l4. rfc1071 (l4_words m ip l4))\<rparr>"

lemma ref_cksum_laws: "cksum_laws ref_cksum"
  by (simp add: cksum_laws_def ref_cksum_def)

lemma oc_fold_mod: "oc_fold n mod 65535 = n mod 65535"
proof (induction n rule: oc_fold.induct)
  case (1 n)
  show ?case
  proof (cases "n < 65536")
    case True
    then show ?thesis by (simp add: oc_fold.simps [of n])
  next
    case False
    have "(n mod 65536 + n div 65536) mod 65535 = n mod 65535"
    proof -
      have "n mod 65535 = (n mod 65536 + n div 65536 + 65535 * (n div 65536)) mod 65535"
        using div_mult_mod_eq [of n 65536] by (simp add: algebra_simps)
      then show ?thesis by (metis mod_mult_self2)
    qed
    with "1.IH" False show ?thesis by (simp add: oc_fold.simps [of n])
  qed
qed

lemma oc_fold_less: "oc_fold n < 65536"
  by (induction n rule: oc_fold.induct) (subst oc_fold.simps, simp)

lemma oc_fold_pos: "0 < n \<Longrightarrow> 0 < oc_fold n"
proof (induction n rule: oc_fold.induct)
  case (1 n)
  show ?case
  proof (cases "n < 65536")
    case True
    with "1.prems" show ?thesis by (simp add: oc_fold.simps [of n])
  next
    case False
    then have "0 < n mod 65536 + n div 65536" by (simp add: div_greater_zero_iff)
    with "1.IH" False have "0 < oc_fold (n mod 65536 + n div 65536)" by blast
    with False show ?thesis by (simp add: oc_fold.simps [of n])
  qed
qed

lemma oc_fold_complement:
  "oc_fold (s + (65535 - oc_fold s)) = 65535"
proof -
  let ?t = "s + (65535 - oc_fold s)"
  have le: "oc_fold s \<le> 65535" using oc_fold_less [of s] by simp
  have pos: "0 < ?t"
    by (cases "s = 0") (simp_all add: oc_fold.simps [of 0])
  have "int (oc_fold s) mod 65535 = int s mod 65535"
    using oc_fold_mod [of s] by (metis of_nat_mod of_nat_numeral)
  then have "65535 dvd (int s - int (oc_fold s)) + 65535"
    by (metis dvd_add dvd_refl mod_eq_dvd_iff)
  moreover have "(int s - int (oc_fold s)) + 65535 = int ?t" using le by simp
  ultimately have "65535 dvd ?t" by (metis int_dvd_int_iff of_nat_numeral)
  then have "?t mod 65535 = 0" by simp
  then have "oc_fold ?t mod 65535 = 0" by (simp add: oc_fold_mod)
  moreover have "0 < oc_fold ?t" using pos by (rule oc_fold_pos)
  moreover have "oc_fold ?t \<le> 65535" using oc_fold_less [of ?t] by simp
  ultimately show ?thesis by (metis dvd_imp_le le_antisym mod_0_imp_dvd)
qed

subsection \<open>Storing a computed checksum\<close>

lemma words_at_wr16:
  assumes "2 * j + 1 < n"
  shows "words_at (wr16 m (i + 2 * j) c) i n = (words_at m i n)[j := c]"
proof (rule nth_equalityI)
  show "length (words_at (wr16 m (i + 2 * j) c) i n) = length ((words_at m i n)[j := c])"
    by (simp add: words_at_def)
next
  fix k assume "k < length (words_at (wr16 m (i + 2 * j) c) i n)"
  then have k: "k < (n + 1) div 2" by (simp add: words_at_def)
  have j: "j < (n + 1) div 2" using assms by simp
  show "words_at (wr16 m (i + 2 * j) c) i n ! k = (words_at m i n)[j := c] ! k"
  proof (cases "k = j")
    case True
    with assms j show ?thesis by (simp add: words_at_def del: upt_Suc)
  next
    case False
    then have d: "k < j \<or> j < k" by auto
    from k have s: "[0..<(n + 1) div 2] ! k = k" by simp
    show ?thesis using d k j s by (auto simp: words_at_def nth_list_update simp del: upt_Suc)
  qed
qed

lemma words_at_cong:
  assumes "\<And>k. k < n \<Longrightarrow> rd8 m (i + k) = rd8 m' (i + k)"
  shows "words_at m i n = words_at m' i n"
proof -
  have "(if 2 * k + 1 < n then rd16 m (i + 2 * k) else make16 (rd8 m (i + 2 * k)) 0) =
        (if 2 * k + 1 < n then rd16 m' (i + 2 * k) else make16 (rd8 m' (i + 2 * k)) 0)"
    if "k < (n + 1) div 2" for k
    using that assms [of "2 * k"] assms [of "2 * k + 1"] by (simp add: rd16_bytes add.assoc)
  then show ?thesis by (simp add: words_at_def)
qed

lemma unat_not16: "unat (NOT x) = 65535 - unat (x :: u16)"
proof -
  have "NOT x = 0xFFFF - x" by (simp add: not_eq_complement)
  moreover have "x \<le> 0xFFFF" using unat_u16_less [of x] by (simp add: word_le_nat_alt)
  ultimately show ?thesis by (simp add: unat_sub)
qed

lemma unat_rfc1071: "unat (rfc1071 ws) = 65535 - oc_fold (sum_list (map unat ws))"
  using oc_fold_less by (simp add: rfc1071_def unat_not16)

text \<open>Writing the complement of the sum over a cleared word makes the words add up to all ones.\<close>

lemma oc_fold_update:
  assumes "j < length ws" "ws ! j = 0" "c = rfc1071 ws \<or> rfc1071 ws = 0 \<and> c = 0xFFFF"
  shows "oc_fold (sum_list (map unat (ws[j := c]))) = 65535"
proof -
  let ?s = "sum_list (map unat ws)"
  have s: "sum_list (map unat (ws[j := c])) = ?s + unat c"
    using assms(1,2) by (simp only: map_update) (simp add: sum_list_update)
  show ?thesis
  proof (cases "c = rfc1071 ws")
    case True
    have "oc_fold (?s + unat c) = 65535"
      unfolding True by (simp add: unat_rfc1071 oc_fold_complement)
    then show ?thesis by (simp only: s)
  next
    case False
    with assms(3) have c: "c = 0xFFFF" and "unat (rfc1071 ws) = 0" by auto
    then have full: "oc_fold ?s = 65535" using oc_fold_less [of ?s] by (simp add: unat_rfc1071)
    have "oc_fold (?s + 65535) mod 65535 = 0"
      using full by (metis mod_add_self2 mod_self oc_fold_mod)
    moreover have "0 < oc_fold (?s + 65535)" by (rule oc_fold_pos) simp
    moreover have "oc_fold (?s + 65535) \<le> 65535" using oc_fold_less [of "?s + 65535"] by simp
    ultimately have "oc_fold (?s + 65535) = 65535" by (metis dvd_imp_le le_antisym mod_0_imp_dvd)
    then have "oc_fold (?s + unat c) = 65535" by (simp add: c)
    then show ?thesis by (simp only: s)
  qed
qed

lemma ip_ihl_cong: "rd8 m ip = rd8 m' ip \<Longrightarrow> ip_ihl m ip = ip_ihl m' ip"
  by (simp add: ip_ihl_def)

lemma ipv4_words_wr_cksum:
  assumes "5 \<le> ip_ihl m ip"
  shows "ipv4_words (wr16 m (ip + O_HDR_CKSUM) c) ip = (ipv4_words m ip)[5 := c]"
    "5 < length (ipv4_words m ip)" "ipv4_words m ip ! 5 = rd16 m (ip + O_HDR_CKSUM)"
proof -
  have ihl: "ip_ihl (wr16 m (ip + 10) c) ip = ip_ihl m ip" by (rule ip_ihl_cong) simp
  have n: "2 * 5 + 1 < 4 * ip_ihl m ip" using assms by simp
  show "ipv4_words (wr16 m (ip + 10) c) ip = (ipv4_words m ip)[5 := c]"
    using words_at_wr16 [OF n, of m ip c] by (simp add: ipv4_words_def ihl)
  show "5 < length (ipv4_words m ip)" using n by (simp add: ipv4_words_def words_at_def)
  show "ipv4_words m ip ! 5 = rd16 m (ip + 10)"
    using n by (simp add: ipv4_words_def words_at_def del: upt_Suc)
qed

lemma ipv4_cksum_store:
  assumes "cksum_laws C" "rd16 m (ip + O_HDR_CKSUM) = 0" "5 \<le> ip_ihl m ip"
  shows "ipv4_cksum_ok (wr16 m (ip + O_HDR_CKSUM) (rte_ipv4_cksum C m ip)) ip"
proof -
  have c: "rte_ipv4_cksum C m ip = rfc1071 (ipv4_words m ip)" using assms(1,2) by (simp add: cksum_laws_def)
  show ?thesis
    unfolding ipv4_cksum_ok_def ipv4_words_wr_cksum(1) [OF assms(3)]
    using c ipv4_words_wr_cksum(2,3) [OF assms(3)] assms(2) by (intro oc_fold_update) auto
qed

lemma l4_len_cong:
  "rd16 m (ip + 2) = rd16 m' (ip + 2) \<Longrightarrow> rd8 m ip = rd8 m' ip \<Longrightarrow> l4_len m ip = l4_len m' ip"
  by (simp add: l4_len_def ip_ihl_def)

lemma l4_cksum_store:
  fixes m ip l4
  defines "f \<equiv> l4_cksum_off (rd8 m (ip + O_PROTO))"
  assumes "cksum_laws C" "rd16 m (l4 + f) = 0" "ip + IPV4_HDR \<le> l4" "f + 2 \<le> l4_len m ip"
  shows "l4_cksum_ok (wr16 m (l4 + f) (rte_ipv4_udptcp_cksum C m ip l4)) ip l4"
proof -
  let ?c = "rte_ipv4_udptcp_cksum C m ip l4" and ?n = "l4_len m ip"
  let ?m = "wr16 m (l4 + f) ?c" and ?ws = "l4_words m ip l4"
  have le: "4 * ip_ihl m ip \<le> unat (bswap16 (rd16 m (ip + O_TOTAL_LENGTH)))"
    using assms(5) by (simp add: l4_len_def)
  from assms(2,3) le have c: "?c = rfc1071 ?ws \<or> rfc1071 ?ws = 0 \<and> ?c = 0xFFFF"
    by (simp add: cksum_laws_def f_def)
  obtain j where f: "f = 2 * j" and j: "j = 8 \<or> j = 3"
  proof (cases "rd8 m (ip + 9) = IPPROTO_TCP")
    case True
    then show ?thesis by (intro that [of 8]) (simp_all add: f_def l4_cksum_off_def)
  next
    case False
    then show ?thesis by (intro that [of 3]) (simp_all add: f_def l4_cksum_off_def)
  qed
  have n: "2 * j + 1 < ?n" using assms(5) f by simp
  have len: "l4_len ?m ip = ?n" using assms(4) by (intro l4_len_cong) simp_all
  have pseudo: "pseudo_words ?m ip = pseudo_words m ip"
    using assms(4) by (simp add: pseudo_words_def len)
  have ws: "l4_words ?m ip l4 = ?ws[6 + j := ?c]"
  proof -
    have "length (pseudo_words m ip) = 6" by (simp add: pseudo_words_def)
    then have "?ws[6 + j := ?c] = pseudo_words m ip @ (words_at m l4 ?n)[j := ?c]"
      by (simp add: l4_words_def list_update_append)
    with words_at_wr16 [OF n, of m l4 ?c] show ?thesis
      by (simp add: l4_words_def pseudo len flip: f)
  qed
  have "6 + j < length ?ws" using n by (simp add: l4_words_def pseudo_words_def words_at_def)
  moreover have "?ws ! (6 + j) = 0"
    using n assms(3) f by (simp add: l4_words_def pseudo_words_def words_at_def nth_append del: upt_Suc)
  ultimately show ?thesis
    unfolding l4_cksum_ok_def ws using c by (intro oc_fold_update) auto
qed

text \<open>The IPv4 header checksum is not part of what the TCP or UDP checksum covers.\<close>

lemma l4_words_wr_hdr_cksum:
  assumes "ip + IPV4_HDR \<le> l4"
  shows "l4_words (wr16 m (ip + O_HDR_CKSUM) c) ip l4 = l4_words m ip l4"
proof -
  let ?m = "wr16 m (ip + 10) c"
  have len: "l4_len ?m ip = l4_len m ip" by (rule l4_len_cong) simp_all
  have "words_at ?m l4 n = words_at m l4 n" for n
    using assms by (intro words_at_cong) simp
  then show ?thesis by (simp add: l4_words_def pseudo_words_def len)
qed

text \<open>
  Storing the complement of a sum that still contains an old checksum leaves that old value
  in the total: the header does not verify, unless the old value was a zero of one's
  complement arithmetic.
\<close>

lemma oc_fold_stale:
  assumes "j < length ws" "ws ! j \<noteq> 0" "ws ! j \<noteq> 0xFFFF"
  shows "oc_fold (sum_list (map unat (ws[j := rfc1071 ws]))) \<noteq> 65535"
proof
  let ?S = "sum_list (map unat ws)" and ?c = "unat (ws ! j)"
  let ?t = "sum_list (map unat (ws[j := rfc1071 ws]))"
  assume "oc_fold ?t = 65535"
  then have "?t mod 65535 = 0" using oc_fold_mod [of ?t] by simp
  moreover have "?t + ?c = ?S + (65535 - oc_fold ?S)"
  proof -
    have le: "?c \<le> ?S" using assms(1) by (intro member_le_sum_list) auto
    have "?t = ?S + unat (rfc1071 ws) - ?c"
      using assms(1) by (simp only: map_update) (simp add: sum_list_update)
    with le show ?thesis by (simp add: unat_rfc1071)
  qed
  moreover have "(?S + (65535 - oc_fold ?S)) mod 65535 = 0"
    using oc_fold_complement [of ?S] oc_fold_mod [of "?S + (65535 - oc_fold ?S)"] by simp
  ultimately have "?c mod 65535 = 0" by (metis add_cancel_right_left mod_add_eq mod_mod_trivial)
  moreover have "?c < 65535"
  proof -
    have "?c \<noteq> 65535"
      using assms(3) by (simp add: word_unat_eq_iff)
    with unat_u16_less [of "ws ! j"] show ?thesis by simp
  qed
  ultimately have "?c = 0" by simp
  with assms(2) show False by (simp add: unat_eq_0)
qed

lemma stale_ipv4_cksum:
  assumes "rd16 m (ip + O_HDR_CKSUM) \<noteq> 0" "rd16 m (ip + O_HDR_CKSUM) \<noteq> 0xFFFF" "5 \<le> ip_ihl m ip"
  shows "\<not> ipv4_cksum_ok (wr16 m (ip + O_HDR_CKSUM) (rfc1071 (ipv4_words m ip))) ip"
  unfolding ipv4_cksum_ok_def ipv4_words_wr_cksum(1) [OF assms(3)]
  using oc_fold_stale [of 5 "ipv4_words m ip"] ipv4_words_wr_cksum(2,3) [OF assms(3)] assms(1,2) by simp

end
