(* ===== verification/Rte_Hash.thy ===== *)
theory Rte_Hash
  imports Dpdk "HOL-Library.AList"
begin

text \<open>
  The hash tables of DPDK as a parameter of the programs that use them, and the interface
  their clients rely on.

  \<open>hash_api\<close> holds the operations of \<open>rte_hash.h\<close> the repository calls. A negative
  return of \<open>rte_hash_lookup_data\<close> is \<open>None\<close>, a found entry is \<open>Some\<close> of the
  stored data pointer; \<open>rte_hash_add_key_data\<close> and \<open>rte_hash_del_key\<close> give back
  their return code with the new table. \<open>hash_laws\<close> is their documented behaviour.

  The locale \<open>table\<close> is the contract: what a lookup returns after an insertion, a failed
  insertion and a removal. Its lemmas say how a property of all stored entries survives
  each operation; the invariants of the NAT tables rest on them through the interpretation
  \<open>rte\<close>.
\<close>

record ('h, 'k, 'v) hash_api =
  lookup_data :: "'h \<Rightarrow> 'k \<Rightarrow> 'v option"
  add_key_data :: "'h \<Rightarrow> 'k \<Rightarrow> 'v \<Rightarrow> int \<times> 'h"
  del_key :: "'h \<Rightarrow> 'k \<Rightarrow> int \<times> 'h"
  hash_reset :: "'h \<Rightarrow> 'h"
  hash_iterate :: "'h \<Rightarrow> ('k \<times> 'v) list"

definition hash_laws :: "('h, 'k, 'v) hash_api \<Rightarrow> bool" where
  "hash_laws H \<longleftrightarrow>
     (\<forall>h k v. 0 \<le> fst (add_key_data H h k v) \<longrightarrow>
        lookup_data H (snd (add_key_data H h k v)) = (lookup_data H h)(k \<mapsto> v)) \<and>
     (\<forall>h k v. fst (add_key_data H h k v) < 0 \<longrightarrow>
        lookup_data H (snd (add_key_data H h k v)) = lookup_data H h) \<and>
     (\<forall>h k. lookup_data H (snd (del_key H h k)) = (lookup_data H h)(k := None)) \<and>
     (\<forall>h. lookup_data H (hash_reset H h) = Map.empty) \<and>
     (\<forall>h. map_of (hash_iterate H h) = lookup_data H h \<and>
        distinct (map fst (hash_iterate H h)))"

definition hash_upd :: "('h, 'k, 'v) hash_api \<Rightarrow> 'h \<Rightarrow> 'k \<Rightarrow> 'v \<Rightarrow> bool \<times> 'h" where
  "hash_upd H h k v = (0 \<le> fst (add_key_data H h k v), snd (add_key_data H h k v))"

text \<open>Every entry a lookup function can return satisfies \<open>P\<close>.\<close>

definition all_entries :: "('k \<Rightarrow> 'v option) \<Rightarrow> ('k \<Rightarrow> 'v \<Rightarrow> bool) \<Rightarrow> bool" where
  "all_entries look P \<longleftrightarrow> (\<forall>k v. look k = Some v \<longrightarrow> P k v)"

lemma all_entriesD: "all_entries look P \<Longrightarrow> look k = Some v \<Longrightarrow> P k v"
  by (simp add: all_entries_def)

lemma all_entries_empty [simp]: "all_entries Map.empty P"
  by (simp add: all_entries_def)

lemma all_entries_mono:
  "all_entries look P \<Longrightarrow> (\<And>k v. look k = Some v \<Longrightarrow> P k v \<Longrightarrow> Q k v) \<Longrightarrow> all_entries look Q"
  by (simp add: all_entries_def)

locale table =
  fixes lookup :: "'t \<Rightarrow> 'k \<Rightarrow> 'v option"
    and insert :: "'t \<Rightarrow> 'k \<Rightarrow> 'v \<Rightarrow> bool \<times> 't"
    and remove :: "'t \<Rightarrow> 'k \<Rightarrow> 't"
    and invar :: "'t \<Rightarrow> bool"
  assumes insert_ok: "invar t \<Longrightarrow> insert t k v = (True, t') \<Longrightarrow> lookup t' = (lookup t)(k \<mapsto> v)"
    and insert_fail: "invar t \<Longrightarrow> insert t k v = (False, t') \<Longrightarrow> lookup t' = lookup t"
    and remove: "invar t \<Longrightarrow> lookup (remove t k) = (lookup t)(k := None)"
    and invar_insert: "invar t \<Longrightarrow> invar (snd (insert t k v))"
    and invar_remove: "invar t \<Longrightarrow> invar (remove t k)"
begin

lemma insert_cases:
  assumes "invar t"
  shows "lookup (snd (insert t k v)) = (lookup t)(k \<mapsto> v) \<or> lookup (snd (insert t k v)) = lookup t"
  using assms insert_ok insert_fail by (metis (full_types) prod.collapse)

lemma insert_other: "invar t \<Longrightarrow> k' \<noteq> k \<Longrightarrow> lookup (snd (insert t k v)) k' = lookup t k'"
  using insert_cases [of t k v] by auto

lemma all_entries_insert:
  assumes "invar t" "all_entries (lookup t) P" "P k v"
  shows "all_entries (lookup (snd (insert t k v))) P"
  using assms insert_cases [of t k v] by (auto simp: all_entries_def split: if_splits)

lemma all_entries_remove:
  assumes "invar t" "all_entries (lookup t) P"
  shows "all_entries (lookup (remove t k)) (\<lambda>k' v. P k' v \<and> k' \<noteq> k)"
  using assms by (auto simp: all_entries_def remove)

lemma remove_other: "invar t \<Longrightarrow> k' \<noteq> k \<Longrightarrow> lookup (remove t k) k' = lookup t k'"
  by (simp add: remove)

end

interpretation rte: table "lookup_data H" "hash_upd H" "\<lambda>h k. snd (del_key H h k)"
  "\<lambda>_. hash_laws H" for H
  by unfold_locales (auto simp: hash_laws_def hash_upd_def)

text \<open>The interface facts restated on the C-level operations.\<close>

lemma lookup_add_ok:
  "hash_laws H \<Longrightarrow> 0 \<le> fst (add_key_data H h k v) \<Longrightarrow>
   lookup_data H (snd (add_key_data H h k v)) = (lookup_data H h)(k \<mapsto> v)"
  by (simp add: hash_laws_def)

lemma lookup_add_other:
  "hash_laws H \<Longrightarrow> k' \<noteq> k \<Longrightarrow>
   lookup_data H (snd (add_key_data H h k v)) k' = lookup_data H h k'"
  using rte.insert_other [of H k' k h v] by (simp add: hash_upd_def)

lemma entries_add:
  "hash_laws H \<Longrightarrow> all_entries (lookup_data H h) P \<Longrightarrow> P k v \<Longrightarrow>
   all_entries (lookup_data H (snd (add_key_data H h k v))) P"
  using rte.all_entries_insert [of H h P k v] by (simp add: hash_upd_def)

lemma entries_del:
  "hash_laws H \<Longrightarrow> all_entries (lookup_data H h) P \<Longrightarrow>
   all_entries (lookup_data H (snd (del_key H h k))) (\<lambda>k' v. P k' v \<and> k' \<noteq> k)"
  by (rule rte.all_entries_remove)

lemma lookup_del:
  "hash_laws H \<Longrightarrow> lookup_data H (snd (del_key H h k)) = (lookup_data H h)(k := None)"
  by (rule rte.remove)

lemma lookup_reset: "hash_laws H \<Longrightarrow> lookup_data H (hash_reset H h) = Map.empty"
  by (simp add: hash_laws_def)

lemma iterate_lookup: "hash_laws H \<Longrightarrow> map_of (hash_iterate H h) = lookup_data H h"
  by (simp add: hash_laws_def)

lemma iterate_distinct: "hash_laws H \<Longrightarrow> distinct (map fst (hash_iterate H h))"
  by (simp add: hash_laws_def)

subsection \<open>A concrete table of bounded capacity\<close>

definition ref_hash :: "nat \<Rightarrow> (('k \<times> 'v) list, 'k, 'v) hash_api" where
  "ref_hash cap = \<lparr>lookup_data = map_of,
     add_key_data = (\<lambda>t k v. if map_of t k \<noteq> None \<or> length t < cap
       then (0, AList.update k v t) else (-28, t)),
     del_key = (\<lambda>t k. (if map_of t k = None then -2 else 0, AList.delete k t)),
     hash_reset = (\<lambda>_. []),
     hash_iterate = AList.clearjunk\<rparr>"

lemma ref_hash_laws: "hash_laws (ref_hash cap)"
  by (auto simp: hash_laws_def ref_hash_def update_conv' delete_conv' map_of_clearjunk
      distinct_clearjunk)

end
