(* ===== verification/Rte_Timer.thy ===== *)
theory Rte_Timer
  imports Prelude "HOL-Library.AList"
begin

text \<open>
  The timer library as a parameter. \<open>'i\<close> names a timer (the address of its
  \<open>struct rte_timer\<close>), \<open>'t\<close> is the library's state. \<open>tm_look\<close> observes a pending
  timer: when it expires and whether it is \<open>PERIODICAL\<close>. \<open>tm_reset\<close> is
  \<open>rte_timer_reset\<close> called at time \<open>now\<close>, \<open>tm_stop\<close> is \<open>rte_timer_stop\<close>, and
  \<open>tm_manage\<close> gives the timers whose callbacks one \<open>rte_timer_manage\<close> at time
  \<open>now\<close> runs, in order. \<open>timer_laws\<close> is the documented behaviour: every expired timer
  runs once, a \<open>SINGLE\<close> timer is then no longer pending, a \<open>PERIODICAL\<close> one still is.
\<close>

record ('t, 'i) timer_api =
  tm_look :: "'t \<Rightarrow> 'i \<Rightarrow> (u64 \<times> bool) option"
  tm_reset :: "'t \<Rightarrow> u64 \<Rightarrow> 'i \<Rightarrow> u64 \<Rightarrow> bool \<Rightarrow> 't"
  tm_stop :: "'t \<Rightarrow> 'i \<Rightarrow> 't"
  tm_manage :: "'t \<Rightarrow> u64 \<Rightarrow> 'i list \<times> 't"

definition expired :: "('t, 'i) timer_api \<Rightarrow> 't \<Rightarrow> u64 \<Rightarrow> 'i \<Rightarrow> bool" where
  "expired T t now i \<longleftrightarrow> (case tm_look T t i of None \<Rightarrow> False | Some (e, _) \<Rightarrow> e \<le> now)"

definition timer_laws :: "('t, 'i) timer_api \<Rightarrow> bool" where
  "timer_laws T \<longleftrightarrow>
     (\<forall>t now i n p. tm_look T (tm_reset T t now i n p) = (tm_look T t)(i \<mapsto> (now + n, p))) \<and>
     (\<forall>t i. tm_look T (tm_stop T t i) = (tm_look T t)(i := None)) \<and>
     (\<forall>t now. distinct (fst (tm_manage T t now)) \<and>
        set (fst (tm_manage T t now)) = {i. expired T t now i}) \<and>
     (\<forall>t now i. \<not> expired T t now i \<longrightarrow>
        tm_look T (snd (tm_manage T t now)) i = tm_look T t i) \<and>
     (\<forall>t now i e. expired T t now i \<longrightarrow> tm_look T t i = Some (e, False) \<longrightarrow>
        tm_look T (snd (tm_manage T t now)) i = None) \<and>
     (\<forall>t now i e. expired T t now i \<longrightarrow> tm_look T t i = Some (e, True) \<longrightarrow>
        (\<exists>e'. tm_look T (snd (tm_manage T t now)) i = Some (e', True)))"

lemma look_reset:
  "timer_laws T \<Longrightarrow> tm_look T (tm_reset T t now i n p) = (tm_look T t)(i \<mapsto> (now + n, p))"
  by (simp add: timer_laws_def)

lemma look_stop: "timer_laws T \<Longrightarrow> tm_look T (tm_stop T t i) = (tm_look T t)(i := None)"
  by (simp add: timer_laws_def)

lemma manage_set:
  "timer_laws T \<Longrightarrow> tm_manage T t now = (ps, t') \<Longrightarrow> distinct ps \<and> set ps = {i. expired T t now i}"
  by (metis timer_laws_def fst_conv)

lemma manage_keep:
  "timer_laws T \<Longrightarrow> tm_manage T t now = (ps, t') \<Longrightarrow> i \<notin> set ps \<Longrightarrow> tm_look T t' i = tm_look T t i"
  using manage_set [of T t now ps t'] by (metis timer_laws_def mem_Collect_eq snd_conv)

lemma manage_single:
  "timer_laws T \<Longrightarrow> tm_manage T t now = (ps, t') \<Longrightarrow> i \<in> set ps \<Longrightarrow>
   tm_look T t i = Some (e, False) \<Longrightarrow> tm_look T t' i = None"
  using manage_set [of T t now ps t'] by (metis timer_laws_def mem_Collect_eq snd_conv)

lemma expired_look: "expired T t now i \<Longrightarrow> \<exists>e p. tm_look T t i = Some (e, p) \<and> e \<le> now"
  by (auto simp: expired_def split: option.splits)

subsection \<open>A concrete timer list\<close>

text \<open>Each pending timer with its expiry time, its period and whether it is periodical.\<close>

type_synonym 'i timer_list = "('i \<times> u64 \<times> u64 \<times> bool) list"

definition ref_look :: "'i timer_list \<Rightarrow> 'i \<Rightarrow> (u64 \<times> bool) option" where
  "ref_look t i = map_option (\<lambda>(e, n, p). (e, p)) (map_of t i)"

definition ref_due :: "u64 \<Rightarrow> ('i \<times> u64 \<times> u64 \<times> bool) \<Rightarrow> bool" where
  "ref_due now x \<longleftrightarrow> fst (snd x) \<le> now"

fun ref_next :: "u64 \<Rightarrow> ('i \<times> u64 \<times> u64 \<times> bool) \<Rightarrow> ('i \<times> u64 \<times> u64 \<times> bool) list" where
  "ref_next now (i, e, n, p) =
     (if \<not> e \<le> now then [(i, e, n, p)] else if p then [(i, e + n, n, p)] else [])"

definition ref_manage :: "'i timer_list \<Rightarrow> u64 \<Rightarrow> 'i list \<times> 'i timer_list" where
  "ref_manage t now = (let c = AList.clearjunk t
     in (map fst (filter (ref_due now) c), concat (map (ref_next now) c)))"

definition ref_timer :: "('i timer_list, 'i) timer_api" where
  "ref_timer = \<lparr>tm_look = ref_look,
     tm_reset = (\<lambda>t now i n p. (i, now + n, n, p) # t),
     tm_stop = (\<lambda>t i. AList.delete i t),
     tm_manage = ref_manage\<rparr>"

lemma map_of_ref_next:
  assumes "distinct (map fst c)"
  shows "map_of (concat (map (ref_next now) c)) i =
    (case map_of c i of None \<Rightarrow> None
     | Some (e, n, p) \<Rightarrow> if \<not> e \<le> now then Some (e, n, p) else if p then Some (e + n, n, p) else None)"
  using assms
proof (induction c)
  case Nil
  then show ?case by simp
next
  case (Cons x c)
  obtain j e n p where x: "x = (j, e, n, p)" by (cases x)
  have IH: "map_of (concat (map (ref_next now) c)) i =
    (case map_of c i of None \<Rightarrow> None
     | Some (e, n, p) \<Rightarrow> if \<not> e \<le> now then Some (e, n, p) else if p then Some (e + n, n, p) else None)"
    using Cons by simp
  have "map_of c i = None" if "i = j"
    using Cons.prems that by (simp add: x map_of_eq_None_iff)
  then show ?case using IH by (auto simp: x)
qed

lemma ref_timer_laws: "timer_laws ref_timer"
proof -
  have look: "ref_look (AList.clearjunk t) = ref_look t" for t :: "'i timer_list"
    by (simp add: ref_look_def fun_eq_iff map_of_clearjunk)
  have due: "i \<in> fst ` {x \<in> set (AList.clearjunk t). ref_due now x} \<longleftrightarrow> expired ref_timer t now i"
    for t :: "'i timer_list" and now i
  proof -
    have "i \<in> fst ` {x \<in> set (AList.clearjunk t). ref_due now x} \<longleftrightarrow>
        (\<exists>e n p. (i, e, n, p) \<in> set (AList.clearjunk t) \<and> e \<le> now)"
      by (force simp: ref_due_def)
    also have "\<dots> \<longleftrightarrow> (\<exists>e n p. map_of t i = Some (e, n, p) \<and> e \<le> now)"
      by (simp add: map_of_eq_Some_iff [OF distinct_clearjunk, symmetric] map_of_clearjunk)
    also have "\<dots> \<longleftrightarrow> expired ref_timer t now i"
      by (auto simp: expired_def ref_timer_def ref_look_def split: option.splits)
    finally show ?thesis .
  qed
  have man: "map_of (snd (ref_manage t now)) i =
    (case map_of t i of None \<Rightarrow> None
     | Some (e, n, p) \<Rightarrow> if \<not> e \<le> now then Some (e, n, p) else if p then Some (e + n, n, p) else None)"
    for t :: "'i timer_list" and now i
    by (simp add: ref_manage_def Let_def map_of_ref_next distinct_clearjunk map_of_clearjunk)
  have dist: "distinct (fst (ref_manage t now))" for t :: "'i timer_list" and now
    by (simp add: ref_manage_def Let_def distinct_map_filter distinct_clearjunk)
  have set: "set (fst (ref_manage t now)) = {i. expired ref_timer t now i}"
    for t :: "'i timer_list" and now
  proof (rule set_eqI)
    fix i
    have "set (fst (ref_manage t now)) = fst ` {x \<in> set (AList.clearjunk t). ref_due now x}"
      by (simp add: ref_manage_def Let_def)
    then show "i \<in> set (fst (ref_manage t now)) \<longleftrightarrow> i \<in> {i. expired ref_timer t now i}"
      using due [of i t now] by (simp only: mem_Collect_eq)
  qed
  show ?thesis
    unfolding timer_laws_def
    by (auto simp: set [unfolded ref_timer_def] ref_timer_def dist ref_look_def man expired_def
        delete_conv' fun_eq_iff split: option.splits if_splits)
qed

end
