(* ===== verification/Burst.thy ===== *)
theory Burst
  imports Dpdk
begin

text \<open>
  The receive/process/transmit loop that the forwarding programs share.

  A packet handler takes the program's state and a packet and returns the new state, the
  rewritten packet and whether the packet goes on (\<open>True\<close>) or is dropped; \<open>None\<close> is
  undefined behaviour of the C code (a dangling or null pointer is used).
  \<open>run_burst\<close> applies a handler to a burst in order, \<open>run_bursts\<close> to any number of
  bursts. \<open>io\<close> is what became of the packets: handed to \<open>rte_eth_tx_burst\<close> and
  accepted by it, or released with \<open>rte_pktmbuf_free\<close>.

  The locale \<open>burst_handler\<close> is the contract of a handler: under its invariant it never
  runs into undefined behaviour, keeps the invariant, and returns the buffer it was given.
  Each program's handler interprets it.
\<close>

type_synonym 's handler = "'s \<Rightarrow> mbuf \<Rightarrow> ('s \<times> mbuf \<times> bool) option"

fun run_burst :: "'s handler \<Rightarrow> 's \<Rightarrow> mbuf list \<Rightarrow> ('s \<times> mbuf list \<times> mbuf list) option" where
  "run_burst f s [] = Some (s, [], [])"
| "run_burst f s (m # ms) =
     (case f s m of None \<Rightarrow> None
      | Some (s1, m1, fwd) \<Rightarrow>
          (case run_burst f s1 ms of None \<Rightarrow> None
           | Some (s2, out, dropped) \<Rightarrow>
               Some (s2, if fwd then m1 # out else out, if fwd then dropped else m1 # dropped)))"

fun run_bursts :: "'s handler \<Rightarrow> 's \<Rightarrow> mbuf list list \<Rightarrow> ('s \<times> mbuf list \<times> mbuf list) option" where
  "run_bursts f s [] = Some (s, [], [])"
| "run_bursts f s (b # bs) =
     (case run_burst f s b of None \<Rightarrow> None
      | Some (s1, out, dropped) \<Rightarrow>
          (case run_bursts f s1 bs of None \<Rightarrow> None
           | Some (s2, out', dropped') \<Rightarrow> Some (s2, out @ out', dropped @ dropped')))"

text \<open>
  The variant that works on the array in place: a dropped packet is freed and its array
  element set to \<open>NULL\<close>. The result is the array and the freed packets.
\<close>

fun apply_null :: "'s handler \<Rightarrow> 's \<Rightarrow> mbuf list \<Rightarrow> ('s \<times> mbuf option list \<times> mbuf list) option" where
  "apply_null f s [] = Some (s, [], [])"
| "apply_null f s (m # ms) =
     (case f s m of None \<Rightarrow> None
      | Some (s1, m1, keep) \<Rightarrow>
          (case apply_null f s1 ms of None \<Rightarrow> None
           | Some (s2, bufs, fr) \<Rightarrow>
               Some (s2, (if keep then Some m1 else None) # bufs, if keep then fr else m1 # fr)))"

lemma apply_null_run:
  "map_option (\<lambda>(s', bufs, fr). (s', List.map_filter id bufs, fr)) (apply_null f s ms) = run_burst f s ms"
proof (induction ms arbitrary: s)
  case Nil
  then show ?case by (simp add: map_filter_simps)
next
  case (Cons m ms)
  show ?case
  proof (cases "f s m")
    case (Some x)
    obtain s1 m1 keep where x: "x = (s1, m1, keep)" by (cases x)
    from Cons [of s1, symmetric] Some x show ?thesis
      by (cases "apply_null f s1 ms") (auto simp: map_filter_simps)
  qed simp
qed

record io =
  sent :: "mbuf list"
  freed :: "mbuf list"

text \<open>\<open>for (i = nb_tx; i < nb_rx; i++) rte_pktmbuf_free(bufs[i]);\<close>\<close>

function free_range :: "mbuf list \<Rightarrow> nat \<Rightarrow> nat \<Rightarrow> mbuf list" where
  "free_range ps i n = (if i < n then ps ! i # free_range ps (i + 1) n else [])"
  by pat_completeness auto
termination
  by (relation "measure (\<lambda>(ps, i, n). n - i)") auto

declare free_range.simps [simp del]

text \<open>
  \<open>rte_eth_tx_burst\<close> is a parameter: how many of the packets offered it accepts (from the
  front). \<open>tx_ok\<close> is its documented range.
\<close>

definition tx_ok :: "(mbuf list \<Rightarrow> nat) \<Rightarrow> bool" where
  "tx_ok tx \<longleftrightarrow> (\<forall>ps. tx ps \<le> length ps)"

definition tx_then_free :: "(mbuf list \<Rightarrow> nat) \<Rightarrow> mbuf list \<Rightarrow> io" where
  "tx_then_free tx ps =
     (let nb_tx = tx ps
      in \<lparr>sent = take nb_tx ps, freed = if nb_tx < length ps then free_range ps nb_tx (length ps) else []\<rparr>)"

text \<open>One \<open>rte_eth_tx_burst(port, 0, &m, 1)\<close> per packet, its result ignored.\<close>

definition tx_each :: "(mbuf list \<Rightarrow> nat) \<Rightarrow> mbuf list \<Rightarrow> mbuf list" where
  "tx_each tx ps = concat (map (\<lambda>p. take (tx [p]) [p]) ps)"

lemma free_range_drop: "n \<le> length ps \<Longrightarrow> free_range ps i n = drop i (take n ps)"
proof (induction ps i n rule: free_range.induct)
  case (1 ps i n)
  show ?case
  proof (cases "i < n")
    case True
    with "1" have "free_range ps (i + 1) n = drop (i + 1) (take n ps)" by simp
    with True "1.prems" show ?thesis
      by (simp add: free_range.simps [of ps i n] Cons_nth_drop_Suc [symmetric] del: drop_take)
  next
    case False
    then show ?thesis by (simp add: free_range.simps [of ps i n])
  qed
qed

lemma tx_then_free_io:
  assumes "tx_ok tx"
  shows "sent (tx_then_free tx ps) @ freed (tx_then_free tx ps) = ps"
  using assms by (auto simp: tx_then_free_def free_range_drop Let_def tx_ok_def not_less)

lemma tx_each_all: "\<forall>p. tx [p] = 1 \<Longrightarrow> tx_each tx ps = ps"
  by (induction ps) (auto simp: tx_each_def)

lemma tx_each_none: "\<forall>p. tx [p] = 0 \<Longrightarrow> tx_each tx ps = []"
  by (induction ps) (auto simp: tx_each_def)

lemma tx_each_sub: "mset (map mbuf_id (tx_each tx ps)) \<subseteq># mset (map mbuf_id ps)"
proof (induction ps)
  case (Cons p ps)
  have "mset (map mbuf_id (take (tx [p]) [p])) \<subseteq># {#mbuf_id p#}" by (cases "tx [p]") auto
  from subset_mset.add_mono [OF this Cons.IH] show ?case by (simp add: tx_each_def)
qed (simp add: tx_each_def)

locale burst_handler =
  fixes step :: "'s handler"
    and inv :: "'s \<Rightarrow> bool"
  assumes step_safe: "inv s \<Longrightarrow>
    \<exists>s' m' fwd. step s m = Some (s', m', fwd) \<and> inv s' \<and> mbuf_id m' = mbuf_id m"
begin

lemma burst_safe:
  assumes "inv s"
  shows "\<exists>s' out dropped. run_burst step s ms = Some (s', out, dropped) \<and> inv s' \<and>
    mset (map mbuf_id out) + mset (map mbuf_id dropped) = mset (map mbuf_id ms)"
  using assms
proof (induction ms arbitrary: s)
  case Nil
  then show ?case by simp
next
  case (Cons m ms)
  from step_safe [OF Cons.prems, of m] obtain s1 m1 fwd where
    1: "step s m = Some (s1, m1, fwd)" "inv s1" "mbuf_id m1 = mbuf_id m" by blast
  from Cons.IH [OF 1(2)] obtain s2 out dropped where
    2: "run_burst step s1 ms = Some (s2, out, dropped)" "inv s2"
       "mset (map mbuf_id out) + mset (map mbuf_id dropped) = mset (map mbuf_id ms)" by blast
  then have "add_mset (mbuf_id m) (mset (map mbuf_id out) + mset (map mbuf_id dropped)) =
      mset (map mbuf_id (m # ms))" by simp
  with 1 2 show ?case by (cases fwd) simp_all
qed

lemma bursts_safe:
  assumes "inv s"
  shows "\<exists>s' out dropped. run_bursts step s bs = Some (s', out, dropped) \<and> inv s' \<and>
    mset (map mbuf_id out) + mset (map mbuf_id dropped) = mset (map mbuf_id (concat bs))"
  using assms
proof (induction bs arbitrary: s)
  case Nil
  then show ?case by simp
next
  case (Cons b bs)
  from burst_safe [OF Cons.prems, of b] obtain s1 out dropped where
    1: "run_burst step s b = Some (s1, out, dropped)" "inv s1"
       "mset (map mbuf_id out) + mset (map mbuf_id dropped) = mset (map mbuf_id b)" by blast
  from Cons.IH [OF 1(2)] obtain s2 out' dropped' where
    2: "run_bursts step s1 bs = Some (s2, out', dropped')" "inv s2"
       "mset (map mbuf_id out') + mset (map mbuf_id dropped') = mset (map mbuf_id (concat bs))" by blast
  have "mset (map mbuf_id (out @ out')) + mset (map mbuf_id (dropped @ dropped')) =
      (mset (map mbuf_id out) + mset (map mbuf_id dropped)) +
      (mset (map mbuf_id out') + mset (map mbuf_id dropped'))"
    by simp
  also have "\<dots> = mset (map mbuf_id (concat (b # bs)))"
    unfolding 1(3) 2(3) by simp
  finally show ?case
    using 1(1) 2(1,2) by (intro exI [of _ s2] exI [of _ "out @ out'"] exI [of _ "dropped @ dropped'"]) simp
qed

end

end
