(* ===== verification/Eal.thy ===== *)
theory Eal
  imports Dpdk
begin

text \<open>
  Start-up code. A program's initialisation is a sequence of DPDK calls whose return codes
  decide how it goes on, so it is modelled as a function of the environment \<open>E\<close> (the
  return code of a call, which may depend on all calls made before) that returns how the
  code ended and the list of the calls made.

  \<open>Done x\<close> is a normal return, \<open>Exit msg\<close> is \<open>rte_exit\<close> or \<open>rte_panic\<close> with
  that message; pointers are their integer value, \<open>0\<close> for \<open>NULL\<close>. \<open>Lib_call\<close> is any
  other library or system call, by its name and arguments.

  \<open>port_ready\<close> is the order the Ethernet device API asks for: a port is configured, has
  its receive queue set up and is started, and each of these calls succeeded, in that order.
\<close>

datatype call =
    Rte_eal_init
  | Rte_timer_subsystem_init
  | Rte_pktmbuf_pool_create string nat nat
  | Rte_eth_dev_count_avail
  | Rte_eth_dev_is_valid_port nat
  | Rte_eth_dev_info_get nat
  | Rte_eth_dev_configure nat nat nat
  | Rte_eth_rx_queue_setup nat nat nat int
  | Rte_eth_tx_queue_setup nat nat nat
  | Rte_eth_dev_start nat
  | Rte_eth_promiscuous_enable nat
  | Rte_eth_dev_stop nat
  | Rte_eth_dev_close nat
  | Rte_hash_create string nat nat
  | Rte_ring_create string nat
  | Rte_acl_create string nat
  | Rte_acl_add_rules nat
  | Rte_acl_build nat
  | Rte_lpm_create string nat nat
  | Rte_lpm_add nat nat nat
  | Rte_mtr_meter_profile_add nat nat
  | Rte_mtr_meter_policy_add nat nat
  | Rte_mtr_create nat nat nat nat
  | Rte_flow_create nat nat
  | Rte_mbuf_dynfield_register string nat
  | Rte_reorder_create string nat
  | Rte_graph_create string
  | Rte_graph_lookup string
  | Rte_pktmbuf_alloc int
  | Rte_event_dev_configure nat nat
  | Rte_event_queue_setup nat
  | Rte_event_port_default_conf_get nat
  | Rte_event_port_setup nat
  | Rte_event_port_link nat "nat list"
  | Rte_event_dev_start
  | Rte_event_eth_rx_adapter_create_ext nat
  | Rte_event_eth_rx_adapter_queue_add nat nat
  | Rte_event_eth_rx_adapter_start nat
  | Rte_event_eth_tx_adapter_create nat
  | Rte_event_eth_tx_adapter_queue_add nat nat
  | Rte_event_eth_tx_adapter_start nat
  | Lib_call string "int list"

datatype 'a res = Done 'a | Exit string

type_synonym env = "call list \<Rightarrow> call \<Rightarrow> int"
type_synonym 'a prog = "env \<Rightarrow> call list \<Rightarrow> 'a res \<times> call list"

definition done_p :: "'a \<Rightarrow> 'a prog" where
  "done_p x E tr = (Done x, tr)"

definition rte_exit :: "string \<Rightarrow> 'a prog" where
  "rte_exit msg E tr = (Exit msg, tr)"

definition call_p :: "call \<Rightarrow> (int \<Rightarrow> 'a prog) \<Rightarrow> 'a prog" where
  "call_p c k E tr = k (E tr c) E (tr @ [c])"

definition bind_p :: "'a prog \<Rightarrow> ('a \<Rightarrow> 'b prog) \<Rightarrow> 'b prog" where
  "bind_p p k E tr = (case p E tr of (Done x, tr') \<Rightarrow> k x E tr' | (Exit msg, tr') \<Rightarrow> (Exit msg, tr'))"

text \<open>\<open>if (call < 0) rte_exit(msg);\<close> and the check of a returned pointer.\<close>

definition must :: "call \<Rightarrow> string \<Rightarrow> 'a prog \<Rightarrow> 'a prog" where
  "must c msg k = call_p c (\<lambda>r. if r < 0 then rte_exit msg else k)"

definition nonnull :: "call \<Rightarrow> string \<Rightarrow> (int \<Rightarrow> 'a prog) \<Rightarrow> 'a prog" where
  "nonnull c msg k = call_p c (\<lambda>p. if p = 0 then rte_exit msg else k p)"

lemmas prog_defs = done_p_def rte_exit_def call_p_def must_def nonnull_def bind_p_def

lemma must_eq:
  "must c msg k E tr = (if E tr c < 0 then (Exit msg, tr @ [c]) else k E (tr @ [c]))"
  by (simp add: prog_defs)

lemma nonnull_eq:
  "nonnull c msg k E tr = (if E tr c = 0 then (Exit msg, tr @ [c]) else k (E tr c) E (tr @ [c]))"
  by (simp add: prog_defs)

lemma bind_Done:
  "bind_p p k E tr = (Done y, tr') \<longleftrightarrow>
   (\<exists>x tr1. p E tr = (Done x, tr1) \<and> k x E tr1 = (Done y, tr'))"
  by (auto simp: bind_p_def split: prod.splits res.splits)

text \<open>Call number \<open>i\<close> of a trace succeeded.\<close>

definition ok_at :: "env \<Rightarrow> call list \<Rightarrow> nat \<Rightarrow> call \<Rightarrow> bool" where
  "ok_at E tr i c \<longleftrightarrow> i < length tr \<and> tr ! i = c \<and> 0 \<le> E (take i tr) c"

definition port_ready :: "env \<Rightarrow> call list \<Rightarrow> nat \<Rightarrow> bool" where
  "port_ready E tr p \<longleftrightarrow> (\<exists>i j k nrx ntx n mp. i < j \<and> j < k \<and>
     ok_at E tr i (Rte_eth_dev_configure p nrx ntx) \<and>
     ok_at E tr j (Rte_eth_rx_queue_setup p 0 n mp) \<and>
     ok_at E tr k (Rte_eth_dev_start p))"

text \<open>The transmit queue a program sends on was set up as well, before the start.\<close>

definition tx_ready :: "env \<Rightarrow> call list \<Rightarrow> nat \<Rightarrow> bool" where
  "tx_ready E tr p \<longleftrightarrow> (\<exists>j k n. j < k \<and>
     ok_at E tr j (Rte_eth_tx_queue_setup p 0 n) \<and> ok_at E tr k (Rte_eth_dev_start p))"

lemma port_readyI:
  "i < j \<Longrightarrow> j < k \<Longrightarrow> ok_at E tr i (Rte_eth_dev_configure p nrx ntx) \<Longrightarrow>
   ok_at E tr j (Rte_eth_rx_queue_setup p 0 n mp) \<Longrightarrow> ok_at E tr k (Rte_eth_dev_start p) \<Longrightarrow>
   port_ready E tr p"
  unfolding port_ready_def by blast

lemma tx_readyI:
  "j < k \<Longrightarrow> ok_at E tr j (Rte_eth_tx_queue_setup p 0 n) \<Longrightarrow> ok_at E tr k (Rte_eth_dev_start p) \<Longrightarrow>
   tx_ready E tr p"
  unfolding tx_ready_def by blast

lemma ok_at_append: "ok_at E tr i c \<Longrightarrow> ok_at E (tr @ tr') i c"
  by (auto simp: ok_at_def nth_append)

lemma port_ready_append: "port_ready E tr p \<Longrightarrow> port_ready E (tr @ tr') p"
  unfolding port_ready_def by (meson ok_at_append)

lemma tx_ready_append: "tx_ready E tr p \<Longrightarrow> tx_ready E (tr @ tr') p"
  unfolding tx_ready_def by (meson ok_at_append)

lemma ok_at_last: "0 \<le> E tr c \<Longrightarrow> ok_at E (tr @ [c]) (length tr) c"
  by (simp add: ok_at_def)

text \<open>The sequence of every port set-up in the repository: four checked calls.\<close>

definition setup_calls :: "nat \<Rightarrow> nat \<Rightarrow> nat \<Rightarrow> int \<Rightarrow> call list" where
  "setup_calls p nrx ntx mp = [Rte_eth_dev_configure p 1 1, Rte_eth_rx_queue_setup p 0 nrx mp,
     Rte_eth_tx_queue_setup p 0 ntx, Rte_eth_dev_start p]"

definition all_ok :: "env \<Rightarrow> call list \<Rightarrow> call list \<Rightarrow> bool" where
  "all_ok E tr cs \<longleftrightarrow> (\<forall>i < length cs. 0 \<le> E (tr @ take i cs) (cs ! i))"

lemma all_ok_Nil [simp]: "all_ok E tr []"
  by (simp add: all_ok_def)

lemma all_ok_Cons: "all_ok E tr (c # cs) \<longleftrightarrow> 0 \<le> E tr c \<and> all_ok E (tr @ [c]) cs"
  by (auto simp: all_ok_def nth_Cons' take_Cons' less_Suc_eq_0_disj all_conj_distrib)

lemma all_ok_at:
  assumes "all_ok E tr cs" "i < length cs"
  shows "ok_at E (tr @ cs) (length tr + i) (cs ! i)"
  using assms by (simp add: all_ok_def ok_at_def nth_append)

lemma setup_ready:
  assumes "all_ok E tr (setup_calls p nrx ntx mp)"
  shows "port_ready E (tr @ setup_calls p nrx ntx mp) p" "tx_ready E (tr @ setup_calls p nrx ntx mp) p"
proof -
  let ?cs = "setup_calls p nrx ntx mp" and ?n = "length tr"
  have at: "ok_at E (tr @ ?cs) (?n + i) (?cs ! i)" if "i < 4" for i
    using all_ok_at [OF assms, of i] that by (simp add: setup_calls_def)
  have 0: "ok_at E (tr @ ?cs) (?n + 0) (Rte_eth_dev_configure p 1 1)"
    using at [of 0] by (simp add: setup_calls_def)
  have 1: "ok_at E (tr @ ?cs) (?n + 1) (Rte_eth_rx_queue_setup p 0 nrx mp)"
    using at [of 1] by (simp add: setup_calls_def)
  have 2: "ok_at E (tr @ ?cs) (?n + 2) (Rte_eth_tx_queue_setup p 0 ntx)"
    using at [of 2] by (simp add: setup_calls_def)
  have 3: "ok_at E (tr @ ?cs) (?n + 3) (Rte_eth_dev_start p)"
    using at [of 3] by (simp add: setup_calls_def numeral_3_eq_3)
  show "port_ready E (tr @ ?cs) p" by (rule port_readyI [OF _ _ 0 1 3]) simp_all
  show "tx_ready E (tr @ ?cs) p" by (rule tx_readyI [OF _ 2 3]) simp
qed

end
