(* ===== verification/Nat_Flow.thy ===== *)
theory Nat_Flow
  imports Rte_Hash Rte_Timer Burst Eal
begin

text \<open>
  The flow-based NAPT of \<open>nat_project/version6\<close>: \<open>static_nat.c\<close>, the constants and
  structures of \<open>source.h\<close>, and the packet loop of \<open>main.c\<close>.

  The heap of \<open>struct nat_entry\<close> objects is explicit: the two hash tables and the timers
  hold addresses, \<open>rte_malloc\<close> and \<open>rte_free\<close> add and remove objects, and using an
  address that is not allocated is undefined behaviour (\<open>None\<close>). The entry's embedded
  \<open>struct rte_timer\<close> is named by the entry's address. The clock is read through
  \<open>reads\<close>: the \<open>n\<close>-th reading is \<open>tsc E n\<close>. Addresses and ports in entries
  and keys are in network order, as the code stores them.

  \<open>nat_inv\<close> is the invariant: table entries point to live objects filed under their own
  key, live objects are exactly those with a pending single-shot timer, and every entry is
  well formed. \<open>nat_step\<close> is the system's step relation (packets and timer runs in any
  interleaving) and \<open>nat_reachable\<close> its reachable states.
\<close>

abbreviation (input) NAT_TIMEOUT_SEC :: u64 where "NAT_TIMEOUT_SEC \<equiv> 30"
abbreviation (input) MAX_PORT :: u16 where "MAX_PORT \<equiv> 65535"
abbreviation (input) MIN_PORT :: u16 where "MIN_PORT \<equiv> 1024"

record nat_key =
  nk_src_ip :: u32
  nk_dst_ip :: u32
  nk_src_port :: u16
  nk_dst_port :: u16
  nk_proto :: u8

record nat_entry =
  fwd_key :: nat_key
  rev_key :: nat_key
  private_ip :: u32
  private_port :: u16
  public_ip :: u32
  public_port :: u16
  remote_ip :: u32
  remote_port :: u16
  e_proto :: u8

record ('h, 't) nat_env =
  n_hash :: "('h, nat_key, nat) hash_api"
  n_timer :: "('t, nat) timer_api"
  n_cksum :: cksum_api
  n_malloc :: "(nat \<rightharpoonup> nat_entry) \<Rightarrow> nat option"
  n_hash_create :: "string \<Rightarrow> 'h option"
  n_hz :: u64
  tsc :: "nat \<Rightarrow> u64"

record ('h, 't) nat_state =
  fwd_hash :: 'h
  rev_hash :: 'h
  PUBLIC_IP :: u32
  current_port :: u16
  heap :: "nat \<rightharpoonup> nat_entry"
  timers :: 't
  reads :: nat

subsection \<open>Operations of static_nat.c\<close>

definition allocate_port :: "('h, 't) nat_state \<Rightarrow> u16 \<times> ('h, 't) nat_state" where
  "allocate_port s =
     (let p = current_port s + 1;
          p' = (if MAX_PORT \<le> p then MIN_PORT else p)
      in (bswap16 p', s\<lparr>current_port := p'\<rparr>))"

definition nat_entry_expire :: "('h, 't) nat_env \<Rightarrow> nat \<Rightarrow> ('h, 't) nat_state \<Rightarrow> ('h, 't) nat_state option" where
  "nat_entry_expire E e s =
     (case heap s e of None \<Rightarrow> None
      | Some ent \<Rightarrow>
          Some (s\<lparr>fwd_hash := snd (del_key (n_hash E) (fwd_hash s) (fwd_key ent)),
                  rev_hash := snd (del_key (n_hash E) (rev_hash s) (rev_key ent)),
                  heap := (heap s)(e := None)\<rparr>))"

text \<open>\<open>rte_timer_reset(&e->timer, NAT_TIMEOUT_SEC * hz, SINGLE, lcore, nat_entry_expire, e)\<close>.\<close>

definition arm_timer :: "('h, 't) nat_env \<Rightarrow> nat \<Rightarrow> ('h, 't) nat_state \<Rightarrow> ('h, 't) nat_state" where
  "arm_timer E e s =
     s\<lparr>timers := tm_reset (n_timer E) (timers s) (tsc E (reads s)) e (NAT_TIMEOUT_SEC * n_hz E) False,
       reads := Suc (reads s)\<rparr>"

definition mk_entry :: "u32 \<Rightarrow> u16 \<Rightarrow> u32 \<Rightarrow> u16 \<Rightarrow> u8 \<Rightarrow> u32 \<Rightarrow> u16 \<Rightarrow> nat_entry" where
  "mk_entry sip sport dip dport proto pub pport =
     \<lparr>fwd_key = \<lparr>nk_src_ip = sip, nk_dst_ip = dip, nk_src_port = sport, nk_dst_port = dport, nk_proto = proto\<rparr>,
      rev_key = \<lparr>nk_src_ip = dip, nk_dst_ip = pub, nk_src_port = dport, nk_dst_port = pport, nk_proto = proto\<rparr>,
      private_ip = sip, private_port = sport, public_ip = pub, public_port = pport,
      remote_ip = dip, remote_port = dport, e_proto = proto\<rparr>"

definition create_entry :: "('h, 't) nat_env \<Rightarrow> u32 \<Rightarrow> u16 \<Rightarrow> u32 \<Rightarrow> u16 \<Rightarrow> u8 \<Rightarrow> ('h, 't) nat_state
    \<Rightarrow> nat option \<times> ('h, 't) nat_state" where
  "create_entry E sip sport dip dport proto s =
     (case n_malloc E (heap s) of None \<Rightarrow> (None, s)
      | Some e \<Rightarrow>
          (let (pport, s1) = allocate_port s;
               ent = mk_entry sip sport dip dport proto (PUBLIC_IP s1) pport;
               s2 = arm_timer E e (s1\<lparr>heap := (heap s1)(e \<mapsto> ent)\<rparr>)
           in (Some e, s2\<lparr>fwd_hash := snd (add_key_data (n_hash E) (fwd_hash s2) (fwd_key ent) e),
                          rev_hash := snd (add_key_data (n_hash E) (rev_hash s2) (rev_key ent) e)\<rparr>)))"

definition refresh :: "('h, 't) nat_env \<Rightarrow> nat \<Rightarrow> ('h, 't) nat_state \<Rightarrow> ('h, 't) nat_state option" where
  "refresh E e s =
     (case heap s e of None \<Rightarrow> None
      | Some _ \<Rightarrow> Some (arm_timer E e (s\<lparr>timers := tm_stop (n_timer E) (timers s) e\<rparr>)))"

definition parse :: "mbuf \<Rightarrow> (u32 \<times> u32 \<times> u16 \<times> u16 \<times> u8) option" where
  "parse m =
     (if rd16 m O_ETHER_TYPE \<noteq> bswap16 RTE_ETHER_TYPE_IPV4 then None
      else
        (let ip = ETHER_HDR; l4 = ip + IPV4_HDR;
             sip = rd32 m (ip + O_SRC); dip = rd32 m (ip + O_DST); proto = rd8 m (ip + O_PROTO)
         in if proto = IPPROTO_TCP
            then Some (sip, dip, rd16 m (l4 + O_SPORT), rd16 m (l4 + O_DPORT), proto)
            else if proto = IPPROTO_UDP
            then Some (sip, dip, rd16 m (l4 + O_SPORT), rd16 m (l4 + O_DPORT), proto)
            else None))"

definition rewrite_out :: "cksum_api \<Rightarrow> mbuf \<Rightarrow> nat_entry \<Rightarrow> mbuf" where
  "rewrite_out C m e =
     (let ip = ETHER_HDR; l4 = ip + IPV4_HDR;
          m1 = wr32 m (ip + O_SRC) (public_ip e);
          m2 = wr16 m1 (l4 + O_SPORT) (public_port e);
          m3 = wr16 m2 (l4 + (if e_proto e = IPPROTO_TCP then O_TCP_CKSUM else O_UDP_CKSUM))
                 (rte_ipv4_udptcp_cksum C m2 ip l4)
      in wr16 m3 (ip + O_HDR_CKSUM) (rte_ipv4_cksum C m3 ip))"

definition rewrite_in :: "cksum_api \<Rightarrow> mbuf \<Rightarrow> nat_entry \<Rightarrow> mbuf" where
  "rewrite_in C m e =
     (let ip = ETHER_HDR; l4 = ip + IPV4_HDR;
          m1 = wr32 m (ip + O_DST) (private_ip e);
          m2 = wr16 m1 (l4 + O_DPORT) (private_port e);
          m3 = wr16 m2 (l4 + (if e_proto e = IPPROTO_TCP then O_TCP_CKSUM else O_UDP_CKSUM))
                 (rte_ipv4_udptcp_cksum C m2 ip l4)
      in wr16 m3 (ip + O_HDR_CKSUM) (rte_ipv4_cksum C m3 ip))"

text \<open>The result is the return code (0 forward, -1 drop), the state and the packet.\<close>

definition nat_process_packet :: "('h, 't) nat_env \<Rightarrow> ('h, 't) nat_state \<Rightarrow> mbuf
    \<Rightarrow> (int \<times> ('h, 't) nat_state \<times> mbuf) option" where
  "nat_process_packet E s m =
     (case parse m of None \<Rightarrow> Some (-1, s, m)
      | Some (sip, dip, sport, dport, proto) \<Rightarrow>
          (let key = \<lparr>nk_src_ip = sip, nk_dst_ip = dip, nk_src_port = sport, nk_dst_port = dport, nk_proto = proto\<rparr>
           in if dip = PUBLIC_IP s then
                (case lookup_data (n_hash E) (rev_hash s) key of None \<Rightarrow> Some (-1, s, m)
                 | Some e \<Rightarrow>
                     (case refresh E e s of None \<Rightarrow> None
                      | Some s1 \<Rightarrow>
                          (case heap s1 e of None \<Rightarrow> None
                           | Some ent \<Rightarrow> Some (0, s1, rewrite_in (n_cksum E) m ent))))
              else
                (case lookup_data (n_hash E) (fwd_hash s) key of
                   None \<Rightarrow>
                     (case create_entry E sip sport dip dport proto s of
                        (None, s1) \<Rightarrow> Some (-1, s1, m)
                      | (Some e, s1) \<Rightarrow>
                          (case heap s1 e of None \<Rightarrow> None
                           | Some ent \<Rightarrow> Some (0, s1, rewrite_out (n_cksum E) m ent)))
                 | Some e \<Rightarrow>
                     (case refresh E e s of None \<Rightarrow> None
                      | Some s1 \<Rightarrow>
                          (case heap s1 e of None \<Rightarrow> None
                           | Some ent \<Rightarrow> Some (0, s1, rewrite_out (n_cksum E) m ent))))))"

text \<open>Start: both tables are created; a failed creation returns -1.\<close>

definition nat_init :: "('h, 't) nat_env \<Rightarrow> u32 \<Rightarrow> ('h, 't) nat_state \<Rightarrow> int \<times> ('h, 't) nat_state" where
  "nat_init E pub s =
     (let s1 = s\<lparr>PUBLIC_IP := pub\<rparr>
      in case n_hash_create E ''nat_fwd_table'' of None \<Rightarrow> (-1, s1)
         | Some f \<Rightarrow>
             (case n_hash_create E ''nat_rev_table'' of None \<Rightarrow> (-1, s1\<lparr>fwd_hash := f\<rparr>)
              | Some r \<Rightarrow> (0, s1\<lparr>fwd_hash := f, rev_hash := r\<rparr>)))"

fun run_expiries :: "('h, 't) nat_env \<Rightarrow> nat list \<Rightarrow> ('h, 't) nat_state \<Rightarrow> ('h, 't) nat_state option" where
  "run_expiries E [] s = Some s"
| "run_expiries E (e # es) s =
     (case nat_entry_expire E e s of None \<Rightarrow> None | Some s1 \<Rightarrow> run_expiries E es s1)"

definition nat_timer_manage :: "('h, 't) nat_env \<Rightarrow> ('h, 't) nat_state \<Rightarrow> ('h, 't) nat_state option" where
  "nat_timer_manage E s =
     (case tm_manage (n_timer E) (timers s) (tsc E (reads s)) of
        (es, t) \<Rightarrow> run_expiries E es (s\<lparr>timers := t, reads := Suc (reads s)\<rparr>))"

subsection \<open>The loop of main.c\<close>

text \<open>
  The for loop over the burst: a forwarded packet is moved down to \<open>bufs[tx_count]\<close>, a
  dropped one is freed. Both array slots then hold the address of the same rewritten packet.
\<close>

function nat_for :: "('h, 't) nat_env \<Rightarrow> ('h, 't) nat_state \<Rightarrow> mbuf list \<Rightarrow> nat \<Rightarrow> nat \<Rightarrow> mbuf list
    \<Rightarrow> (('h, 't) nat_state \<times> mbuf list \<times> nat \<times> mbuf list) option" where
  "nat_for E s bufs i tx_count fr =
     (if i < length bufs then
        (case nat_process_packet E s (bufs ! i) of None \<Rightarrow> None
         | Some (r, s1, m) \<Rightarrow>
             if r = 0 then nat_for E s1 (bufs[i := m, tx_count := m]) (Suc i) (Suc tx_count) fr
             else nat_for E s1 (bufs[i := m]) (Suc i) tx_count (fr @ [m]))
      else Some (s, bufs, tx_count, fr))"
  by pat_completeness auto
termination
  by (relation "measure (\<lambda>(E, s, bufs, i, tx_count, fr). length bufs - i)") auto

declare nat_for.simps [simp del]

text \<open>One iteration: an empty burst only runs the timers.\<close>

definition nat_main_iter :: "('h, 't) nat_env \<Rightarrow> (mbuf list \<Rightarrow> nat) \<Rightarrow> ('h, 't) nat_state \<Rightarrow> mbuf list
    \<Rightarrow> (('h, 't) nat_state \<times> io) option" where
  "nat_main_iter E tx s rx =
     (if rx = [] then map_option (\<lambda>s1. (s1, \<lparr>sent = [], freed = []\<rparr>)) (nat_timer_manage E s)
      else
        (case nat_for E s rx 0 0 [] of None \<Rightarrow> None
         | Some (s1, bufs, tx_count, fr) \<Rightarrow>
             (let n = tx (take tx_count bufs);
                  unsent = (if n < tx_count then free_range bufs n tx_count else [])
              in map_option (\<lambda>s2. (s2, \<lparr>sent = take n bufs, freed = fr @ unsent\<rparr>))
                   (nat_timer_manage E s1))))"

fun nat_main_loop :: "('h, 't) nat_env \<Rightarrow> (mbuf list \<Rightarrow> nat) \<Rightarrow> ('h, 't) nat_state \<Rightarrow> mbuf list list
    \<Rightarrow> (('h, 't) nat_state \<times> io list) option" where
  "nat_main_loop E tx s [] = Some (s, [])"
| "nat_main_loop E tx s (rx # rxs) =
     (case nat_main_iter E tx s rx of None \<Rightarrow> None
      | Some (s1, x) \<Rightarrow> map_option (\<lambda>(s2, xs). (s2, x # xs)) (nat_main_loop E tx s1 rxs))"

subsection \<open>Start-up: main.c, mempool.c, port.c\<close>

definition create_mempool :: "int prog" where
  "create_mempool = nonnull (Rte_pktmbuf_pool_create ''MBUF_POOL'' 2048 256) ''Cannot create mempool'' done_p"

definition init_port :: "nat \<Rightarrow> int \<Rightarrow> unit prog" where
  "init_port port_id mp =
     must (Rte_eth_dev_configure port_id 1 1) ''Port configure failed''
     (must (Rte_eth_rx_queue_setup port_id 0 1024 mp) ''RX queue setup failed''
     (must (Rte_eth_tx_queue_setup port_id 0 1024) ''TX queue setup failed''
     (must (Rte_eth_dev_start port_id) ''Port start failed''
     (must (Rte_eth_dev_info_get 0) ''Failed to get device info'' (done_p ())))))"

text \<open>
  \<open>main\<close> up to the packet loop: the returned code is \<open>-1\<close> for its early returns and
  \<open>0\<close> when the loop is entered.
\<close>

definition main_start :: "int prog" where
  "main_start =
     call_p Rte_eal_init (\<lambda>r. if r < 0 then done_p (-1) else
     call_p Rte_timer_subsystem_init (\<lambda>_.
     bind_p create_mempool (\<lambda>mp. if mp = 0 then done_p (-1) else
     bind_p (init_port 0 mp) (\<lambda>_.
     call_p (Rte_hash_create ''nat_fwd_table'' 65536 13) (\<lambda>f. if f = 0 then done_p (-1) else
     call_p (Rte_hash_create ''nat_rev_table'' 65536 13) (\<lambda>r. if r = 0 then done_p (-1) else
     done_p 0))))))"

subsection \<open>The invariant\<close>

definition env_ok :: "('h, 't) nat_env \<Rightarrow> bool" where
  "env_ok E \<longleftrightarrow> hash_laws (n_hash E) \<and> timer_laws (n_timer E) \<and>
     (\<forall>h e. n_malloc E h = Some e \<longrightarrow> h e = None) \<and>
     (\<forall>name t. n_hash_create E name = Some t \<longrightarrow> lookup_data (n_hash E) t = Map.empty)"

definition port_in_range :: "u16 \<Rightarrow> bool" where
  "port_in_range p \<longleftrightarrow> MIN_PORT \<le> bswap16 p \<and> bswap16 p < MAX_PORT"

definition entry_ok :: "u32 \<Rightarrow> nat_entry \<Rightarrow> bool" where
  "entry_ok pub ent \<longleftrightarrow> port_in_range (public_port ent) \<and>
     (e_proto ent = IPPROTO_TCP \<or> e_proto ent = IPPROTO_UDP) \<and>
     ent = mk_entry (private_ip ent) (private_port ent) (remote_ip ent) (remote_port ent)
             (e_proto ent) pub (public_port ent)"

text \<open>
  \<open>D\<close> is the set of objects whose timer has fired and whose callback has not run yet; it is
  empty outside \<open>rte_timer_manage\<close>.
\<close>

definition nat_inv_on :: "('h, 't) nat_env \<Rightarrow> nat set \<Rightarrow> ('h, 't) nat_state \<Rightarrow> bool" where
  "nat_inv_on E D s \<longleftrightarrow> env_ok E \<and>
     all_entries (lookup_data (n_hash E) (fwd_hash s)) (\<lambda>k e. \<exists>ent. heap s e = Some ent \<and> fwd_key ent = k) \<and>
     all_entries (lookup_data (n_hash E) (rev_hash s)) (\<lambda>k e. \<exists>ent. heap s e = Some ent \<and> rev_key ent = k) \<and>
     (\<forall>e. heap s e \<noteq> None \<longleftrightarrow> tm_look (n_timer E) (timers s) e \<noteq> None \<or> e \<in> D) \<and>
     (\<forall>e x. tm_look (n_timer E) (timers s) e \<noteq> Some (x, True)) \<and>
     (\<forall>e\<in>D. tm_look (n_timer E) (timers s) e = None) \<and>
     (\<forall>e ent. heap s e = Some ent \<longrightarrow> entry_ok (PUBLIC_IP s) ent) \<and>
     MIN_PORT \<le> current_port s \<and> current_port s < MAX_PORT"

definition nat_inv :: "('h, 't) nat_env \<Rightarrow> ('h, 't) nat_state \<Rightarrow> bool" where
  "nat_inv E s \<longleftrightarrow> nat_inv_on E {} s"

lemma nat_inv_onD:
  assumes "nat_inv_on E D s"
  shows inv_hash: "hash_laws (n_hash E)"
    and inv_timer: "timer_laws (n_timer E)"
    and inv_malloc: "n_malloc E h = Some e \<Longrightarrow> h e = None"
    and inv_fwd: "lookup_data (n_hash E) (fwd_hash s) k = Some e \<Longrightarrow>
          \<exists>ent. heap s e = Some ent \<and> fwd_key ent = k"
    and inv_rev: "lookup_data (n_hash E) (rev_hash s) k = Some e \<Longrightarrow>
          \<exists>ent. heap s e = Some ent \<and> rev_key ent = k"
    and inv_live: "heap s e \<noteq> None \<longleftrightarrow> tm_look (n_timer E) (timers s) e \<noteq> None \<or> e \<in> D"
    and inv_single: "tm_look (n_timer E) (timers s) e \<noteq> Some (x, True)"
    and inv_doomed: "e \<in> D \<Longrightarrow> tm_look (n_timer E) (timers s) e = None"
    and inv_entry: "heap s e = Some ent \<Longrightarrow> entry_ok (PUBLIC_IP s) ent"
    and inv_port: "MIN_PORT \<le> current_port s" "current_port s < MAX_PORT"
  using assms unfolding nat_inv_on_def env_ok_def all_entries_def
  by (fastforce)+

lemma inv_env: "nat_inv_on E D s \<Longrightarrow> env_ok E"
  by (simp add: nat_inv_on_def)

lemma nat_inv_onI:
  assumes "env_ok E"
    and "\<And>k e. lookup_data (n_hash E) (fwd_hash s) k = Some e \<Longrightarrow> \<exists>ent. heap s e = Some ent \<and> fwd_key ent = k"
    and "\<And>k e. lookup_data (n_hash E) (rev_hash s) k = Some e \<Longrightarrow> \<exists>ent. heap s e = Some ent \<and> rev_key ent = k"
    and "\<And>e. heap s e \<noteq> None \<longleftrightarrow> tm_look (n_timer E) (timers s) e \<noteq> None \<or> e \<in> D"
    and "\<And>e x. tm_look (n_timer E) (timers s) e \<noteq> Some (x, True)"
    and "\<And>e. e \<in> D \<Longrightarrow> tm_look (n_timer E) (timers s) e = None"
    and "\<And>e ent. heap s e = Some ent \<Longrightarrow> entry_ok (PUBLIC_IP s) ent"
    and "MIN_PORT \<le> current_port s" "current_port s < MAX_PORT"
  shows "nat_inv_on E D s"
  using assms by (simp add: nat_inv_on_def all_entries_def)

lemma expire_inv:
  assumes "nat_inv_on E D s" "e \<in> D"
  shows "\<exists>s'. nat_entry_expire E e s = Some s' \<and> nat_inv_on E (D - {e}) s'"
proof -
  from assms obtain ent where ent: "heap s e = Some ent"
    unfolding nat_inv_on_def by blast
  have laws: "hash_laws (n_hash E)" using assms(1) by (simp add: nat_inv_on_def env_ok_def)
  have f: "all_entries (lookup_data (n_hash E) (snd (del_key (n_hash E) (fwd_hash s) (fwd_key ent))))
      (\<lambda>k e'. \<exists>ent. ((heap s)(e := None)) e' = Some ent \<and> fwd_key ent = k)"
    using assms(1) ent by (intro all_entries_mono [OF entries_del [OF laws]])
      (auto simp: nat_inv_on_def)
  have r: "all_entries (lookup_data (n_hash E) (snd (del_key (n_hash E) (rev_hash s) (rev_key ent))))
      (\<lambda>k e'. \<exists>ent. ((heap s)(e := None)) e' = Some ent \<and> rev_key ent = k)"
    using assms(1) ent by (intro all_entries_mono [OF entries_del [OF laws]])
      (auto simp: nat_inv_on_def)
  show ?thesis
    using assms f r ent by (auto simp: nat_entry_expire_def nat_inv_on_def)
qed

lemma run_expiries_inv:
  assumes "nat_inv_on E D s" "set es = D" "distinct es"
  shows "\<exists>s'. run_expiries E es s = Some s' \<and> nat_inv E s'"
  using assms
proof (induction es arbitrary: s D)
  case Nil
  then show ?case by (simp add: nat_inv_def)
next
  case (Cons e es)
  then have "e \<in> D" by auto
  from expire_inv [OF Cons.prems(1) this] obtain s1 where
    1: "nat_entry_expire E e s = Some s1" "nat_inv_on E (D - {e}) s1" by blast
  from Cons.prems have "set es = D - {e}" "distinct es" by auto
  from Cons.IH [OF 1(2) this] 1(1) show ?case by simp
qed

lemma nat_timer_manage_inv:
  assumes "nat_inv E s"
  shows "\<exists>s'. nat_timer_manage E s = Some s' \<and> nat_inv E s'"
proof -
  let ?T = "n_timer E"
  obtain es t where m: "tm_manage ?T (timers s) (tsc E (reads s)) = (es, t)"
    by (cases "tm_manage ?T (timers s) (tsc E (reads s))")
  have inv: "nat_inv_on E {} s" using assms by (simp add: nat_inv_def)
  note laws = inv_timer [OF inv]
  have single: "\<exists>x. tm_look ?T (timers s) e = Some (x, False)" if "e \<in> set es" for e
  proof -
    from that manage_set [OF laws m] have "expired ?T (timers s) (tsc E (reads s)) e" by auto
    from expired_look [OF this] obtain x p where "tm_look ?T (timers s) e = Some (x, p)" by blast
    with inv_single [OF inv, of e x] show ?thesis by (cases p) simp_all
  qed
  have gone: "tm_look ?T t e = None" if "e \<in> set es" for e
    using single [OF that] manage_single [OF laws m that] by blast
  have keep: "tm_look ?T t e = tm_look ?T (timers s) e" if "e \<notin> set es" for e
    using manage_keep [OF laws m that] .
  let ?s = "s\<lparr>timers := t, reads := Suc (reads s)\<rparr>"
  have live: "heap s e \<noteq> None \<longleftrightarrow> tm_look ?T t e \<noteq> None \<or> e \<in> set es" for e
    using inv_live [OF inv, of e] single [of e] gone [of e] keep [of e]
    by (cases "e \<in> set es") auto
  have sgl: "tm_look ?T t e \<noteq> Some (x, True)" for e x
    using inv_single [OF inv, of e x] gone [of e] keep [of e]
    by (cases "e \<in> set es") auto
  have "nat_inv_on E (set es) ?s"
    using inv live sgl gone by (simp add: nat_inv_on_def)
  from run_expiries_inv [OF this refl] manage_set [OF laws m] m show ?thesis
    by (simp add: nat_timer_manage_def)
qed

lemma allocate_port_range:
  assumes "MIN_PORT \<le> current_port s" "current_port s < MAX_PORT" "allocate_port s = (p, s')"
  shows "port_in_range p" "MIN_PORT \<le> current_port s'" "current_port s' < MAX_PORT"
proof -
  have c: "1024 \<le> unat (current_port s)" "unat (current_port s) < 65535"
    using assms(1,2) by (simp_all add: word_le_nat_alt word_less_nat_alt)
  then have "unat (current_port s + 1) = unat (current_port s) + 1"
    by (simp add: unat_word_ariths)
  then have r: "MIN_PORT \<le> current_port s'" "current_port s' < MAX_PORT" "p = bswap16 (current_port s')"
    using assms(3) c by (auto simp: allocate_port_def Let_def word_le_nat_alt word_less_nat_alt)
  then show "port_in_range p" "MIN_PORT \<le> current_port s'" "current_port s' < MAX_PORT"
    by (simp_all add: port_in_range_def)
qed

lemma allocate_port_frame:
  "allocate_port s = (p, s') \<Longrightarrow> s' = s\<lparr>current_port := current_port s'\<rparr>"
  by (auto simp: allocate_port_def Let_def)

lemma arm_timer_inv:
  assumes "nat_inv_on E {e} s"
  shows "nat_inv E (arm_timer E e s)"
proof -
  let ?x = "(tsc E (reads s) + 30 * n_hz E, False)"
  have look: "tm_look (n_timer E) (timers (arm_timer E e s)) = (tm_look (n_timer E) (timers s))(e \<mapsto> ?x)"
    by (simp add: arm_timer_def look_reset [OF inv_timer [OF assms]])
  have fr: "fwd_hash (arm_timer E e s) = fwd_hash s" "rev_hash (arm_timer E e s) = rev_hash s"
    "heap (arm_timer E e s) = heap s" "PUBLIC_IP (arm_timer E e s) = PUBLIC_IP s"
    "current_port (arm_timer E e s) = current_port s" by (simp_all add: arm_timer_def)
  show ?thesis
    unfolding nat_inv_def
  proof (rule nat_inv_onI, unfold fr look)
    show "heap s e' \<noteq> None \<longleftrightarrow> ((tm_look (n_timer E) (timers s))(e \<mapsto> ?x)) e' \<noteq> None \<or> e' \<in> {}" for e'
      using inv_live [OF assms, of e'] by auto
    show "((tm_look (n_timer E) (timers s))(e \<mapsto> ?x)) e' \<noteq> Some (y, True)" for e' y
      using inv_single [OF assms, of e' y] by simp
  qed (use assms in \<open>simp_all add: inv_env inv_fwd inv_rev inv_entry inv_port\<close>)
qed

lemma stop_timer_inv:
  assumes "nat_inv E s" "heap s e = Some ent"
  shows "nat_inv_on E {e} (s\<lparr>timers := tm_stop (n_timer E) (timers s) e\<rparr>)"
proof -
  have inv: "nat_inv_on E {} s" using assms(1) by (simp add: nat_inv_def)
  let ?s = "s\<lparr>timers := tm_stop (n_timer E) (timers s) e\<rparr>"
  have look: "tm_look (n_timer E) (timers ?s) = (tm_look (n_timer E) (timers s))(e := None)"
    by (simp add: look_stop [OF inv_timer [OF inv]])
  show ?thesis
  proof (rule nat_inv_onI)
    show "heap ?s e' \<noteq> None \<longleftrightarrow> tm_look (n_timer E) (timers ?s) e' \<noteq> None \<or> e' \<in> {e}" for e'
      using inv_live [OF inv, of e'] assms(2) unfolding look by auto
    show "tm_look (n_timer E) (timers ?s) e' \<noteq> Some (y, True)" for e' y
      using inv_single [OF inv, of e' y] unfolding look by simp
    show "tm_look (n_timer E) (timers ?s) e' = None" if "e' \<in> {e}" for e'
      using that unfolding look by simp
  qed (use inv in \<open>simp_all add: inv_env inv_fwd inv_rev inv_entry inv_port\<close>)
qed

lemma refresh_inv:
  assumes "nat_inv E s" "heap s e = Some ent"
  shows "\<exists>s'. refresh E e s = Some s' \<and> nat_inv E s' \<and> heap s' = heap s"
  using arm_timer_inv [OF stop_timer_inv [OF assms]] assms(2)
  by (simp add: refresh_def arm_timer_def)

lemma mk_entry_ok:
  "port_in_range p \<Longrightarrow> proto = IPPROTO_TCP \<or> proto = IPPROTO_UDP \<Longrightarrow>
   entry_ok pub (mk_entry sip sport dip dport proto pub p)"
  by (simp add: entry_ok_def mk_entry_def)

text \<open>What \<open>create_entry\<close> does when memory is available.\<close>

lemma create_entry_Some:
  assumes "create_entry E sip sport dip dport proto s = (Some e, s')"
  obtains p s1 where "n_malloc E (heap s) = Some e" "allocate_port s = (p, s1)"
    "s' = (arm_timer E e (s1\<lparr>heap := (heap s)(e \<mapsto> mk_entry sip sport dip dport proto (PUBLIC_IP s) p)\<rparr>))
      \<lparr>fwd_hash := snd (add_key_data (n_hash E) (fwd_hash s) \<lparr>nk_src_ip = sip, nk_dst_ip = dip,
           nk_src_port = sport, nk_dst_port = dport, nk_proto = proto\<rparr> e),
       rev_hash := snd (add_key_data (n_hash E) (rev_hash s) \<lparr>nk_src_ip = dip, nk_dst_ip = PUBLIC_IP s,
           nk_src_port = dport, nk_dst_port = p, nk_proto = proto\<rparr> e)\<rparr>"
proof -
  from assms have m: "n_malloc E (heap s) = Some e"
    by (auto simp: create_entry_def Let_def split: option.splits prod.splits)
  obtain p s1 where a: "allocate_port s = (p, s1)" by (cases "allocate_port s")
  note f = allocate_port_frame [OF a]
  have "heap s1 = heap s" "PUBLIC_IP s1 = PUBLIC_IP s" "fwd_hash s1 = fwd_hash s" "rev_hash s1 = rev_hash s"
    by (subst f, simp)+
  with assms m a show ?thesis
    by (intro that [of p s1]) (auto simp: create_entry_def Let_def mk_entry_def arm_timer_def)
qed

lemma inv_alloc:
  assumes "nat_inv E s" "allocate_port s = (p, s1)"
  shows "nat_inv E s1"
proof -
  have inv: "nat_inv_on E {} s" using assms(1) by (simp add: nat_inv_def)
  note rng = allocate_port_range [OF inv_port [OF inv] assms(2)]
  have "nat_inv_on E {} (s\<lparr>current_port := current_port s1\<rparr>)"
    using inv rng(2,3) by (simp add: nat_inv_on_def)
  then show ?thesis unfolding nat_inv_def by (subst allocate_port_frame [OF assms(2)])
qed

lemma inv_new_object:
  assumes "nat_inv E s" "heap s e = None" "entry_ok (PUBLIC_IP s) ent"
  shows "nat_inv_on E {e} (s\<lparr>heap := (heap s)(e \<mapsto> ent)\<rparr>)"
proof -
  have inv: "nat_inv_on E {} s" using assms(1) by (simp add: nat_inv_def)
  show ?thesis
  proof (rule nat_inv_onI)
    show "\<exists>ent'. heap (s\<lparr>heap := (heap s)(e \<mapsto> ent)\<rparr>) e' = Some ent' \<and> fwd_key ent' = k"
      if "lookup_data (n_hash E) (fwd_hash (s\<lparr>heap := (heap s)(e \<mapsto> ent)\<rparr>)) k = Some e'" for k e'
      using inv_fwd [OF inv, of k e'] that assms(2) by auto
    show "\<exists>ent'. heap (s\<lparr>heap := (heap s)(e \<mapsto> ent)\<rparr>) e' = Some ent' \<and> rev_key ent' = k"
      if "lookup_data (n_hash E) (rev_hash (s\<lparr>heap := (heap s)(e \<mapsto> ent)\<rparr>)) k = Some e'" for k e'
      using inv_rev [OF inv, of k e'] that assms(2) by auto
    show "heap (s\<lparr>heap := (heap s)(e \<mapsto> ent)\<rparr>) e' \<noteq> None \<longleftrightarrow>
        tm_look (n_timer E) (timers (s\<lparr>heap := (heap s)(e \<mapsto> ent)\<rparr>)) e' \<noteq> None \<or> e' \<in> {e}" for e'
      using inv_live [OF inv, of e'] by simp
    show "tm_look (n_timer E) (timers (s\<lparr>heap := (heap s)(e \<mapsto> ent)\<rparr>)) e' = None" if "e' \<in> {e}" for e'
      using inv_live [OF inv, of e'] that assms(2) by force
    show "entry_ok (PUBLIC_IP (s\<lparr>heap := (heap s)(e \<mapsto> ent)\<rparr>)) ent'"
      if "heap (s\<lparr>heap := (heap s)(e \<mapsto> ent)\<rparr>) e' = Some ent'" for e' ent'
      using inv_entry [OF inv, of e' ent'] that assms(3) by (auto split: if_splits)
  qed (use inv in \<open>simp_all add: inv_env inv_port inv_single\<close>)
qed

lemma inv_insert_fwd:
  assumes "nat_inv E s" "heap s e = Some ent" "fwd_key ent = k"
  shows "nat_inv E (s\<lparr>fwd_hash := snd (add_key_data (n_hash E) (fwd_hash s) k e)\<rparr>)"
proof -
  have inv: "nat_inv_on E {} s" using assms(1) by (simp add: nat_inv_def)
  show ?thesis
    using inv assms(2,3) unfolding nat_inv_def nat_inv_on_def
    by (simp add: entries_add [OF inv_hash [OF inv]])
qed

lemma inv_insert_rev:
  assumes "nat_inv E s" "heap s e = Some ent" "rev_key ent = k"
  shows "nat_inv E (s\<lparr>rev_hash := snd (add_key_data (n_hash E) (rev_hash s) k e)\<rparr>)"
proof -
  have inv: "nat_inv_on E {} s" using assms(1) by (simp add: nat_inv_def)
  show ?thesis
    using inv assms(2,3) unfolding nat_inv_def nat_inv_on_def
    by (simp add: entries_add [OF inv_hash [OF inv]])
qed

lemma create_entry_inv:
  assumes "nat_inv E s" "proto = IPPROTO_TCP \<or> proto = IPPROTO_UDP"
    "create_entry E sip sport dip dport proto s = (Some e, s')"
  shows "nat_inv E s' \<and> heap s' e \<noteq> None"
proof -
  from assms(3) have m: "n_malloc E (heap s) = Some e"
    by (auto simp: create_entry_def Let_def split: option.splits prod.splits)
  obtain p s1 where a: "allocate_port s = (p, s1)" by (cases "allocate_port s")
  have inv: "nat_inv_on E {} s" using assms(1) by (simp add: nat_inv_def)
  note i1 = inv_alloc [OF assms(1) a] and rng = allocate_port_range [OF inv_port [OF inv] a]
  let ?ent = "mk_entry sip sport dip dport proto (PUBLIC_IP s1) p"
  let ?s2 = "arm_timer E e (s1\<lparr>heap := (heap s1)(e \<mapsto> ?ent)\<rparr>)"
  have "heap s1 = heap s" by (subst allocate_port_frame [OF a]) simp
  then have "heap s1 e = None" using inv_malloc [OF inv m] by simp
  note i2 = arm_timer_inv [OF inv_new_object [OF i1 this mk_entry_ok [OF rng(1) assms(2)]]]
  have h2: "heap ?s2 e = Some ?ent" by (simp add: arm_timer_def)
  note i3 = inv_insert_fwd [OF i2 h2 refl]
  have h3: "heap (?s2\<lparr>fwd_hash := snd (add_key_data (n_hash E) (fwd_hash ?s2) (fwd_key ?ent) e)\<rparr>) e = Some ?ent"
    using h2 by simp
  note i4 = inv_insert_rev [OF i3 h3 refl]
  have "s' = ?s2\<lparr>fwd_hash := snd (add_key_data (n_hash E) (fwd_hash ?s2) (fwd_key ?ent) e),
                 rev_hash := snd (add_key_data (n_hash E) (rev_hash ?s2) (rev_key ?ent) e)\<rparr>"
    using assms(3) m a by (simp add: create_entry_def Let_def)
  with i4 h2 show ?thesis by simp
qed

lemma parse_proto: "parse m = Some (sip, dip, sport, dport, proto) \<Longrightarrow> proto = IPPROTO_TCP \<or> proto = IPPROTO_UDP"
  by (auto simp: parse_def Let_def split: if_splits)

lemma rewrite_id [simp]:
  "mbuf_id (rewrite_out C m e) = mbuf_id m" "mbuf_id (rewrite_in C m e) = mbuf_id m"
  by (simp_all add: rewrite_out_def rewrite_in_def Let_def)

lemma nat_process_inv:
  assumes "nat_inv E s"
  shows "\<exists>r s' m'. nat_process_packet E s m = Some (r, s', m') \<and> nat_inv E s' \<and> mbuf_id m' = mbuf_id m"
proof (cases "parse m")
  case None
  with assms show ?thesis by (simp add: nat_process_packet_def)
next
  case (Some x)
  obtain sip dip sport dport proto where p: "parse m = Some (sip, dip, sport, dport, proto)"
    using Some by (cases x) auto
  let ?k = "\<lparr>nk_src_ip = sip, nk_dst_ip = dip, nk_src_port = sport, nk_dst_port = dport, nk_proto = proto\<rparr>"
  have inv: "nat_inv_on E {} s" using assms by (simp add: nat_inv_def)
  have refreshed: "\<exists>s' ent. refresh E e s = Some s' \<and> nat_inv E s' \<and> heap s' e = Some ent"
    if "heap s e \<noteq> None" for e
    using that refresh_inv [OF assms] by fastforce
  show ?thesis
  proof (cases "dip = PUBLIC_IP s")
    case True
    show ?thesis
    proof (cases "lookup_data (n_hash E) (rev_hash s) ?k")
      case None
      with p True assms show ?thesis by (simp add: nat_process_packet_def)
    next
      case (Some e)
      from inv_rev [OF inv this] have "heap s e \<noteq> None" by auto
      from refreshed [OF this] p True Some show ?thesis by (auto simp: nat_process_packet_def)
    qed
  next
    case False
    show ?thesis
    proof (cases "lookup_data (n_hash E) (fwd_hash s) ?k")
      case None
      obtain r s1 where c: "create_entry E sip sport dip dport proto s = (r, s1)" by fastforce
      show ?thesis
      proof (cases r)
        case None
        with c have "s1 = s" by (auto simp: create_entry_def Let_def split: option.splits prod.splits)
        with None c p False assms \<open>lookup_data (n_hash E) (fwd_hash s) ?k = None\<close> show ?thesis
          by (simp add: nat_process_packet_def)
      next
        case (Some e)
        from create_entry_inv [OF assms parse_proto [OF p] c [unfolded Some]]
        show ?thesis using Some c p False \<open>lookup_data (n_hash E) (fwd_hash s) ?k = None\<close>
          by (auto simp: nat_process_packet_def)
      qed
    next
      case (Some e)
      from inv_fwd [OF inv this] have "heap s e \<noteq> None" by auto
      from refreshed [OF this] p False Some show ?thesis by (auto simp: nat_process_packet_def)
    qed
  qed
qed

text \<open>\<open>nat_process_packet\<close> as a packet handler: return code 0 forwards.\<close>

definition nat_handler :: "('h, 't) nat_env \<Rightarrow> ('h, 't) nat_state handler" where
  "nat_handler E s m = map_option (\<lambda>(r, s', m'). (s', m', r = 0)) (nat_process_packet E s m)"

interpretation nat_burst: burst_handler "nat_handler E" "nat_inv E" for E
proof
  fix s m assume "nat_inv E s"
  from nat_process_inv [OF this, of m]
  show "\<exists>s' m' fwd. nat_handler E s m = Some (s', m', fwd) \<and> nat_inv E s' \<and> mbuf_id m' = mbuf_id m"
    by (auto simp: nat_handler_def)
qed

text \<open>
  The in-place loop of \<open>main\<close> computes what the reference \<open>run_burst\<close> does: after
  it, the first \<open>tx_count\<close> slots hold the forwarded packets in order and the dropped ones
  have been freed in order.
\<close>

lemma nat_for_run:
  assumes "k \<le> i" "i \<le> length bufs"
  shows "case run_burst (nat_handler E) s (drop i bufs) of None \<Rightarrow> nat_for E s bufs i k fr = None
    | Some (s', out, dropped) \<Rightarrow> \<exists>bufs'. nat_for E s bufs i k fr = Some (s', bufs', k + length out, fr @ dropped) \<and>
        length bufs' = length bufs \<and> take (k + length out) bufs' = take k bufs @ out"
  using assms
proof (induction E s bufs i k fr rule: nat_for.induct)
  case (1 E s bufs i k fr)
  show ?case
  proof (cases "i < length bufs")
    case False
    then have "nat_for E s bufs i k fr = Some (s, bufs, k, fr)"
      by (simp add: nat_for.simps [of E s bufs i k fr])
    with False "1.prems" show ?thesis by simp
  next
    case True
    then have d: "drop i bufs = bufs ! i # drop (Suc i) bufs" by (simp add: Cons_nth_drop_Suc)
    show ?thesis
    proof (cases "nat_process_packet E s (bufs ! i)")
      case None
      then have "nat_handler E s (bufs ! i) = None" by (simp add: nat_handler_def)
      with None True show ?thesis by (simp add: d nat_for.simps [of E s bufs i k fr])
    next
      case (Some x)
      obtain r s1 m where x: "x = (r, s1, m)" by (cases x)
      note p = Some [unfolded x]
      have h: "nat_handler E s (bufs ! i) = Some (s1, m, r = 0)" by (simp add: nat_handler_def p)
      show ?thesis
      proof (cases "r = 0")
        case r: True
        let ?b = "bufs[i := m, k := m]"
        have dr: "drop (Suc i) ?b = drop (Suc i) bufs" using "1.prems" by simp
        have tk: "take (Suc k) ?b = take k bufs @ [m]"
          using "1.prems" True by (simp add: take_Suc_conv_app_nth list_update_swap)
        from "1.IH"(1) [OF True p refl refl r] "1.prems" True
        have "case run_burst (nat_handler E) s1 (drop (Suc i) ?b) of None \<Rightarrow> nat_for E s1 ?b (Suc i) (Suc k) fr = None
          | Some (s', out, dropped) \<Rightarrow> \<exists>bufs'. nat_for E s1 ?b (Suc i) (Suc k) fr
              = Some (s', bufs', Suc k + length out, fr @ dropped) \<and>
            length bufs' = length ?b \<and> take (Suc k + length out) bufs' = take (Suc k) ?b @ out"
          by simp
        then show ?thesis
          unfolding dr tk using r True
          by (auto simp: d h p nat_for.simps [of E s bufs i k fr] split: option.splits)
      next
        case r: False
        let ?b = "bufs[i := m]"
        have dr: "drop (Suc i) ?b = drop (Suc i) bufs" by simp
        have tk: "take k ?b = take k bufs" using "1.prems" by simp
        from "1.IH"(2) [OF True p refl refl r] "1.prems" True
        have "case run_burst (nat_handler E) s1 (drop (Suc i) ?b) of None \<Rightarrow> nat_for E s1 ?b (Suc i) k (fr @ [m]) = None
          | Some (s', out, dropped) \<Rightarrow> \<exists>bufs'. nat_for E s1 ?b (Suc i) k (fr @ [m])
              = Some (s', bufs', k + length out, (fr @ [m]) @ dropped) \<and>
            length bufs' = length ?b \<and> take (k + length out) bufs' = take k ?b @ out"
          by simp
        then show ?thesis
          unfolding dr tk using r True
          by (auto simp: d h p nat_for.simps [of E s bufs i k fr] split: option.splits)
      qed
    qed
  qed
qed

text \<open>The iteration of \<open>main\<close> over the reference \<open>run_burst\<close>.\<close>

lemma main_iter_run:
  assumes "rx \<noteq> []" "tx_ok tx" "run_burst (nat_handler E) s rx = Some (s1, out, dropped)" "nat_timer_manage E s1 = Some s2"
  shows "nat_main_iter E tx s rx = Some (s2, \<lparr>sent = take (tx out) out, freed = dropped @ drop (tx out) out\<rparr>)"
proof -
  from nat_for_run [of 0 0 rx E s "[]"] assms(3) obtain bufs where
    2: "nat_for E s rx 0 0 [] = Some (s1, bufs, length out, dropped)" "take (length out) bufs = out" by auto
  have n: "tx out \<le> length out" using assms(2) by (simp add: tx_ok_def)
  have lo: "length out \<le> length bufs" using 2(2) by (metis length_take min.cobounded1 nat_le_linear take_all)
  have fr: "(if tx out < length out then free_range bufs (tx out) (length out) else []) = drop (tx out) out"
    using lo 2(2) n by (auto simp: free_range_drop not_less)
  have tk: "take (tx out) bufs = take (tx out) out" using 2(2) n by (metis min.absorb1 take_take)
  show ?thesis using assms(1,4) 2 fr by (simp add: nat_main_iter_def Let_def tk split: if_splits)
qed

lemma nat_main_iter_safe:
  assumes "nat_inv E s" "tx_ok tx"
  shows "\<exists>s' x. nat_main_iter E tx s rx = Some (s', x) \<and> nat_inv E s' \<and>
    mset (map mbuf_id (sent x)) + mset (map mbuf_id (freed x)) = mset (map mbuf_id rx)"
proof (cases "rx = []")
  case True
  with nat_timer_manage_inv [OF assms(1)] show ?thesis by (auto simp: nat_main_iter_def)
next
  case False
  from nat_burst.burst_safe [OF assms(1), of rx] obtain s1 out dropped where
    1: "run_burst (nat_handler E) s rx = Some (s1, out, dropped)" "nat_inv E s1"
       "mset (map mbuf_id out) + mset (map mbuf_id dropped) = mset (map mbuf_id rx)" by blast
  from nat_timer_manage_inv [OF 1(2)] obtain s2 where
    3: "nat_timer_manage E s1 = Some s2" "nat_inv E s2" by blast
  let ?n = "tx out"
  note iter = main_iter_run [OF False assms(2) 1(1) 3(1)]
  have "mset (map mbuf_id (take ?n out)) + mset (map mbuf_id (dropped @ drop ?n out)) =
      mset (map mbuf_id (take ?n out @ drop ?n out)) + mset (map mbuf_id dropped)"
    by (simp only: map_append mset_append ac_simps)
  also have "\<dots> = mset (map mbuf_id rx)" using 1(3) by (simp only: append_take_drop_id)
  finally have acc: "mset (map mbuf_id (take ?n out)) + mset (map mbuf_id (dropped @ drop ?n out)) =
      mset (map mbuf_id rx)" .
  show ?thesis
    by (rule exI, rule exI, rule conjI, rule iter, rule conjI, rule 3(2)) (simp only: io.select_convs acc)
qed

lemma nat_main_loop_inv:
  assumes "nat_inv E s" "tx_ok tx"
  shows "\<exists>s' xs. nat_main_loop E tx s rxs = Some (s', xs) \<and> nat_inv E s' \<and>
    list_all2 (\<lambda>x rx. mset (map mbuf_id (sent x)) + mset (map mbuf_id (freed x)) = mset (map mbuf_id rx)) xs rxs"
  using assms(1)
proof (induction rxs arbitrary: s)
  case Nil
  then show ?case by simp
next
  case (Cons rx rxs)
  from nat_main_iter_safe [OF Cons.prems assms(2), of rx] obtain s1 x where
    1: "nat_main_iter E tx s rx = Some (s1, x)" "nat_inv E s1"
       "mset (map mbuf_id (sent x)) + mset (map mbuf_id (freed x)) = mset (map mbuf_id rx)" by blast
  from Cons.IH [OF 1(2)] 1 show ?case by auto
qed

text \<open>The static initial values of \<open>static_nat.c\<close>, before \<open>nat_init\<close>.\<close>

definition nat_boot :: "('h, 't) nat_env \<Rightarrow> ('h, 't) nat_state \<Rightarrow> bool" where
  "nat_boot E s \<longleftrightarrow> heap s = Map.empty \<and> tm_look (n_timer E) (timers s) = Map.empty \<and>
     current_port s = MIN_PORT"

lemma nat_init_inv:
  assumes "env_ok E" "nat_boot E s0" "nat_init E pub s0 = (0, s)"
  shows "nat_inv E s \<and> PUBLIC_IP s = pub"
proof -
  from assms(3) obtain f r where
    c: "n_hash_create E ''nat_fwd_table'' = Some f" "n_hash_create E ''nat_rev_table'' = Some r"
    and s: "s = s0\<lparr>PUBLIC_IP := pub, fwd_hash := f, rev_hash := r\<rparr>"
    by (auto simp: nat_init_def Let_def split: option.splits)
  from assms(1) c have "lookup_data (n_hash E) f = Map.empty" "lookup_data (n_hash E) r = Map.empty"
    unfolding env_ok_def by blast+
  with assms(1,2) s show ?thesis
    by (simp add: nat_inv_def nat_inv_on_def nat_boot_def)
qed

subsection \<open>Reachable states\<close>

inductive nat_step :: "('h, 't) nat_env \<Rightarrow> ('h, 't) nat_state \<Rightarrow> ('h, 't) nat_state \<Rightarrow> bool" for E where
  packet: "nat_process_packet E s m = Some (r, s', m') \<Longrightarrow> nat_step E s s'"
| timer: "nat_timer_manage E s = Some s' \<Longrightarrow> nat_step E s s'"

inductive nat_reachable :: "('h, 't) nat_env \<Rightarrow> u32 \<Rightarrow> ('h, 't) nat_state \<Rightarrow> bool" for E pub where
  start: "nat_boot E s0 \<Longrightarrow> nat_init E pub s0 = (0, s) \<Longrightarrow> nat_reachable E pub s"
| step: "nat_reachable E pub s \<Longrightarrow> nat_step E s s' \<Longrightarrow> nat_reachable E pub s'"

lemma nat_step_inv: "nat_step E s s' \<Longrightarrow> nat_inv E s \<Longrightarrow> nat_inv E s'"
proof (induction rule: nat_step.induct)
  case (packet s m r s' m')
  with nat_process_inv [of E s m] show ?case by auto
next
  case (timer s s')
  with nat_timer_manage_inv [of E s] show ?case by auto
qed

lemma nat_reachable_inv: "nat_reachable E pub s \<Longrightarrow> env_ok E \<Longrightarrow> nat_inv E s"
proof (induction rule: nat_reachable.induct)
  case (start s0 s)
  then show ?case using nat_init_inv by blast
next
  case (step s s')
  then show ?case using nat_step_inv by blast
qed

subsection \<open>Rewriting\<close>

lemma parse_rewrite_out:
  assumes "parse m = Some (sip, dip, sport, dport, proto)" "e_proto ent = proto"
  shows "parse (rewrite_out C m ent) = Some (public_ip ent, dip, public_port ent, dport, proto)"
  using assms by (auto simp: parse_def rewrite_out_def Let_def split: if_splits)

lemma parse_rewrite_in:
  assumes "parse m = Some (sip, dip, sport, dport, proto)" "e_proto ent = proto"
  shows "parse (rewrite_in C m ent) = Some (sip, private_ip ent, sport, private_port ent, proto)"
  using assms by (auto simp: parse_def rewrite_in_def Let_def split: if_splits)

lemma entry_ok_fields:
  assumes "entry_ok pub ent"
  shows "public_ip ent = pub" "nk_proto (fwd_key ent) = e_proto ent" "nk_proto (rev_key ent) = e_proto ent"
    "nk_dst_ip (rev_key ent) = pub" "nk_dst_port (rev_key ent) = public_port ent"
    "nk_src_ip (rev_key ent) = remote_ip ent" "nk_src_port (rev_key ent) = remote_port ent"
    "nk_src_ip (fwd_key ent) = private_ip ent" "nk_src_port (fwd_key ent) = private_port ent"
    "nk_dst_ip (fwd_key ent) = remote_ip ent" "nk_dst_port (fwd_key ent) = remote_port ent"
proof -
  from assms have "ent = mk_entry (private_ip ent) (private_port ent) (remote_ip ent) (remote_port ent)
      (e_proto ent) pub (public_port ent)" by (simp add: entry_ok_def)
  then obtain a b c d p q where e: "ent = mk_entry a b c d p pub q" by blast
  show "public_ip ent = pub" "nk_proto (fwd_key ent) = e_proto ent" "nk_proto (rev_key ent) = e_proto ent"
    "nk_dst_ip (rev_key ent) = pub" "nk_dst_port (rev_key ent) = public_port ent"
    "nk_src_ip (rev_key ent) = remote_ip ent" "nk_src_port (rev_key ent) = remote_port ent"
    "nk_src_ip (fwd_key ent) = private_ip ent" "nk_src_port (fwd_key ent) = private_port ent"
    "nk_dst_ip (fwd_key ent) = remote_ip ent" "nk_dst_port (fwd_key ent) = remote_port ent"
    by (simp_all add: e mk_entry_def)
qed

lemma refresh_look:
  assumes "timer_laws (n_timer E)" "heap s e = Some ent"
  shows "\<exists>s1. refresh E e s = Some s1 \<and> s1 = s\<lparr>timers := timers s1, reads := Suc (reads s)\<rparr> \<and>
    tm_look (n_timer E) (timers s1) =
      (tm_look (n_timer E) (timers s))(e \<mapsto> (tsc E (reads s) + 30 * n_hz E, False))"
  using assms(2) by (simp add: refresh_def arm_timer_def look_reset [OF assms(1)] look_stop [OF assms(1)])

text \<open>What a run of the expiry callbacks does: it removes the objects and their table entries, nothing else.\<close>

lemma run_expiries_eff:
  assumes "hash_laws (n_hash E)" "run_expiries E es s = Some s'"
  shows "heap s' = (\<lambda>e. if e \<in> set es then None else heap s e)"
    "lookup_data (n_hash E) (fwd_hash s') =
       (\<lambda>k. if \<exists>e\<in>set es. \<exists>ent. heap s e = Some ent \<and> fwd_key ent = k then None
            else lookup_data (n_hash E) (fwd_hash s) k)"
    "lookup_data (n_hash E) (rev_hash s') =
       (\<lambda>k. if \<exists>e\<in>set es. \<exists>ent. heap s e = Some ent \<and> rev_key ent = k then None
            else lookup_data (n_hash E) (rev_hash s) k)"
    "timers s' = timers s" "PUBLIC_IP s' = PUBLIC_IP s" "current_port s' = current_port s"
proof -
  have "heap s' = (\<lambda>e. if e \<in> set es then None else heap s e) \<and>
    lookup_data (n_hash E) (fwd_hash s') =
       (\<lambda>k. if \<exists>e\<in>set es. \<exists>ent. heap s e = Some ent \<and> fwd_key ent = k then None
            else lookup_data (n_hash E) (fwd_hash s) k) \<and>
    lookup_data (n_hash E) (rev_hash s') =
       (\<lambda>k. if \<exists>e\<in>set es. \<exists>ent. heap s e = Some ent \<and> rev_key ent = k then None
            else lookup_data (n_hash E) (rev_hash s) k) \<and>
    timers s' = timers s \<and> PUBLIC_IP s' = PUBLIC_IP s \<and> current_port s' = current_port s"
    using assms(2)
  proof (induction es arbitrary: s)
    case Nil
    then show ?case by simp
  next
    case (Cons e es)
    from Cons.prems obtain s1 where 1: "nat_entry_expire E e s = Some s1" and 2: "run_expiries E es s1 = Some s'"
      by (auto split: option.splits)
    from 1 obtain ent where h: "heap s e = Some ent" and
      s1: "s1 = s\<lparr>fwd_hash := snd (del_key (n_hash E) (fwd_hash s) (fwd_key ent)),
                  rev_hash := snd (del_key (n_hash E) (rev_hash s) (rev_key ent)), heap := (heap s)(e := None)\<rparr>"
      by (auto simp: nat_entry_expire_def split: option.splits)
    from Cons.IH [OF 2] h show ?case
      by (auto simp: s1 lookup_del [OF assms(1)] fun_eq_iff)
  qed
  then show "heap s' = (\<lambda>e. if e \<in> set es then None else heap s e)"
    "lookup_data (n_hash E) (fwd_hash s') =
       (\<lambda>k. if \<exists>e\<in>set es. \<exists>ent. heap s e = Some ent \<and> fwd_key ent = k then None
            else lookup_data (n_hash E) (fwd_hash s) k)"
    "lookup_data (n_hash E) (rev_hash s') =
       (\<lambda>k. if \<exists>e\<in>set es. \<exists>ent. heap s e = Some ent \<and> rev_key ent = k then None
            else lookup_data (n_hash E) (rev_hash s) k)"
    "timers s' = timers s" "PUBLIC_IP s' = PUBLIC_IP s" "current_port s' = current_port s"
    by simp_all
qed

end
