(* ===== verification/Samples.thy ===== *)
theory Samples
  imports Dpdk
begin

text \<open>
  Concrete packets for the witnesses: Ethernet frames given as byte lists. The bundle
  \<open>pkt_eval\<close> evaluates loads from them.
\<close>

definition bytes_mem :: "u8 list \<Rightarrow> mem" where
  "bytes_mem bs i = (if i < length bs then bs ! i else 0)"

text \<open>
  An IPv4/UDP packet with the given addresses and ports, checksum fields \<open>i0 i1\<close> (IP) and
  \<open>u0 u1\<close> (UDP), and four bytes of payload.
\<close>

definition udp_packet :: "u8 \<Rightarrow> u8 \<Rightarrow> u8 \<Rightarrow> u8 \<Rightarrow> u8 list \<Rightarrow> u8 list \<Rightarrow> u8 list \<Rightarrow> u8 list \<Rightarrow> mbuf" where
  "udp_packet i0 i1 u0 u1 sip dip sp dp = \<lparr>mbuf_id = 7,
     buf = bytes_mem ([2,0,0,0,0,1, 2,0,0,0,0,2, 0x08,0x00] @
       [0x45,0,0,32, 0,0,0,0, 64,17,i0,i1] @ sip @ dip @ sp @ dp @ [0,12,u0,u1] @ [1,2,3,4]),
     data_off = 0, data_len = 46\<rparr>"

lemmas pkt_eval = udp_packet_def bytes_mem_def rd8_def rd16_def rd32_def ld16_def ld32_def
  bswap16_def bswap32_def hi16_def lo16_def

end
