(* ===== verification/Nat_Flow_Props.thy ===== *)
theory Nat_Flow_Props
  imports Nat_Flow Samples
begin

text \<open>
  The properties of the flow-based NAT of \<open>nat_project/version6\<close>: memory safety of every
  interleaving of packets and timer runs, conservation of packet buffers by the main loop,
  the translation round trip, stability and expiry of mappings, the port allocator, and the
  checksum contract. \<open>demo_env\<close> and the packets below are the concrete inputs of the
  witnesses.
\<close>

subsection \<open>A concrete environment and packets\<close>

definition demo_malloc :: "(nat \<rightharpoonup> nat_entry) \<Rightarrow> nat option" where
  "demo_malloc h = (if h 1 = None then Some 1 else if h 2 = None then Some 2 else None)"

definition demo_env :: "((nat_key \<times> nat) list, nat timer_list) nat_env" where
  "demo_env = \<lparr>n_hash = ref_hash 8, n_timer = ref_timer, n_cksum = ref_cksum,
     n_malloc = demo_malloc, n_hash_create = (\<lambda>_. Some []), n_hz = 10, tsc = (\<lambda>n. of_nat n)\<rparr>"

definition demo_boot :: "((nat_key \<times> nat) list, nat timer_list) nat_state" where
  "demo_boot = \<lparr>fwd_hash = [], rev_hash = [], PUBLIC_IP = 0, current_port = 1024,
     heap = Map.empty, timers = [], reads = 0\<rparr>"

definition demo_start :: "((nat_key \<times> nat) list, nat timer_list) nat_state" where
  "demo_start = demo_boot\<lparr>PUBLIC_IP := make32 1 2 3 4\<rparr>"

definition demo_out :: mbuf where
  "demo_out = udp_packet 0 0 0 0 [10,0,0,1] [8,8,8,8] [0x30,0x39] [0,53]"

definition demo_reply :: mbuf where
  "demo_reply = udp_packet 0 0 0 0 [8,8,8,8] [1,2,3,4] [0,53] [4,1]"

lemma demo_env_ok: "env_ok demo_env"
  by (auto simp: env_ok_def demo_env_def ref_hash_laws ref_timer_laws demo_malloc_def
      split: if_splits) (simp add: ref_hash_def)

lemma demo_boot_ok: "nat_boot demo_env demo_boot"
  by (simp add: nat_boot_def demo_env_def demo_boot_def ref_timer_def ref_look_def fun_eq_iff)

lemma demo_init: "nat_init demo_env (make32 1 2 3 4) demo_boot = (0, demo_start)"
  by (simp add: nat_init_def demo_env_def demo_boot_def demo_start_def)

lemma demo_start_inv: "nat_inv demo_env demo_start"
  using nat_init_inv [OF demo_env_ok demo_boot_ok demo_init] by simp

lemma demo_out_parse:
  "parse demo_out = Some (make32 10 0 0 1, make32 8 8 8 8, make16 0x30 0x39, make16 0 53, 17)"
  by (simp add: parse_def demo_out_def pkt_eval)

lemma demo_reply_parse:
  "parse demo_reply = Some (make32 8 8 8 8, make32 1 2 3 4, make16 0 53, make16 4 1, 17)"
  by (simp add: parse_def demo_reply_def pkt_eval)

subsection \<open>Safety of every interleaving\<close>

text \<open>
  C2. Memory safety. In every state the NAT can reach from its initialisation, by any
  interleaving of packets and timer runs, handling a packet and running the timers never
  touch a freed or unallocated mapping (the C code has no undefined behaviour there), even
  when hash insertions or allocations fail.
\<close>

theorem nat_no_dangling:
  assumes "env_ok E" "nat_reachable E pub s"
  shows "nat_process_packet E s m \<noteq> None \<and> nat_timer_manage E s \<noteq> None"
proof -
  have inv: "nat_inv E s" using assms nat_reachable_inv by blast
  show ?thesis using nat_process_inv [OF inv, of m] nat_timer_manage_inv [OF inv] by auto
qed

theorem nat_no_dangling_witness:
  "nat_process_packet demo_env demo_start demo_out \<noteq> None \<and> nat_timer_manage demo_env demo_start \<noteq> None"
  using nat_no_dangling [OF demo_env_ok nat_reachable.start [OF demo_boot_ok demo_init]] by blast

text \<open>
  C3. The packet loop of \<open>main\<close>, for any sequence of received bursts, runs without
  undefined behaviour, keeps the invariant of the tables, heap and timers, and hands every
  received buffer either to the NIC or back to the pool, exactly once: no buffer is leaked or
  freed twice.
\<close>

theorem nat_main_loop_conserves:
  assumes "env_ok E" "tx_ok tx" "nat_boot E s0" "nat_init E pub s0 = (0, s)"
  shows "\<exists>s' xs. nat_main_loop E tx s rxs = Some (s', xs) \<and> nat_inv E s' \<and>
    list_all2 (\<lambda>x rx. mset (map mbuf_id (sent x)) + mset (map mbuf_id (freed x)) = mset (map mbuf_id rx)) xs rxs"
  using nat_main_loop_inv [OF conjunct1 [OF nat_init_inv [OF assms(1,3,4)]] assms(2)] .

theorem nat_main_loop_conserves_witness:
  "\<exists>s' xs. nat_main_loop demo_env (\<lambda>_. 0) demo_start [[demo_out], []] = Some (s', xs) \<and> nat_inv demo_env s' \<and>
    list_all2 (\<lambda>x rx. mset (map mbuf_id (sent x)) + mset (map mbuf_id (freed x)) = mset (map mbuf_id rx))
      xs [[demo_out], []]"
  by (rule nat_main_loop_conserves [OF demo_env_ok _ demo_boot_ok demo_init]) (simp add: tx_ok_def)

text \<open>
  The in-place compaction loop of \<open>main\<close> (\<open>bufs[tx_count++] = bufs[i]\<close>) is
  equivalent to processing the burst in order and separating forwarded from dropped packets.
\<close>

lemma nat_for_refines:
  "map_option (\<lambda>(s', bufs, n, fr). (s', take n bufs, fr)) (nat_for E s rx 0 0 []) =
   run_burst (nat_handler E) s rx"
  using nat_for_run [of 0 0 rx E s "[]"] by (auto split: option.splits)

subsection \<open>Translation\<close>

lemma create_entry_tables:
  assumes "hash_laws (n_hash E)" "n_malloc E (heap s) = Some e" "allocate_port s = (p, s1)"
    "0 \<le> fst (add_key_data (n_hash E) (fwd_hash s) (fwd_key ent) e)"
    "0 \<le> fst (add_key_data (n_hash E) (rev_hash s) (rev_key ent) e)"
    "ent = mk_entry sip sport dip dport proto (PUBLIC_IP s) p"
  shows "\<exists>s'. create_entry E sip sport dip dport proto s = (Some e, s') \<and> heap s' e = Some ent \<and>
    PUBLIC_IP s' = PUBLIC_IP s \<and>
    lookup_data (n_hash E) (fwd_hash s') = (lookup_data (n_hash E) (fwd_hash s))(fwd_key ent \<mapsto> e) \<and>
    lookup_data (n_hash E) (rev_hash s') = (lookup_data (n_hash E) (rev_hash s))(rev_key ent \<mapsto> e)"
proof -
  note f = allocate_port_frame [OF assms(3)]
  have "heap s1 = heap s" "PUBLIC_IP s1 = PUBLIC_IP s" "fwd_hash s1 = fwd_hash s" "rev_hash s1 = rev_hash s"
    by (subst f, simp)+
  with assms show ?thesis
    by (simp add: create_entry_def Let_def arm_timer_def lookup_add_ok)
qed

lemma create_entry_heap:
  assumes "create_entry E sip sport dip dport proto s = (Some e, s')" "x \<noteq> e"
  shows "heap s' x = heap s x"
  using assms by (auto elim!: create_entry_Some simp: arm_timer_def)

lemma new_flow:
  fixes s :: "('h, 't) nat_state"
  assumes "nat_inv E s" "parse m = Some (sip, dip, sport, dport, proto)" "dip \<noteq> PUBLIC_IP s"
    and "allocate_port s = (pport, s0)" "n_malloc E (heap s) = Some e"
    and "ent = mk_entry sip sport dip dport proto (PUBLIC_IP s) pport"
    and "lookup_data (n_hash E) (fwd_hash s) (fwd_key ent) = None"
    and "0 \<le> fst (add_key_data (n_hash E) (fwd_hash s) (fwd_key ent) e)"
    and "0 \<le> fst (add_key_data (n_hash E) (rev_hash s) (rev_key ent) e)"
  shows "\<exists>s1 m1. nat_process_packet E s m = Some (0, s1, m1) \<and>
      parse m1 = Some (PUBLIC_IP s, dip, pport, dport, proto) \<and>
      (\<forall>x. x \<noteq> e \<longrightarrow> heap s1 x = heap s x) \<and>
      (\<forall>r. parse r = Some (dip, PUBLIC_IP s, dport, pport, proto) \<longrightarrow>
        (\<exists>s2 r1. nat_process_packet E s1 r = Some (0, s2, r1) \<and> heap s2 = heap s1 \<and>
          parse r1 = Some (dip, sip, dport, sport, proto)))"
proof -
  have inv: "nat_inv_on E {} s" using assms(1) by (simp add: nat_inv_def)
  have k: "fwd_key ent = \<lparr>nk_src_ip = sip, nk_dst_ip = dip, nk_src_port = sport, nk_dst_port = dport, nk_proto = proto\<rparr>"
    "rev_key ent = \<lparr>nk_src_ip = dip, nk_dst_ip = PUBLIC_IP s, nk_src_port = dport, nk_dst_port = pport, nk_proto = proto\<rparr>"
    "e_proto ent = proto" "public_ip ent = PUBLIC_IP s" "public_port ent = pport"
    "private_ip ent = sip" "private_port ent = sport"
    by (simp_all add: assms(6) mk_entry_def)
  from create_entry_tables [OF inv_hash [OF inv] assms(5,4,8,9,6)] obtain s1 where
    c: "create_entry E sip sport dip dport proto s = (Some e, s1)" and h: "heap s1 e = Some ent" and
    pub: "PUBLIC_IP s1 = PUBLIC_IP s" and
    rev: "lookup_data (n_hash E) (rev_hash s1) = (lookup_data (n_hash E) (rev_hash s))(rev_key ent \<mapsto> e)" by blast
  have other: "heap s1 x = heap s x" if "x \<noteq> e" for x
    using create_entry_heap [OF c that] .
  have inv1: "nat_inv E s1" using create_entry_inv [OF assms(1) parse_proto [OF assms(2)] c] by simp
  have out: "nat_process_packet E s m = Some (0, s1, rewrite_out (n_cksum E) m ent)"
    using assms(2,3,7) c h by (simp add: nat_process_packet_def k)
  have answer: "\<exists>s2 r1. nat_process_packet E s1 r = Some (0, s2, r1) \<and> heap s2 = heap s1 \<and> parse r1 = Some (dip, sip, dport, sport, proto)"
    if r: "parse r = Some (dip, PUBLIC_IP s, dport, pport, proto)" for r
  proof -
    from refresh_inv [OF inv1 h] obtain s2 where s2: "refresh E e s1 = Some s2" "heap s2 = heap s1"
      using h by auto
    have "nat_process_packet E s1 r = Some (0, s2, rewrite_in (n_cksum E) r ent)"
      using r s2 rev h by (simp add: nat_process_packet_def pub k)
    with parse_rewrite_in [OF r k(3), of "n_cksum E"] show ?thesis using s2(2) by (simp add: k)
  qed
  show ?thesis
    using out parse_rewrite_out [OF assms(2) k(3), of "n_cksum E"] answer other by (simp add: k)
qed

text \<open>
  C4. Round trip of a new flow. The first outbound packet of a flow leaves with the public
  address and the port the allocator gives, everything else of its 5-tuple unchanged; and
  every reply from the same remote endpoint to that public port is delivered to the private
  address and port the flow came from. The insertions are assumed to succeed, since the code
  does not check them.
\<close>

theorem nat_roundtrip:
  fixes s :: "('h, 't) nat_state"
  assumes "nat_inv E s" "parse m = Some (sip, dip, sport, dport, proto)" "dip \<noteq> PUBLIC_IP s"
    and "allocate_port s = (pport, s0)" "n_malloc E (heap s) = Some e"
    and "ent = mk_entry sip sport dip dport proto (PUBLIC_IP s) pport"
    and "lookup_data (n_hash E) (fwd_hash s) (fwd_key ent) = None"
    and "0 \<le> fst (add_key_data (n_hash E) (fwd_hash s) (fwd_key ent) e)"
    and "0 \<le> fst (add_key_data (n_hash E) (rev_hash s) (rev_key ent) e)"
  shows "\<exists>s1 m1. nat_process_packet E s m = Some (0, s1, m1) \<and>
      parse m1 = Some (PUBLIC_IP s, dip, pport, dport, proto) \<and>
      (\<forall>r. parse r = Some (dip, PUBLIC_IP s, dport, pport, proto) \<longrightarrow>
        (\<exists>s2 r1. nat_process_packet E s1 r = Some (0, s2, r1) \<and>
          parse r1 = Some (dip, sip, dport, sport, proto)))"
  using new_flow [OF assms] by blast

theorem nat_roundtrip_witness:
  "\<exists>s1 m1. nat_process_packet demo_env demo_start demo_out = Some (0, s1, m1) \<and>
      parse m1 = Some (make32 1 2 3 4, make32 8 8 8 8, bswap16 1025, make16 0 53, 17) \<and>
      (\<forall>r. parse r = Some (make32 8 8 8 8, make32 1 2 3 4, make16 0 53, bswap16 1025, 17) \<longrightarrow>
        (\<exists>s2 r1. nat_process_packet demo_env s1 r = Some (0, s2, r1) \<and>
          parse r1 = Some (make32 8 8 8 8, make32 10 0 0 1, make16 0 53, make16 0x30 0x39, 17)))"
proof -
  have pub: "PUBLIC_IP demo_start = make32 1 2 3 4" by (simp add: demo_start_def)
  have a: "allocate_port demo_start = (bswap16 1025, demo_start\<lparr>current_port := 1025\<rparr>)"
    by (simp add: allocate_port_def demo_start_def demo_boot_def)
  have m: "n_malloc demo_env (heap demo_start) = Some 1"
    by (simp add: demo_env_def demo_malloc_def demo_start_def demo_boot_def)
  have l: "lookup_data (n_hash demo_env) (fwd_hash demo_start) k = None" for k
    by (simp add: demo_env_def demo_start_def demo_boot_def ref_hash_def)
  have f: "0 \<le> fst (add_key_data (n_hash demo_env) (fwd_hash demo_start) k e)" for k e
    by (simp add: demo_env_def demo_start_def demo_boot_def ref_hash_def)
  have r: "0 \<le> fst (add_key_data (n_hash demo_env) (rev_hash demo_start) k e)" for k e
    by (simp add: demo_env_def demo_start_def demo_boot_def ref_hash_def)
  show ?thesis
    using nat_roundtrip [OF demo_start_inv demo_out_parse _ a m refl l f r] by (simp add: pub)
qed

text \<open>
  C5. A mapping is stable. Once a flow is in the forward table, every further outbound packet
  of the flow leaves with the same public address and port, and neither the tables nor the
  mapping objects change: only the flow's idle timer is restarted.
\<close>

theorem nat_stable_mapping:
  assumes "nat_inv E s" "parse m = Some (sip, dip, sport, dport, proto)" "dip \<noteq> PUBLIC_IP s"
    and "lookup_data (n_hash E) (fwd_hash s) \<lparr>nk_src_ip = sip, nk_dst_ip = dip, nk_src_port = sport,
          nk_dst_port = dport, nk_proto = proto\<rparr> = Some e"
  shows "\<exists>ent s1 m1. heap s e = Some ent \<and> nat_process_packet E s m = Some (0, s1, m1) \<and>
      parse m1 = Some (PUBLIC_IP s, dip, public_port ent, dport, proto) \<and>
      s1 = s\<lparr>timers := timers s1, reads := Suc (reads s)\<rparr> \<and>
      tm_look (n_timer E) (timers s1) =
        (tm_look (n_timer E) (timers s))(e \<mapsto> (tsc E (reads s) + 30 * n_hz E, False))"
proof -
  have inv: "nat_inv_on E {} s" using assms(1) by (simp add: nat_inv_def)
  from inv_fwd [OF inv assms(4)] obtain ent where h: "heap s e = Some ent" and
    k: "fwd_key ent = \<lparr>nk_src_ip = sip, nk_dst_ip = dip, nk_src_port = sport, nk_dst_port = dport, nk_proto = proto\<rparr>"
    by blast
  have pr: "e_proto ent = proto" "public_ip ent = PUBLIC_IP s"
    using entry_ok_fields [OF inv_entry [OF inv h]] k by simp_all
  obtain s1 where s1: "refresh E e s = Some s1" "s1 = s\<lparr>timers := timers s1, reads := Suc (reads s)\<rparr>"
    "tm_look (n_timer E) (timers s1) =
       (tm_look (n_timer E) (timers s))(e \<mapsto> (tsc E (reads s) + 30 * n_hz E, False))"
    using refresh_look [OF inv_timer [OF inv] h] by blast
  have h1: "heap s1 e = Some ent" by (subst s1(2)) (simp add: h)
  have "nat_process_packet E s m = Some (0, s1, rewrite_out (n_cksum E) m ent)"
    using assms(2-4) s1(1) h1 by (simp add: nat_process_packet_def)
  with h s1(2,3) parse_rewrite_out [OF assms(2) pr(1), of "n_cksum E"] pr(2) show ?thesis
    by auto
qed

definition demo_ent :: nat_entry where
  "demo_ent = mk_entry (make32 10 0 0 1) (make16 0x30 0x39) (make32 8 8 8 8) (make16 0 53) 17
     (make32 1 2 3 4) (bswap16 1025)"

definition demo_flow :: "((nat_key \<times> nat) list, nat timer_list) nat_state" where
  "demo_flow = demo_start\<lparr>fwd_hash := [(fwd_key demo_ent, 1)], rev_hash := [(rev_key demo_ent, 1)],
     current_port := 1025, heap := [1 \<mapsto> demo_ent], timers := [(1, 300, 300, False)], reads := 1\<rparr>"

lemma demo_flow_created:
  "create_entry demo_env (make32 10 0 0 1) (make16 0x30 0x39) (make32 8 8 8 8) (make16 0 53) 17 demo_start =
   (Some 1, demo_flow)"
  by (simp add: create_entry_def demo_env_def demo_malloc_def demo_start_def demo_boot_def demo_flow_def
      allocate_port_def arm_timer_def demo_ent_def ref_hash_def ref_timer_def Let_def)

lemma demo_flow_inv: "nat_inv demo_env demo_flow"
  using create_entry_inv [OF demo_start_inv _ demo_flow_created] by simp

theorem nat_stable_mapping_witness:
  "\<exists>ent s1 m1. heap demo_flow 1 = Some ent \<and> nat_process_packet demo_env demo_flow demo_out = Some (0, s1, m1) \<and>
      parse m1 = Some (PUBLIC_IP demo_flow, make32 8 8 8 8, public_port ent, make16 0 53, 17) \<and>
      s1 = demo_flow\<lparr>timers := timers s1, reads := Suc (reads demo_flow)\<rparr> \<and>
      tm_look (n_timer demo_env) (timers s1) =
        (tm_look (n_timer demo_env) (timers demo_flow))(1 \<mapsto>
          (tsc demo_env (reads demo_flow) + 30 * n_hz demo_env, False))"
proof -
  have p: "make32 8 8 8 8 \<noteq> PUBLIC_IP demo_flow"
    by (simp add: demo_flow_def demo_start_def)
  have l: "lookup_data (n_hash demo_env) (fwd_hash demo_flow) \<lparr>nk_src_ip = make32 10 0 0 1, nk_dst_ip = make32 8 8 8 8,
      nk_src_port = make16 0x30 0x39, nk_dst_port = make16 0 53, nk_proto = 17\<rparr> = Some 1"
    by (simp add: demo_env_def ref_hash_def demo_flow_def demo_ent_def mk_entry_def)
  show ?thesis by (rule nat_stable_mapping [OF demo_flow_inv demo_out_parse p l])
qed



text \<open>
  C7. Expiry. One \<open>rte_timer_manage\<close> at time \<open>now\<close> frees exactly the mappings whose
  timer has run out, removes exactly the keys of those mappings from both tables, and keeps
  every other object and table entry; afterwards no table refers to an expired mapping.
\<close>

theorem nat_timeout:
  assumes "nat_inv E s"
  shows "\<exists>s'. nat_timer_manage E s = Some s' \<and>
     (let dead = (\<lambda>e. expired (n_timer E) (timers s) (tsc E (reads s)) e) in
      heap s' = (\<lambda>e. if dead e then None else heap s e) \<and>
      lookup_data (n_hash E) (fwd_hash s') = (\<lambda>k. if \<exists>e ent. dead e \<and> heap s e = Some ent \<and> fwd_key ent = k
         then None else lookup_data (n_hash E) (fwd_hash s) k) \<and>
      lookup_data (n_hash E) (rev_hash s') = (\<lambda>k. if \<exists>e ent. dead e \<and> heap s e = Some ent \<and> rev_key ent = k
         then None else lookup_data (n_hash E) (rev_hash s) k) \<and>
      (\<forall>k e. dead e \<longrightarrow> lookup_data (n_hash E) (fwd_hash s') k \<noteq> Some e \<and>
         lookup_data (n_hash E) (rev_hash s') k \<noteq> Some e))"
proof -
  have inv: "nat_inv_on E {} s" using assms by (simp add: nat_inv_def)
  obtain es t where m: "tm_manage (n_timer E) (timers s) (tsc E (reads s)) = (es, t)"
    by (cases "tm_manage (n_timer E) (timers s) (tsc E (reads s))")
  have es: "e \<in> set es \<longleftrightarrow> expired (n_timer E) (timers s) (tsc E (reads s)) e" for e
    using manage_set [OF inv_timer [OF inv] m] by simp
  from nat_timer_manage_inv [OF assms] obtain s' where
    s': "nat_timer_manage E s = Some s'" "nat_inv E s'" by blast
  then have r: "run_expiries E es (s\<lparr>timers := t, reads := Suc (reads s)\<rparr>) = Some s'"
    using m by (simp add: nat_timer_manage_def)
  note eff = run_expiries_eff [OF inv_hash [OF inv] r]
  have inv': "nat_inv_on E {} s'" using s'(2) by (simp add: nat_inv_def)
  have gone: "lookup_data (n_hash E) (fwd_hash s') k \<noteq> Some e \<and> lookup_data (n_hash E) (rev_hash s') k \<noteq> Some e"
    if "expired (n_timer E) (timers s) (tsc E (reads s)) e" for k e
    using that inv_fwd [OF inv', of k e] inv_rev [OF inv', of k e] es by (auto simp: eff(1))
  show ?thesis
    using s'(1) eff(1-3) gone by (simp add: es Let_def Bex_def cong: if_cong)
qed

theorem nat_timeout_witness:
  "\<exists>s'. nat_timer_manage demo_env (demo_flow\<lparr>reads := 300\<rparr>) = Some s' \<and> heap s' 1 = None \<and>
     lookup_data (n_hash demo_env) (fwd_hash s') (fwd_key demo_ent) = None \<and>
     lookup_data (n_hash demo_env) (rev_hash s') (rev_key demo_ent) = None"
proof -
  have "nat_inv demo_env (demo_flow\<lparr>reads := 300\<rparr>)"
    using demo_flow_inv by (simp add: nat_inv_def nat_inv_on_def)
  from nat_timeout [OF this] obtain s' where
    s': "nat_timer_manage demo_env (demo_flow\<lparr>reads := 300\<rparr>) = Some s'" and
    eff: "let dead = (\<lambda>e. expired (n_timer demo_env) (timers (demo_flow\<lparr>reads := 300\<rparr>)) (tsc demo_env (reads (demo_flow\<lparr>reads := 300\<rparr>))) e) in
      heap s' = (\<lambda>e. if dead e then None else heap (demo_flow\<lparr>reads := 300\<rparr>) e) \<and>
      lookup_data (n_hash demo_env) (fwd_hash s') = (\<lambda>k. if \<exists>e ent. dead e \<and> heap (demo_flow\<lparr>reads := 300\<rparr>) e = Some ent \<and> fwd_key ent = k
         then None else lookup_data (n_hash demo_env) (fwd_hash (demo_flow\<lparr>reads := 300\<rparr>)) k) \<and>
      lookup_data (n_hash demo_env) (rev_hash s') = (\<lambda>k. if \<exists>e ent. dead e \<and> heap (demo_flow\<lparr>reads := 300\<rparr>) e = Some ent \<and> rev_key ent = k
         then None else lookup_data (n_hash demo_env) (rev_hash (demo_flow\<lparr>reads := 300\<rparr>)) k)"
    unfolding Let_def by blast
  have d: "expired (n_timer demo_env) (timers demo_flow) (tsc demo_env 300) 1"
    by (simp add: expired_def demo_env_def demo_flow_def ref_timer_def ref_look_def)
  have h: "heap demo_flow 1 = Some demo_ent" by (simp add: demo_flow_def)
  show ?thesis using s' eff d h by (auto simp: Let_def)
qed

subsection \<open>The port allocator\<close>

fun alloc_nth :: "nat \<Rightarrow> ('h, 't) nat_state \<Rightarrow> ('h, 't) nat_state" where
  "alloc_nth 0 s = s"
| "alloc_nth (Suc n) s = alloc_nth n (snd (allocate_port s))"

lemma allocate_port_next:
  assumes "MIN_PORT \<le> current_port s" "current_port s < MAX_PORT"
  shows "unat (current_port (snd (allocate_port s))) = 1024 + (unat (current_port s) - 1024 + 1) mod 64511"
proof -
  have c: "1024 \<le> unat (current_port s)" "unat (current_port s) < 65535"
    using assms by (simp_all add: word_le_nat_alt word_less_nat_alt)
  then have s: "unat (current_port s + 1) = unat (current_port s) + 1"
    by (simp add: unat_word_ariths)
  show ?thesis
  proof (cases "unat (current_port s) = 65534")
    case True
    with s show ?thesis by (simp add: allocate_port_def Let_def word_le_nat_alt)
  next
    case False
    with c have "unat (current_port s) + 1 < 65535" by simp
    with c s show ?thesis by (simp add: allocate_port_def Let_def word_le_nat_alt)
  qed
qed

text \<open>
  The port allocator, called any number of times from a valid state, only ever gives
  ports from 1024 to 65534 and walks through them cyclically: the \<open>n\<close>-th allocation is
  \<open>1024 + (c - 1024 + n) mod 64511\<close>. So any 64511 consecutive allocations give different
  ports, and the next one repeats the first.
\<close>

lemma allocate_port_cycle:
  assumes "MIN_PORT \<le> current_port s" "current_port s < MAX_PORT"
  shows "unat (current_port (alloc_nth n s)) = 1024 + (unat (current_port s) - 1024 + n) mod 64511"
  using assms
proof (induction n arbitrary: s)
  case 0
  then show ?case by (simp add: word_le_nat_alt word_less_nat_alt)
next
  case (Suc n)
  obtain p s1 where a: "allocate_port s = (p, s1)" by fastforce
  note r = allocate_port_range [OF Suc.prems a]
  have "unat (current_port s1) = 1024 + (unat (current_port s) - 1024 + 1) mod 64511"
    using allocate_port_next [OF Suc.prems] a by simp
  with Suc.IH [OF r(2,3)] a show ?case by (simp add: mod_add_left_eq)
qed

text \<open>
  C8. Port reuse takes over a live flow. Ports are handed out cyclically with no check that
  the port is free. When the cycle comes back to the public port of a mapping that is still
  alive, and another host opens a flow to the same remote endpoint, the reverse entry is
  overwritten: replies of the remote endpoint to that port go to the second host, although
  the first host's mapping is still alive.
\<close>

theorem nat_port_reuse_hijacks:
  fixes s :: "('h, 't) nat_state"
  assumes "nat_inv E s" "heap s e1 = Some ent1"
    and "parse m = Some (sip, remote_ip ent1, sport, remote_port ent1, e_proto ent1)" "remote_ip ent1 \<noteq> PUBLIC_IP s"
    and "(sip, sport) \<noteq> (private_ip ent1, private_port ent1)"
    and "allocate_port s = (public_port ent1, s0)" "n_malloc E (heap s) = Some e"
    and "ent = mk_entry sip sport (remote_ip ent1) (remote_port ent1) (e_proto ent1) (PUBLIC_IP s) (public_port ent1)"
    and "lookup_data (n_hash E) (fwd_hash s) (fwd_key ent) = None"
    and "0 \<le> fst (add_key_data (n_hash E) (fwd_hash s) (fwd_key ent) e)"
    and "0 \<le> fst (add_key_data (n_hash E) (rev_hash s) (rev_key ent) e)"
  shows "\<exists>s1 m1. nat_process_packet E s m = Some (0, s1, m1) \<and> heap s1 e1 = Some ent1 \<and>
      (\<forall>r. parse r = Some (remote_ip ent1, PUBLIC_IP s, remote_port ent1, public_port ent1, e_proto ent1) \<longrightarrow>
        (\<exists>s2 r1. nat_process_packet E s1 r = Some (0, s2, r1) \<and>
          parse r1 = Some (remote_ip ent1, sip, remote_port ent1, sport, e_proto ent1)))"
proof -
  have inv: "nat_inv_on E {} s" using assms(1) by (simp add: nat_inv_def)
  have ne: "e1 \<noteq> e" using inv_malloc [OF inv assms(7)] assms(2) by auto
  from new_flow [OF assms(1,3,4,6-11)] obtain s1 m1 where
    1: "nat_process_packet E s m = Some (0, s1, m1)" "\<forall>x. x \<noteq> e \<longrightarrow> heap s1 x = heap s x"
    and 2: "\<forall>r. parse r = Some (remote_ip ent1, PUBLIC_IP s, remote_port ent1, public_port ent1, e_proto ent1) \<longrightarrow>
        (\<exists>s2 r1. nat_process_packet E s1 r = Some (0, s2, r1) \<and> heap s2 = heap s1 \<and>
          parse r1 = Some (remote_ip ent1, sip, remote_port ent1, sport, e_proto ent1))" by blast
  with ne assms(2) show ?thesis by metis
qed

definition demo_wrapped :: "((nat_key \<times> nat) list, nat timer_list) nat_state" where
  "demo_wrapped = demo_flow\<lparr>current_port := 1024\<rparr>"

definition demo_out2 :: mbuf where
  "demo_out2 = udp_packet 0 0 0 0 [10,0,0,2] [8,8,8,8] [0x30,0x39] [0,53]"

theorem nat_port_reuse_hijacks_witness:
  "\<exists>s1 m1. nat_process_packet demo_env demo_wrapped demo_out2 = Some (0, s1, m1) \<and> heap s1 1 = Some demo_ent \<and>
     (\<exists>s2 r1. nat_process_packet demo_env s1 demo_reply = Some (0, s2, r1) \<and>
        parse r1 = Some (make32 8 8 8 8, make32 10 0 0 2, make16 0 53, make16 0x30 0x39, 17))"
proof -
  have inv: "nat_inv demo_env demo_wrapped"
    using demo_flow_inv by (simp add: demo_wrapped_def nat_inv_def nat_inv_on_def)
  have h: "heap demo_wrapped 1 = Some demo_ent" by (simp add: demo_wrapped_def demo_flow_def)
  have f: "remote_ip demo_ent = make32 8 8 8 8" "remote_port demo_ent = make16 0 53" "e_proto demo_ent = 17"
    "private_ip demo_ent = make32 10 0 0 1" "public_port demo_ent = bswap16 1025"
    by (simp_all add: demo_ent_def mk_entry_def)
  have p: "parse demo_out2 = Some (make32 10 0 0 2, remote_ip demo_ent, make16 0x30 0x39, remote_port demo_ent, e_proto demo_ent)"
    by (simp add: parse_def demo_out2_def pkt_eval f)
  have pub: "PUBLIC_IP demo_wrapped = make32 1 2 3 4" by (simp add: demo_wrapped_def demo_flow_def demo_start_def)
  have a: "allocate_port demo_wrapped = (public_port demo_ent, demo_wrapped\<lparr>current_port := 1025\<rparr>)"
    by (simp add: allocate_port_def demo_wrapped_def f)
  have m: "n_malloc demo_env (heap demo_wrapped) = Some 2"
    by (simp add: demo_env_def demo_malloc_def demo_wrapped_def demo_flow_def)
  let ?ent = "mk_entry (make32 10 0 0 2) (make16 0x30 0x39) (remote_ip demo_ent) (remote_port demo_ent)
    (e_proto demo_ent) (PUBLIC_IP demo_wrapped) (public_port demo_ent)"
  have l: "lookup_data (n_hash demo_env) (fwd_hash demo_wrapped) (fwd_key ?ent) = None"
    by (simp add: demo_env_def ref_hash_def demo_wrapped_def demo_flow_def demo_ent_def mk_entry_def)
  have i: "0 \<le> fst (add_key_data (n_hash demo_env) (fwd_hash demo_wrapped) k e)"
    "0 \<le> fst (add_key_data (n_hash demo_env) (rev_hash demo_wrapped) k e)" for k e
    by (simp_all add: demo_env_def ref_hash_def demo_wrapped_def demo_flow_def)
  have r: "parse demo_reply = Some (remote_ip demo_ent, PUBLIC_IP demo_wrapped, remote_port demo_ent,
      public_port demo_ent, e_proto demo_ent)"
    by (simp add: demo_reply_parse f pub bswap16_def hi16_def lo16_def)
  show ?thesis
    using nat_port_reuse_hijacks [OF inv h p _ _ a m refl l i] r by (simp add: f pub) blast
qed

subsection \<open>Checksums\<close>

text \<open>
  When a packet arrives with both checksum fields cleared (as a NIC with checksum
  offload delivers locally generated traffic), the outbound rewrite leaves it with a correct
  IPv4 header checksum and a correct TCP or UDP checksum.
\<close>

lemma rewrite_out_cksum:
  assumes "cksum_laws C" "parse m = Some (sip, dip, sport, dport, proto)" "e_proto ent = proto"
    and "ip_ihl m 14 = 5" "l4_cksum_off proto + 2 \<le> l4_len m 14"
    and "rd16 m (14 + O_HDR_CKSUM) = 0" "rd16 m (34 + l4_cksum_off proto) = 0"
  shows "ipv4_cksum_ok (rewrite_out C m ent) 14 \<and> l4_cksum_ok (rewrite_out C m ent) 14 34"
proof -
  let ?m2 = "wr16 (wr32 m 26 (public_ip ent)) 34 (public_port ent)"
  let ?m3 = "wr16 ?m2 (34 + l4_cksum_off proto) (rte_ipv4_udptcp_cksum C ?m2 14 34)"
  let ?m4 = "wr16 ?m3 24 (rte_ipv4_cksum C ?m3 14)"
  have pr: "rd8 m 23 = proto" "rd8 ?m2 23 = proto" using assms(2) by (auto simp: parse_def Let_def split: if_splits)
  have off: "l4_cksum_off proto = 16 \<or> l4_cksum_off proto = 6" by (simp add: l4_cksum_off_def)
  have eq: "rewrite_out C m ent = ?m4"
    using assms(3) by (simp add: rewrite_out_def Let_def l4_cksum_off_def)
  have "l4_len ?m2 14 = l4_len m 14" by (rule l4_len_cong) simp_all
  then have ok3: "l4_cksum_ok ?m3 14 34"
    using l4_cksum_store [OF assms(1), of ?m2 34 14] assms(5,7) off pr by auto
  have "ip_ihl ?m3 14 = ip_ihl m 14" by (rule ip_ihl_cong) auto
  then have "ipv4_cksum_ok ?m4 14"
    using ipv4_cksum_store [OF assms(1), of ?m3 14] assms(4,6) by simp
  moreover have "l4_cksum_ok ?m4 14 34"
    using ok3 l4_words_wr_hdr_cksum [of 14 34 ?m3] by (simp add: l4_cksum_ok_def)
  ultimately show ?thesis by (simp add: eq)
qed





subsection \<open>Start-up\<close>

text \<open>
  The packet loop is entered only when everything it uses is ready: if \<open>main\<close>
  reaches it, the EAL is up, the mempool exists, port 0 was configured, given a receive and a
  transmit queue and started, each call having succeeded in that order, and both hash tables
  were created.
\<close>

lemma main_start_ready:
  assumes "main_start E [] = (Done 0, tr)"
  shows "port_ready E tr 0 \<and> tx_ready E tr 0 \<and> 0 \<le> E [] Rte_eal_init \<and>
    (\<exists>i j. i < j \<and> j < length tr \<and>
       tr ! i = Rte_hash_create ''nat_fwd_table'' 65536 13 \<and> E (take i tr) (tr ! i) \<noteq> 0 \<and>
       tr ! j = Rte_hash_create ''nat_rev_table'' 65536 13 \<and> E (take j tr) (tr ! j) \<noteq> 0)"
proof -
  let ?t0 = "[Rte_eal_init, Rte_timer_subsystem_init, Rte_pktmbuf_pool_create ''MBUF_POOL'' 2048 256]"
  obtain mp where tr: "tr = ?t0 @ setup_calls 0 1024 1024 mp @ [Rte_eth_dev_info_get 0] @
      [Rte_hash_create ''nat_fwd_table'' 65536 13, Rte_hash_create ''nat_rev_table'' 65536 13]"
    and ok: "all_ok E ?t0 (setup_calls 0 1024 1024 mp)" and eal: "0 \<le> E [] Rte_eal_init"
    and f: "E (take 8 tr) (tr ! 8) \<noteq> 0" and r: "E (take 9 tr) (tr ! 9) \<noteq> 0"
    using assms
    by (auto simp: main_start_def create_mempool_def init_port_def prog_defs setup_calls_def all_ok_Cons
        split: if_splits)
  have "port_ready E tr 0" "tx_ready E tr 0"
    using setup_ready [OF ok] port_ready_append tx_ready_append unfolding tr append_assoc [symmetric]
    by blast+
  moreover have "tr ! 8 = Rte_hash_create ''nat_fwd_table'' 65536 13" "9 < length tr"
    "tr ! 9 = Rte_hash_create ''nat_rev_table'' 65536 13"
    by (simp_all add: tr setup_calls_def)
  ultimately show ?thesis using eal f r by (intro conjI exI [of _ 8] exI [of _ 9]) simp_all
qed

end
