(* ===== verification/Nat_Rewrite.thy ===== *)
theory Nat_Rewrite
  imports Dpdk
begin

text \<open>
  Address rewriting with checksum recalculation, as the pool-based and static NATs do it:
  \<open>rewrite_and_recalc\<close> of \<open>nat_project/version5/static_nat.c\<close>, and the same steps
  written out in \<open>version3\<close> and \<open>version4\<close>. Each checksum field is cleared before its
  helper is called, so the rewritten packet verifies whatever the fields held before.
\<close>

definition is_ipv4 :: "mbuf \<Rightarrow> bool" where
  "is_ipv4 m \<longleftrightarrow> rd16 m O_ETHER_TYPE = bswap16 RTE_ETHER_TYPE_IPV4"

text \<open>The recalculation: the header checksum first, then TCP or UDP by \<open>next_proto_id\<close>.\<close>

definition recalc :: "cksum_api \<Rightarrow> mbuf \<Rightarrow> mbuf" where
  "recalc C m =
     (let ip = ETHER_HDR; l4 = ip + IPV4_HDR;
          m1 = wr16 m (ip + O_HDR_CKSUM) 0;
          m2 = wr16 m1 (ip + O_HDR_CKSUM) (rte_ipv4_cksum C m1 ip)
      in if rd8 m2 (ip + O_PROTO) = IPPROTO_TCP then
           (let m3 = wr16 m2 (l4 + O_TCP_CKSUM) 0
            in wr16 m3 (l4 + O_TCP_CKSUM) (rte_ipv4_udptcp_cksum C m3 ip l4))
         else if rd8 m2 (ip + O_PROTO) = IPPROTO_UDP then
           (let m3 = wr16 m2 (l4 + O_UDP_CKSUM) 0
            in wr16 m3 (l4 + O_UDP_CKSUM) (rte_ipv4_udptcp_cksum C m3 ip l4))
         else m2)"

definition rewrite_and_recalc :: "cksum_api \<Rightarrow> mbuf \<Rightarrow> u32 \<Rightarrow> bool \<Rightarrow> mbuf" where
  "rewrite_and_recalc C m new_ip is_src =
     recalc C (if is_src then wr32 m (ETHER_HDR + O_SRC) new_ip else wr32 m (ETHER_HDR + O_DST) new_ip)"

lemma recalc_frame [simp]:
  "mbuf_id (recalc C m) = mbuf_id m" "data_len (recalc C m) = data_len m" "data_off (recalc C m) = data_off m"
  by (simp_all add: recalc_def Let_def)

text \<open>Bytes 26 and 30 are the IPv4 addresses, 23 the protocol, 34 and 36 the ports.\<close>

lemma recalc_fields [simp]:
  "rd16 (recalc C m) 12 = rd16 m 12"
  "rd32 (recalc C m) 26 = rd32 m 26" "rd32 (recalc C m) 30 = rd32 m 30"
  "rd8 (recalc C m) 23 = rd8 m 23"
  "rd16 (recalc C m) 34 = rd16 m 34" "rd16 (recalc C m) 36 = rd16 m 36"
  by (simp_all add: recalc_def Let_def)

lemma rewrite_and_recalc_frame [simp]:
  "mbuf_id (rewrite_and_recalc C m a s) = mbuf_id m"
  by (simp add: rewrite_and_recalc_def)

lemma rewrite_and_recalc_fields [simp]:
  "rd32 (rewrite_and_recalc C m a s) 26 = (if s then a else rd32 m 26)"
  "rd32 (rewrite_and_recalc C m a s) 30 = (if s then rd32 m 30 else a)"
  "rd16 (rewrite_and_recalc C m a s) 34 = rd16 m 34" "rd16 (rewrite_and_recalc C m a s) 36 = rd16 m 36"
  "rd8 (rewrite_and_recalc C m a s) 23 = rd8 m 23"
  "is_ipv4 (rewrite_and_recalc C m a s) = is_ipv4 m"
  by (simp_all add: rewrite_and_recalc_def is_ipv4_def)

text \<open>An IPv4 packet without options whose TCP or UDP header is complete.\<close>

definition wf_l4 :: "mbuf \<Rightarrow> bool" where
  "wf_l4 m \<longleftrightarrow> ip_ihl m ETHER_HDR = 5 \<and>
     (rd8 m (ETHER_HDR + O_PROTO) = IPPROTO_TCP \<or> rd8 m (ETHER_HDR + O_PROTO) = IPPROTO_UDP) \<and>
     l4_cksum_off (rd8 m (ETHER_HDR + O_PROTO)) + 2 \<le> l4_len m ETHER_HDR"

lemma recalc_ipv4_ok:
  assumes "cksum_laws C" "ip_ihl m ETHER_HDR = 5"
  shows "ipv4_cksum_ok (recalc C m) ETHER_HDR"
proof -
  let ?m1 = "wr16 m 24 0"
  let ?m2 = "wr16 ?m1 24 (rte_ipv4_cksum C ?m1 14)"
  have ihl: "ip_ihl ?m1 14 = 5" using assms(2) ip_ihl_cong [of ?m1 14 m] by simp
  have ok: "ipv4_cksum_ok ?m2 14" using ipv4_cksum_store [OF assms(1), of ?m1 14] ihl by simp
  have ihl2: "ip_ihl ?m2 14 = 5" using ihl ip_ihl_cong [of ?m2 14 ?m1] by simp
  have keep: "ipv4_words (wr16 x j v) 14 = ipv4_words x 14" if "ip_ihl x 14 = 5" "34 \<le> j" for x j v
  proof -
    have "ip_ihl (wr16 x j v) 14 = ip_ihl x 14" using that by (intro ip_ihl_cong) simp
    moreover have "words_at (wr16 x j v) 14 20 = words_at x 14 20"
      using that(2) by (intro words_at_cong) simp
    ultimately show ?thesis using that(1) by (simp add: ipv4_words_def)
  qed
  have keep2: "ipv4_words (wr16 (wr16 ?m2 j v) j w) 14 = ipv4_words ?m2 14" if "34 \<le> j" for j v w
  proof -
    have "ip_ihl (wr16 ?m2 j v) 14 = 5" using ihl2 that ip_ihl_cong [of "wr16 ?m2 j v" 14 ?m2] by simp
    then show ?thesis using that ihl2 keep by simp
  qed
  show ?thesis
    using ok keep2 by (simp add: recalc_def Let_def ipv4_cksum_ok_def)
qed

lemma recalc_l4_ok:
  assumes "cksum_laws C" "wf_l4 m"
  shows "l4_cksum_ok (recalc C m) ETHER_HDR (ETHER_HDR + IPV4_HDR)"
proof -
  let ?m1 = "wr16 m 24 0"
  let ?m2 = "wr16 ?m1 24 (rte_ipv4_cksum C ?m1 14)"
  let ?f = "l4_cksum_off (rd8 m 23)"
  let ?m3 = "wr16 ?m2 (34 + ?f) 0"
  have f: "?f = 16 \<or> ?f = 6" by (simp add: l4_cksum_off_def)
  have pr: "rd8 ?m3 23 = rd8 m 23" by simp
  have len: "l4_len ?m3 14 = l4_len m 14" by (intro l4_len_cong) auto
  have "recalc C m = wr16 ?m3 (34 + ?f) (rte_ipv4_udptcp_cksum C ?m3 14 34)"
    using assms(2) by (auto simp: recalc_def Let_def l4_cksum_off_def wf_l4_def)
  then show ?thesis
    using l4_cksum_store [OF assms(1), of ?m3 34 14] assms(2) pr len by (simp add: wf_l4_def)
qed

lemma wf_l4_wr32:
  assumes "wf_l4 m" "j = ETHER_HDR + O_SRC \<or> j = ETHER_HDR + O_DST"
  shows "wf_l4 (wr32 m j v)"
proof -
  have "ip_ihl (wr32 m j v) 14 = ip_ihl m 14" using assms(2) by (intro ip_ihl_cong) auto
  moreover have "l4_len (wr32 m j v) 14 = l4_len m 14" using assms(2) by (intro l4_len_cong) auto
  ultimately show ?thesis using assms by (auto simp: wf_l4_def)
qed

lemma rewrite_and_recalc_ok:
  assumes "cksum_laws C" "wf_l4 m"
  shows "ipv4_cksum_ok (rewrite_and_recalc C m a s) ETHER_HDR"
    "l4_cksum_ok (rewrite_and_recalc C m a s) ETHER_HDR (ETHER_HDR + IPV4_HDR)"
proof -
  let ?m = "if s then wr32 m (ETHER_HDR + O_SRC) a else wr32 m (ETHER_HDR + O_DST) a"
  have wf: "wf_l4 ?m" using wf_l4_wr32 [OF assms(2)] by simp
  then have "ip_ihl ?m ETHER_HDR = 5" by (simp add: wf_l4_def)
  then show "ipv4_cksum_ok (rewrite_and_recalc C m a s) ETHER_HDR"
    unfolding rewrite_and_recalc_def by (rule recalc_ipv4_ok [OF assms(1)])
  show "l4_cksum_ok (rewrite_and_recalc C m a s) ETHER_HDR (ETHER_HDR + IPV4_HDR)"
    unfolding rewrite_and_recalc_def by (rule recalc_l4_ok [OF assms(1) wf])
qed

end
