(* ===== verification/Nat_Slots.thy ===== *)
theory Nat_Slots
  imports Rte_Hash Nat_Rewrite
begin

text \<open>
  The slots of the NAT pools of \<open>nat_project/version4\<close> and \<open>version5\<close>: an array of
  \<open>struct nat_pool_entry\<close> (one per public address) and a hash table from a private
  address to a slot number. Slot numbers travel through C \<open>int\<close> and \<open>void *\<close> casts;
  \<open>to_int\<close> is the cast of a 32-bit index to \<open>int\<close>.

  \<open>slots_ok\<close> is the invariant: a table entry refers to a slot that is in use for exactly
  that private address. The lemmas give the effect of releasing idle slots.
\<close>

record nat_pool_entry =
  private_ip :: u32
  public_ip :: u32
  last_seen_tsc :: u64
  in_use :: bool

definition to_int :: "nat \<Rightarrow> int" where
  "to_int i = sint (of_nat i :: u32)"

lemma to_int_small: "i < 2147483648 \<Longrightarrow> to_int i = int i"
  by (simp add: to_int_def signed_of_nat signed_take_bit_int_eq_self)

lemma to_int_large:
  assumes "2147483648 \<le> i" "i < 4294967296"
  shows "to_int i = int i - 4294967296"
proof -
  have "int i div 2147483648 = 1" using assms by simp
  then have b: "bit (int i) 31" by (simp add: bit_iff_odd)
  have "take_bit 32 (int i) = int i" using assms by (simp add: take_bit_int_eq_self)
  with b show ?thesis by (simp add: to_int_def signed_of_nat signed_take_bit_eq_take_bit_minus)
qed

text \<open>A free or released slot.\<close>

definition clear_slot :: "nat_pool_entry \<Rightarrow> nat_pool_entry" where
  "clear_slot e = e\<lparr>private_ip := 0, last_seen_tsc := 0, in_use := False\<rparr>"

definition idle :: "u64 \<Rightarrow> u64 \<Rightarrow> nat_pool_entry \<Rightarrow> bool" where
  "idle now idle_tsc e \<longleftrightarrow> idle_tsc \<le> now - last_seen_tsc e"

text \<open>Removing slot \<open>i\<close> from the table and freeing it.\<close>

definition release_slot :: "('h, u32, nat) hash_api \<Rightarrow> nat \<Rightarrow> nat_pool_entry list \<times> 'h \<Rightarrow> nat_pool_entry list \<times> 'h" where
  "release_slot H i p = (case p of (es, h) \<Rightarrow>
     (es[i := clear_slot (es ! i)], snd (del_key H h (private_ip (es ! i)))))"

text \<open>The body of the expiry loop for slot \<open>i\<close>.\<close>

definition expire_slot :: "('h, u32, nat) hash_api \<Rightarrow> u64 \<Rightarrow> u64 \<Rightarrow> nat \<Rightarrow> nat_pool_entry list \<times> 'h
    \<Rightarrow> nat_pool_entry list \<times> 'h" where
  "expire_slot H now idle_tsc i p =
     (if \<not> in_use (fst p ! i) then p
      else if idle now idle_tsc (fst p ! i) then release_slot H i p
      else p)"

definition expire_slots :: "('h, u32, nat) hash_api \<Rightarrow> u64 \<Rightarrow> u64 \<Rightarrow> nat \<Rightarrow> nat_pool_entry list \<times> 'h
    \<Rightarrow> nat_pool_entry list \<times> 'h" where
  "expire_slots H now idle_tsc n p = fold (expire_slot H now idle_tsc) [0..<n] p"

definition slots_ok :: "('h, u32, nat) hash_api \<Rightarrow> nat_pool_entry list \<Rightarrow> 'h \<Rightarrow> bool" where
  "slots_ok H es h \<longleftrightarrow> hash_laws H \<and>
     all_entries (lookup_data H h) (\<lambda>k i. i < length es \<and> i < 2147483648 \<and> in_use (es ! i) \<and> private_ip (es ! i) = k)"

definition stale :: "u64 \<Rightarrow> u64 \<Rightarrow> nat_pool_entry \<Rightarrow> bool" where
  "stale now idle_tsc e \<longleftrightarrow> in_use e \<and> idle now idle_tsc e"

lemma expire_slot_eq:
  "expire_slot H now t i (es, h) =
     (if stale now t (es ! i)
      then (es[i := clear_slot (es ! i)], snd (del_key H h (private_ip (es ! i)))) else (es, h))"
  by (simp add: expire_slot_def stale_def release_slot_def)

text \<open>What the expiry loop computes: exactly the stale slots are cleared and unmapped.\<close>

lemma expire_slots_eff:
  assumes "hash_laws H" "n \<le> length es" "expire_slots H now t n (es, h) = (es', h')"
  shows "es' = map (\<lambda>i. if i < n \<and> stale now t (es ! i) then clear_slot (es ! i) else es ! i) [0..<length es]"
    "lookup_data H h' = (\<lambda>k. if \<exists>i<n. stale now t (es ! i) \<and> private_ip (es ! i) = k then None
       else lookup_data H h k)"
proof -
  have "es' = map (\<lambda>i. if i < n \<and> stale now t (es ! i) then clear_slot (es ! i) else es ! i) [0..<length es] \<and>
    lookup_data H h' = (\<lambda>k. if \<exists>i<n. stale now t (es ! i) \<and> private_ip (es ! i) = k then None
       else lookup_data H h k)"
    using assms(2,3)
  proof (induction n arbitrary: es' h')
    case 0
    then show ?case by (simp add: expire_slots_def map_nth)
  next
    case (Suc n)
    obtain es1 h1 where 1: "expire_slots H now t n (es, h) = (es1, h1)" by fastforce
    from Suc.IH [OF _ 1] Suc.prems(1)
    have e1: "es1 = map (\<lambda>i. if i < n \<and> stale now t (es ! i) then clear_slot (es ! i) else es ! i) [0..<length es]"
      and l1: "lookup_data H h1 = (\<lambda>k. if \<exists>i<n. stale now t (es ! i) \<and> private_ip (es ! i) = k then None
        else lookup_data H h k)" by simp_all
    have n: "n < length es" using Suc.prems(1) by simp
    have at: "es1 ! n = es ! n" using n by (simp add: e1)
    have 2: "(if stale now t (es ! n)
        then (es1[n := clear_slot (es ! n)], snd (del_key H h1 (private_ip (es ! n)))) else (es1, h1)) = (es', h')"
      using Suc.prems(2) 1 unfolding expire_slots_def by (simp add: expire_slot_eq at cong: if_cong)
    show ?case
    proof (cases "stale now t (es ! n)")
      case True
      have "es' = es1[n := clear_slot (es ! n)]" "h' = snd (del_key H h1 (private_ip (es ! n)))"
        using 2 True by simp_all
      with True n show ?thesis
        by (auto simp: e1 l1 lookup_del [OF assms(1)] less_Suc_eq fun_eq_iff nth_upd intro!: nth_equalityI)
    next
      case False
      then have "es' = es1" "h' = h1" using 2 by simp_all
      with False show ?thesis by (auto simp: e1 l1 less_Suc_eq fun_eq_iff)
    qed
  qed
  then show "es' = map (\<lambda>i. if i < n \<and> stale now t (es ! i) then clear_slot (es ! i) else es ! i) [0..<length es]"
    "lookup_data H h' = (\<lambda>k. if \<exists>i<n. stale now t (es ! i) \<and> private_ip (es ! i) = k then None
       else lookup_data H h k)" by simp_all
qed

lemma expire_slots_ok:
  assumes "slots_ok H es h" "expire_slots H now t (length es) (es, h) = (es', h')"
  shows "slots_ok H es' h'" "length es' = length es"
    "\<And>i. i < length es \<Longrightarrow> public_ip (es' ! i) = public_ip (es ! i)"
proof -
  have laws: "hash_laws H" using assms(1) by (simp add: slots_ok_def)
  note eff = expire_slots_eff [OF laws order.refl assms(2)]
  show "length es' = length es" by (simp add: eff(1))
  show "public_ip (es' ! i) = public_ip (es ! i)" if "i < length es" for i
    using that by (simp add: eff(1) clear_slot_def)
  show "slots_ok H es' h'"
    using assms(1) unfolding slots_ok_def all_entries_def eff by auto
qed

lemma slots_ok_reset: "hash_laws H \<Longrightarrow> slots_ok H es' (hash_reset H h)"
  by (simp add: slots_ok_def lookup_reset)

lemma slots_ok_D:
  assumes "slots_ok H es h" "lookup_data H h k = Some i"
  shows "i < length es" "i < 2147483648" "in_use (es ! i)" "private_ip (es ! i) = k" "to_int i = int i"
  using all_entriesD [OF conjunct2 [OF assms(1) [unfolded slots_ok_def]] assms(2)] to_int_small [of i] by simp_all

text \<open>Touching a slot that stays in use for its address.\<close>

lemma slots_ok_touch:
  assumes "slots_ok H es h" "in_use e = in_use (es ! i)" "private_ip e = private_ip (es ! i)"
  shows "slots_ok H (es[i := e]) h"
  using assms unfolding slots_ok_def all_entries_def by (auto simp: nth_upd)

text \<open>Giving a free slot to a private address that has no slot yet.\<close>

lemma slots_ok_assign:
  assumes "slots_ok H es h" "i < length es" "i < 2147483648" "\<not> in_use (es ! i)" "in_use e" "private_ip e = k"
  shows "slots_ok H (es[i := e]) (snd (add_key_data H h k i))"
proof -
  have laws: "hash_laws H" using assms(1) by (simp add: slots_ok_def)
  have "all_entries (lookup_data H h) (\<lambda>k' j. j < length (es[i := e]) \<and> j < 2147483648 \<and>
      in_use (es[i := e] ! j) \<and> private_ip (es[i := e] ! j) = k')"
    using assms(1,4) unfolding slots_ok_def all_entries_def by (auto simp: nth_upd)
  from entries_add [OF laws this, of i k] assms(2,3,5,6) laws show ?thesis by (simp add: slots_ok_def)
qed

text \<open>The address a pool gives to slot \<open>i\<close>; the addresses of different slots differ.\<close>

definition pool_ip :: "u32 \<Rightarrow> nat \<Rightarrow> u32" where
  "pool_ip start i = bswap32 (start + of_nat i)"

lemma pool_ip_inject:
  assumes "i < 4294967296" "j < 4294967296" "pool_ip start i = pool_ip start j"
  shows "i = j"
proof -
  have "(of_nat i :: u32) = of_nat j" using assms(3) by (simp add: pool_ip_def)
  then have "unat (of_nat i :: u32) = unat (of_nat j :: u32)" by simp
  with assms(1,2) show ?thesis by simp
qed

end
