(* ===== verification/Cstdio.thy ===== *)
theory Cstdio
  imports Prelude
begin

text \<open>
  What the configuration readers use of the C library: \<open>fgets\<close> with a buffer size, the
  \<open>%s\<close> (with a field width) and \<open>%u\<close> conversions of \<open>sscanf\<close>, \<open>inet_pton\<close>
  and \<open>inet_ntop\<close> for \<open>AF_INET\<close>. A file is the list of its characters. Addresses
  are in network order: the first octet is the lowest byte in memory.

  \<open>inet_pton_ntop\<close> and the lemmas on scanning a printed line are the round trip that the
  configuration theorems use.
\<close>

definition NL :: char where "NL = CHR 0x0A"

definition isspace :: "char \<Rightarrow> bool" where
  "isspace c \<longleftrightarrow> c = CHR '' '' \<or> (9 \<le> (of_char c :: nat) \<and> (of_char c :: nat) \<le> 13)"

definition isdigit :: "char \<Rightarrow> bool" where
  "isdigit c \<longleftrightarrow> 48 \<le> (of_char c :: nat) \<and> (of_char c :: nat) \<le> 57"

subsection \<open>fgets\<close>

fun line_of :: "nat \<Rightarrow> string \<Rightarrow> string \<times> string" where
  "line_of 0 s = ([], s)"
| "line_of (Suc n) [] = ([], [])"
| "line_of (Suc n) (c # cs) =
     (if c = NL then ([c], cs) else (case line_of n cs of (l, r) \<Rightarrow> (c # l, r)))"

definition fgets :: "nat \<Rightarrow> string \<Rightarrow> (string \<times> string) option" where
  "fgets n s = (if s = [] then None else Some (line_of (n - 1) s))"

lemma line_of_split: "line_of n s = (l, r) \<Longrightarrow> s = l @ r"
  by (induction n s arbitrary: l r rule: line_of.induct) (auto split: if_splits prod.splits)

lemma fgets_shorter: "fgets n s = Some (l, r) \<Longrightarrow> 1 < n \<Longrightarrow> length r < length s"
proof -
  assume f: "fgets n s = Some (l, r)" and n: "1 < n"
  then obtain c cs where s: "s = c # cs" by (cases s) (auto simp: fgets_def)
  obtain k where k: "n - 1 = Suc k" using n by (cases "n - 1") auto
  from f have "line_of (n - 1) s = (l, r)" by (auto simp: fgets_def split: if_splits)
  then have "line_of (Suc k) (c # cs) = (l, r)" unfolding k s .
  then have "l \<noteq> []" by (auto split: if_splits prod.splits)
  moreover have "s = l @ r" using \<open>line_of (n - 1) s = (l, r)\<close> by (rule line_of_split)
  ultimately show "length r < length s" by (cases l) auto
qed

lemma line_of_line:
  assumes "NL \<notin> set l" "length l < n"
  shows "line_of n (l @ NL # r) = (l @ [NL], r)"
  using assms
proof (induction l arbitrary: n)
  case Nil
  then show ?case by (cases n) auto
next
  case (Cons c l)
  then show ?case by (cases n) auto
qed

subsection \<open>sscanf conversions\<close>

definition c_str :: "string \<Rightarrow> string" where
  "c_str s = takeWhile (\<lambda>c. c \<noteq> CHR 0x00) s"

fun take_tok :: "nat \<Rightarrow> string \<Rightarrow> string \<times> string" where
  "take_tok 0 s = ([], s)"
| "take_tok (Suc n) [] = ([], [])"
| "take_tok (Suc n) (c # cs) =
     (if isspace c then ([], c # cs) else (case take_tok n cs of (t, r) \<Rightarrow> (c # t, r)))"

definition scan_s :: "nat \<Rightarrow> string \<Rightarrow> (string \<times> string) option" where
  "scan_s n s = (case take_tok n (dropWhile isspace s) of (t, r) \<Rightarrow> if t = [] then None else Some (t, r))"

definition dec_val :: "string \<Rightarrow> nat" where
  "dec_val s = foldl (\<lambda>v c. 10 * v + (of_char c - 48)) 0 s"

text \<open>\<open>%u\<close>: optional sign and digits, \<open>strtoul\<close> saturating at \<open>ULONG_MAX\<close>, stored in 32 bits.\<close>

definition scan_u :: "string \<Rightarrow> u32 option" where
  "scan_u s =
     (let s1 = dropWhile isspace s;
          neg = (s1 \<noteq> [] \<and> hd s1 = CHR ''-'');
          s2 = (if s1 \<noteq> [] \<and> (hd s1 = CHR ''-'' \<or> hd s1 = CHR ''+'') then tl s1 else s1);
          ds = takeWhile isdigit s2;
          v = dec_val ds
      in if ds = [] then None
         else if 2 ^ 64 \<le> v then Some (- 1)
         else Some (if neg then - of_nat v else of_nat v))"

definition sscanf_ss :: "nat \<Rightarrow> string \<Rightarrow> (string \<times> string) option" where
  "sscanf_ss n line =
     (case scan_s n (c_str line) of None \<Rightarrow> None
      | Some (a, r) \<Rightarrow> (case scan_s n r of None \<Rightarrow> None | Some (b, _) \<Rightarrow> Some (a, b)))"

definition sscanf_su :: "nat \<Rightarrow> string \<Rightarrow> (string \<times> u32) option" where
  "sscanf_su n line =
     (case scan_s n (c_str line) of None \<Rightarrow> None
      | Some (a, r) \<Rightarrow> (case scan_u r of None \<Rightarrow> None | Some v \<Rightarrow> Some (a, v)))"

subsection \<open>inet_pton and inet_ntop\<close>

fun split_dot :: "string \<Rightarrow> string list" where
  "split_dot [] = [[]]"
| "split_dot (c # cs) = (if c = CHR ''.'' then [] # split_dot cs
     else (case split_dot cs of [] \<Rightarrow> [[c]] | t # ts \<Rightarrow> (c # t) # ts))"

definition octet :: "string \<Rightarrow> u8 option" where
  "octet s = (if s = [] \<or> \<not> list_all isdigit s \<or> (length s > 1 \<and> hd s = CHR ''0'') \<or> 255 < dec_val s
     then None else Some (of_nat (dec_val s)))"

definition inet_pton :: "string \<Rightarrow> u32 option" where
  "inet_pton s = (case split_dot s of
     [a, b, c, d] \<Rightarrow> (case (octet a, octet b, octet c, octet d) of
        (Some w, Some x, Some y, Some z) \<Rightarrow> Some (make32 w x y z) | _ \<Rightarrow> None)
   | _ \<Rightarrow> None)"

definition digit :: "nat \<Rightarrow> char" where
  "digit n = char_of (48 + n)"

fun show_nat :: "nat \<Rightarrow> string" where
  "show_nat n = (if n < 10 then [digit n] else show_nat (n div 10) @ [digit (n mod 10)])"

definition show_octet :: "u8 \<Rightarrow> string" where
  "show_octet b = (let n = unat b in
     if n < 10 then [digit n]
     else if n < 100 then [digit (n div 10), digit (n mod 10)]
     else [digit (n div 100), digit (n div 10 mod 10), digit (n mod 10)])"

definition inet_ntop :: "u32 \<Rightarrow> string" where
  "inet_ntop a = show_octet (byte32 0 a) @ CHR ''.'' # show_octet (byte32 1 a) @ CHR ''.'' #
     show_octet (byte32 2 a) @ CHR ''.'' # show_octet (byte32 3 a)"

lemma of_char_digit [simp]: "n < 10 \<Longrightarrow> of_char (digit n) = 48 + n"
  by (simp add: digit_def)

lemma digit_class [simp]:
  "n < 10 \<Longrightarrow> isdigit (digit n)" "n < 10 \<Longrightarrow> \<not> isspace (digit n)" "n < 10 \<Longrightarrow> digit n \<noteq> CHR ''.''"
  "n < 10 \<Longrightarrow> digit n \<noteq> NL" "n < 10 \<Longrightarrow> digit n \<noteq> CHR 0x00" "n < 10 \<Longrightarrow> digit n \<noteq> CHR ''#''"
  "n < 10 \<Longrightarrow> digit n = CHR ''0'' \<longleftrightarrow> n = 0"
proof -
  assume n: "n < 10"
  have ne: "digit n \<noteq> c" if "of_char c \<noteq> 48 + n" for c
    using that of_char_digit [OF n] by metis
  show "isdigit (digit n)" using n by (simp add: isdigit_def)
  show "\<not> isspace (digit n)" using n ne [of "CHR '' ''"] by (simp add: isspace_def)
  show "digit n \<noteq> CHR ''.''" "digit n \<noteq> NL" "digit n \<noteq> CHR 0x00" "digit n \<noteq> CHR ''#''"
    by (rule ne, simp add: NL_def)+
  show "digit n = CHR ''0'' \<longleftrightarrow> n = 0"
  proof
    assume "digit n = CHR ''0''"
    then have "48 + n = of_char (CHR ''0'')" using of_char_digit [OF n] by metis
    then show "n = 0" by simp
  next
    assume "n = 0"
    then have "of_char (digit n) = (of_char (CHR ''0'') :: nat)" by simp
    then show "digit n = CHR ''0''" by (simp only: of_char_eq_iff)
  qed
qed

text \<open>The characters of a printed octet.\<close>

lemma show_octet_chars:
  "show_octet b \<noteq> []" "length (show_octet b) \<le> 3" "\<forall>c\<in>set (show_octet b). \<exists>n<10. c = digit n"
proof -
  have n: "unat b < 256" by (rule unat_u8_less)
  then have d: "unat b div 100 < 10" "unat b div 10 mod 10 < 10" "unat b mod 10 < 10" by auto
  show "show_octet b \<noteq> []" "length (show_octet b) \<le> 3" by (simp_all add: show_octet_def Let_def)
  have e: "\<exists>n<10. digit k = digit n" if "k < 10" for k using that by blast
  show "\<forall>c\<in>set (show_octet b). \<exists>n<10. c = digit n"
    using d by (auto simp: show_octet_def Let_def intro!: e)
qed

lemma octet_show: "octet (show_octet b) = Some b"
proof -
  let ?n = "unat b"
  have n: "?n < 256" by (rule unat_u8_less)
  then have d: "?n div 100 < 10" "?n div 10 mod 10 < 10" "?n mod 10 < 10" by auto
  have b: "(of_nat ?n :: u8) = b" by simp
  consider "?n < 10" | "10 \<le> ?n" "?n < 100" | "100 \<le> ?n" by linarith
  then show ?thesis
  proof cases
    case 1
    then show ?thesis by (simp add: octet_def show_octet_def dec_val_def b)
  next
    case 2
    then have "?n div 10 < 10" "?n div 10 \<noteq> 0" by (auto simp: div_eq_0_iff)
    moreover have "10 * (?n div 10) + ?n mod 10 = ?n" by simp
    ultimately show ?thesis using 2 n d
      by (simp add: octet_def show_octet_def dec_val_def b Let_def)
  next
    case 3
    then have "?n div 100 \<noteq> 0" by (auto simp: div_eq_0_iff)
    moreover have "100 * (?n div 100) + (10 * (?n div 10 mod 10) + ?n mod 10) = ?n"
    proof -
      have "?n div 100 = ?n div 10 div 10" by (simp add: div_mult2_eq [symmetric])
      then have "10 * (?n div 100) + ?n div 10 mod 10 = ?n div 10" by simp
      then show ?thesis using mult_div_mod_eq [of 10 ?n] by linarith
    qed
    ultimately show ?thesis using 3 n d
      by (simp add: octet_def show_octet_def dec_val_def b Let_def algebra_simps)
  qed
qed

lemma split_dot_app: "CHR ''.'' \<notin> set t \<Longrightarrow> split_dot (t @ CHR ''.'' # s) = t # split_dot s"
  by (induction t) auto

lemma split_dot_last: "CHR ''.'' \<notin> set t \<Longrightarrow> split_dot t = [t]"
  by (induction t) auto

lemma show_octet_no_dot: "CHR ''.'' \<notin> set (show_octet b)"
proof
  assume "CHR ''.'' \<in> set (show_octet b)"
  then obtain n where "n < 10" "CHR ''.'' = digit n" using show_octet_chars(3) [of b] by blast
  with digit_class(3) [of n] show False by simp
qed

lemma inet_pton_ntop: "inet_pton (inet_ntop a) = Some a"
  by (simp add: inet_pton_def inet_ntop_def split_dot_app split_dot_last show_octet_no_dot octet_show)

text \<open>A printed address is one token of at most 15 characters.\<close>

lemma inet_ntop_token:
  "inet_ntop a \<noteq> []" "length (inet_ntop a) \<le> 15"
  "\<forall>c\<in>set (inet_ntop a). \<not> isspace c \<and> c \<noteq> NL \<and> c \<noteq> CHR 0x00 \<and> c \<noteq> CHR ''#''"
proof -
  show "inet_ntop a \<noteq> []" by (simp add: inet_ntop_def)
  show "length (inet_ntop a) \<le> 15"
    using show_octet_chars(2) [of "byte32 0 a"] show_octet_chars(2) [of "byte32 1 a"]
      show_octet_chars(2) [of "byte32 2 a"] show_octet_chars(2) [of "byte32 3 a"]
    by (simp add: inet_ntop_def)
  have o: "\<not> isspace c \<and> c \<noteq> NL \<and> c \<noteq> CHR 0x00 \<and> c \<noteq> CHR ''#''" if "c \<in> set (show_octet b)" for c b
  proof -
    from bspec [OF show_octet_chars(3) that] obtain n where "n < 10" "c = digit n" by (elim exE conjE)
    then show ?thesis by simp
  qed
  have d: "\<not> isspace (CHR ''.'') \<and> CHR ''.'' \<noteq> NL" by (simp add: isspace_def NL_def)
  show "\<forall>c\<in>set (inet_ntop a). \<not> isspace c \<and> c \<noteq> NL \<and> c \<noteq> CHR 0x00 \<and> c \<noteq> CHR ''#''"
    using o d by (auto simp: inet_ntop_def)
qed

lemma take_tok_app:
  assumes "\<forall>c\<in>set t. \<not> isspace c" "length t \<le> n" "r = [] \<or> isspace (hd r)"
  shows "take_tok n (t @ r) = (t, r)"
  using assms
proof (induction t arbitrary: n)
  case Nil
  then show ?case by (cases n; cases r) auto
next
  case (Cons c t)
  then show ?case by (cases n) auto
qed

lemma scan_s_app:
  assumes "t \<noteq> []" "\<forall>c\<in>set t. \<not> isspace c" "length t \<le> n" "r = [] \<or> isspace (hd r)" "\<forall>c\<in>set w. isspace c"
  shows "scan_s n (w @ t @ r) = Some (t, r)"
proof -
  have "dropWhile isspace (w @ t @ r) = t @ r"
    using assms(1,2,5) by (cases t) (auto simp: dropWhile_append)
  then show ?thesis using assms take_tok_app by (simp add: scan_s_def)
qed

text \<open>The line \<open>"a.b.c.d e.f.g.h\n"\<close> and what the readers get from it.\<close>

definition config_line :: "u32 \<times> u32 \<Rightarrow> string" where
  "config_line p = inet_ntop (fst p) @ CHR '' '' # inet_ntop (snd p)"

lemma config_line_chars:
  "config_line p \<noteq> []" "hd (config_line p) \<noteq> NL" "hd (config_line p) \<noteq> CHR ''#''" "length (config_line p) \<le> 31"
  "NL \<notin> set (config_line p)" "CHR 0x00 \<notin> set (config_line p)"
proof -
  obtain c cs where c: "inet_ntop (fst p) = c # cs" using inet_ntop_token(1) [of "fst p"] by (cases "inet_ntop (fst p)") auto
  then have "c \<in> set (inet_ntop (fst p))" by simp
  with c inet_ntop_token(3) [of "fst p"] show "config_line p \<noteq> []" "hd (config_line p) \<noteq> NL" "hd (config_line p) \<noteq> CHR ''#''"
    by (auto simp: config_line_def)
  show "length (config_line p) \<le> 31"
    using inet_ntop_token(2) [of "fst p"] inet_ntop_token(2) [of "snd p"] by (simp add: config_line_def)
  show "NL \<notin> set (config_line p)" "CHR 0x00 \<notin> set (config_line p)"
    using inet_ntop_token(3) [of "fst p"] inet_ntop_token(3) [of "snd p"] by (auto simp: config_line_def NL_def)
qed

lemma sscanf_config_line: "sscanf_ss 31 (config_line p @ [NL]) = Some (inet_ntop (fst p), inet_ntop (snd p))"
proof -
  let ?a = "inet_ntop (fst p)" and ?b = "inet_ntop (snd p)"
  have ns: "\<forall>c\<in>set ?a. \<not> isspace c" "\<forall>c\<in>set ?b. \<not> isspace c"
    using inet_ntop_token(3) [of "fst p"] inet_ntop_token(3) [of "snd p"] by simp_all
  have len: "length ?a \<le> 31" "length ?b \<le> 31"
    using inet_ntop_token(2) [of "fst p"] inet_ntop_token(2) [of "snd p"] by simp_all
  have "c_str (config_line p @ [NL]) = config_line p @ [NL]"
    using config_line_chars(6) [of p] unfolding c_str_def
    by (intro takeWhile_eq_all_conv [THEN iffD2]) (auto simp: NL_def)
  then have s: "c_str (config_line p @ [NL]) = [] @ ?a @ (CHR '' '' # ?b @ [NL])"
    by (simp add: config_line_def)
  have 1: "scan_s 31 ([] @ ?a @ (CHR '' '' # ?b @ [NL])) = Some (?a, CHR '' '' # ?b @ [NL])"
    by (rule scan_s_app [OF inet_ntop_token(1) ns(1) len(1)]) (simp_all add: isspace_def)
  have 2: "scan_s 31 ([CHR '' ''] @ ?b @ [NL]) = Some (?b, [NL])"
    by (rule scan_s_app [OF inet_ntop_token(1) ns(2) len(2)]) (simp_all add: isspace_def NL_def)
  show ?thesis using 1 2 by (simp add: sscanf_ss_def s)
qed

end
