(* ===== verification/Nat_Pool.thy ===== *)
theory Nat_Pool
  imports Nat_Slots Rte_Timer Burst Cstdio Eal
begin

text \<open>
  The pool NAT of \<open>nat_project/version5\<close>: \<open>static_nat.c\<close>, \<open>config.c\<close> and the loop
  of \<open>main.c\<close>. Private sources are given public addresses from a pool (one slot each),
  idle slots are released by a periodic timer, the whole outbound table is dropped by a
  second timer after ten seconds without traffic, and a static table translates inbound
  destinations.

  The two tables, the timers, the checksum helpers, the clock and \<open>malloc\<close> are the
  environment. \<open>struct nat_inbound_entry\<close> objects are immutable and never freed, so the
  inbound table holds their value. A slot number read from the table indexes the array of
  slots; an index out of range is undefined behaviour (\<open>None\<close>).
\<close>

abbreviation (input) IDLE_TIMEOUT_SEC :: u64 where "IDLE_TIMEOUT_SEC \<equiv> 5"
abbreviation (input) TABLE_TIMEOUT_SEC :: u64 where "TABLE_TIMEOUT_SEC \<equiv> 10"
abbreviation (input) EXPIRY_INTERVAL_SEC :: u64 where "EXPIRY_INTERVAL_SEC \<equiv> 1"
abbreviation (input) MAX_INBOUND_ENTRIES :: nat where "MAX_INBOUND_ENTRIES \<equiv> 256"

record nat_inbound_entry =
  in_public_ip :: u32
  in_private_ip :: u32

datatype pool_timer = Expiry_timer | Table_timer

record ('h, 'g, 't) pool_env =
  out_hash :: "('h, u32, nat) hash_api"
  in_hash :: "('g, u32, nat_inbound_entry) hash_api"
  p_timer :: "('t, pool_timer) timer_api"
  p_cksum :: cksum_api
  p_tsc :: "nat \<Rightarrow> u64"
  p_hz :: u64
  in_malloc :: "'g \<Rightarrow> nat_inbound_entry option"

record ('h, 'g, 't) nat_pool =
  entries :: "nat_pool_entry list"
  pool_start_ip :: u32
  pool_size :: u32
  idle_tsc :: u64
  outbound_map :: 'h
  inbound_map :: 'g
  started :: bool
  timers :: 't
  reads :: nat

subsection \<open>Operations of static_nat.c\<close>

text \<open>
  \<open>nat_pool_create\<close>. The address is the bytes \<open>inet_pton\<close> wrote, or what the stack held
  (\<open>junk\<close>) if it rejected the text. Allocation and table creation either succeed (their
  results are arguments) or end the program: \<open>None\<close>.
\<close>

definition nat_pool_create :: "('h, 'g, 't) pool_env \<Rightarrow> u32 \<Rightarrow> bool \<Rightarrow> 'h option \<Rightarrow> 'g option \<Rightarrow> 't \<Rightarrow> nat \<Rightarrow>
    string \<Rightarrow> u32 \<Rightarrow> u64 \<Rightarrow> ('h, 'g, 't) nat_pool option" where
  "nat_pool_create E junk alloc_ok out_tab in_tab t n start_ip rng hz =
     (if \<not> alloc_ok then None
      else
        (case out_tab of None \<Rightarrow> None
         | Some h \<Rightarrow>
             (case in_tab of None \<Rightarrow> None
              | Some g \<Rightarrow>
                  (let addr = (case inet_pton start_ip of None \<Rightarrow> junk | Some a \<Rightarrow> a);
                       start = bswap32 addr
                   in Some \<lparr>entries = map (\<lambda>i. \<lparr>private_ip = 0, public_ip = pool_ip start i,
                              last_seen_tsc = 0, in_use = False\<rparr>) [0..<unat rng],
                       pool_start_ip = start, pool_size = rng, idle_tsc = hz * IDLE_TIMEOUT_SEC,
                       outbound_map = h, inbound_map = g, started = False,
                       timers = tm_reset (p_timer E) t (p_tsc E n) Expiry_timer (hz * EXPIRY_INTERVAL_SEC) True,
                       reads = Suc n\<rparr>))))"

definition expiry_timer_cb :: "('h, 'g, 't) pool_env \<Rightarrow> ('h, 'g, 't) nat_pool \<Rightarrow> ('h, 'g, 't) nat_pool" where
  "expiry_timer_cb E p =
     (case expire_slots (out_hash E) (p_tsc E (reads p)) (idle_tsc p) (unat (pool_size p)) (entries p, outbound_map p) of
        (es, h) \<Rightarrow> p\<lparr>entries := es, outbound_map := h, reads := Suc (reads p)\<rparr>)"

definition clear_slots :: "nat \<Rightarrow> nat_pool_entry list \<Rightarrow> nat_pool_entry list" where
  "clear_slots n es = fold (\<lambda>i es. es[i := clear_slot (es ! i)]) [0..<n] es"

definition table_timer_cb :: "('h, 'g, 't) pool_env \<Rightarrow> ('h, 'g, 't) nat_pool \<Rightarrow> ('h, 'g, 't) nat_pool" where
  "table_timer_cb E p = p\<lparr>entries := clear_slots (unat (pool_size p)) (entries p),
     outbound_map := hash_reset (out_hash E) (outbound_map p), started := False\<rparr>"

definition nat_table_timer_arm :: "('h, 'g, 't) pool_env \<Rightarrow> u64 \<Rightarrow> u64 \<Rightarrow> ('h, 'g, 't) nat_pool \<Rightarrow> ('h, 'g, 't) nat_pool" where
  "nat_table_timer_arm E hz timeout_sec p =
     p\<lparr>timers := tm_reset (p_timer E) (timers p) (p_tsc E (reads p)) Table_timer (hz * timeout_sec) False,
       reads := Suc (reads p)\<rparr>"

definition nat_pool_reset :: "('h, 'g, 't) pool_env \<Rightarrow> ('h, 'g, 't) nat_pool \<Rightarrow> ('h, 'g, 't) nat_pool" where
  "nat_pool_reset E p = p\<lparr>timers := tm_stop (p_timer E) (timers p) Table_timer,
     entries := clear_slots (unat (pool_size p)) (entries p),
     outbound_map := hash_reset (out_hash E) (outbound_map p), started := False\<rparr>"

definition nat_inbound_add :: "('h, 'g, 't) pool_env \<Rightarrow> ('h, 'g, 't) nat_pool \<Rightarrow> string \<Rightarrow> string
    \<Rightarrow> string + ('h, 'g, 't) nat_pool" where
  "nat_inbound_add E p public private =
     (case in_malloc E (inbound_map p) of None \<Rightarrow> Inl ''Failed to allocate inbound NAT entry''
      | Some e0 \<Rightarrow>
          (let e1 = (case inet_pton public of None \<Rightarrow> e0 | Some a \<Rightarrow> e0\<lparr>in_public_ip := a\<rparr>);
               entry = (case inet_pton private of None \<Rightarrow> e1 | Some a \<Rightarrow> e1\<lparr>in_private_ip := a\<rparr>);
               (ret, g) = add_key_data (in_hash E) (inbound_map p) (in_public_ip entry) entry
           in if ret < 0 then Inl ''Failed to add inbound mapping'' else Inr (p\<lparr>inbound_map := g\<rparr>)))"

function inbound_lines :: "('h, 'g, 't) pool_env \<Rightarrow> string \<Rightarrow> ('h, 'g, 't) nat_pool \<Rightarrow> string + ('h, 'g, 't) nat_pool" where
  "inbound_lines E f p =
     (case fgets 64 f of None \<Rightarrow> Inr p
      | Some (line, f') \<Rightarrow>
          if hd line = NL \<or> hd line = CHR ''#'' then inbound_lines E f' p
          else
            (case sscanf_ss 31 line of None \<Rightarrow> inbound_lines E f' p
             | Some (public, private) \<Rightarrow>
                 (case nat_inbound_add E p public private of Inl msg \<Rightarrow> Inl msg
                  | Inr p' \<Rightarrow> inbound_lines E f' p')))"
  by pat_completeness auto
termination
  by (relation "measure (\<lambda>(E, f, p). length f)") (auto dest: fgets_shorter)

declare inbound_lines.simps [simp del]

definition nat_inbound_load_from_file :: "('h, 'g, 't) pool_env \<Rightarrow> ('h, 'g, 't) nat_pool \<Rightarrow> string option
    \<Rightarrow> string + ('h, 'g, 't) nat_pool" where
  "nat_inbound_load_from_file E p file = (case file of None \<Rightarrow> Inr p | Some f \<Rightarrow> inbound_lines E f p)"

definition find_free_slot :: "('h, 'g, 't) nat_pool \<Rightarrow> int" where
  "find_free_slot p =
     (case find (\<lambda>i. \<not> in_use (entries p ! i)) [0..<unat (pool_size p)] of None \<Rightarrow> -1 | Some i \<Rightarrow> to_int i)"

text \<open>One round of \<open>nat_pool_apply\<close>; the flag says whether the packet is kept.\<close>

definition pool_packet :: "('h, 'g, 't) pool_env \<Rightarrow> ('h, 'g, 't) nat_pool handler" where
  "pool_packet E p m =
     (if \<not> is_ipv4 m then Some (p, m, True)
      else
        (case lookup_data (in_hash E) (inbound_map p) (rd32 m (ETHER_HDR + O_DST)) of
           Some entry \<Rightarrow> Some (p, rewrite_and_recalc (p_cksum E) m (in_private_ip entry) False, True)
         | None \<Rightarrow>
             (case lookup_data (out_hash E) (outbound_map p) (rd32 m (ETHER_HDR + O_SRC)) of
                Some data \<Rightarrow>
                  (let slot = to_int data; i = nat slot
                   in if slot < 0 \<or> length (entries p) \<le> i then None
                      else
                        Some (p\<lparr>entries := (entries p)[i := (entries p ! i)\<lparr>last_seen_tsc := p_tsc E (reads p)\<rparr>],
                                reads := Suc (reads p)\<rparr>,
                              rewrite_and_recalc (p_cksum E) m (public_ip (entries p ! i)) True, True))
              | None \<Rightarrow>
                  (let slot = find_free_slot p; i = nat slot; src = rd32 m (ETHER_HDR + O_SRC)
                   in if slot < 0 then Some (p, m, False)
                      else if length (entries p) \<le> i then None
                      else
                        Some (p\<lparr>entries := (entries p)[i := (entries p ! i)\<lparr>private_ip := src, in_use := True,
                                  last_seen_tsc := p_tsc E (reads p)\<rparr>],
                                reads := Suc (reads p),
                                outbound_map := snd (add_key_data (out_hash E) (outbound_map p) src i)\<rparr>,
                              rewrite_and_recalc (p_cksum E) m (public_ip (entries p ! i)) True, True)))))"

text \<open>The array after the call: a dropped packet was freed and its slot set to \<open>NULL\<close>.\<close>

definition nat_pool_apply :: "('h, 'g, 't) pool_env \<Rightarrow> ('h, 'g, 't) nat_pool \<Rightarrow> mbuf list
    \<Rightarrow> (('h, 'g, 't) nat_pool \<times> mbuf option list \<times> mbuf list) option" where
  "nat_pool_apply E p bufs = apply_null (pool_packet E) p bufs"

text \<open>The report: the inbound pairs, and the used and free slots with their addresses.\<close>

definition nat_pool_dump :: "('h, 'g, 't) pool_env \<Rightarrow> ('h, 'g, 't) nat_pool
    \<Rightarrow> (string \<times> string) list \<times> nat \<times> nat \<times> (nat \<times> string \<times> string) list" where
  "nat_pool_dump E p =
     (let inb = map (\<lambda>(_, e). (inet_ntop (in_public_ip e), inet_ntop (in_private_ip e))) (hash_iterate (in_hash E) (inbound_map p));
          used = length (filter (\<lambda>i. in_use (entries p ! i)) [0..<unat (pool_size p)])
      in (inb, used, unat (pool_size p) - used,
          map (\<lambda>i. (i, inet_ntop (private_ip (entries p ! i)), inet_ntop (public_ip (entries p ! i))))
            (filter (\<lambda>i. in_use (entries p ! i)) [0..<unat (pool_size p)])))"

subsection \<open>config.c\<close>

text \<open>The first line that scans as an address and a number is the configuration.\<close>

function pool_config :: "string \<Rightarrow> (string \<times> u32) option" where
  "pool_config f =
     (case fgets 64 f of None \<Rightarrow> None
      | Some (line, f') \<Rightarrow>
          if hd line = NL \<or> hd line = CHR ''#'' then pool_config f'
          else (case sscanf_su 31 line of None \<Rightarrow> pool_config f' | Some c \<Rightarrow> Some c))"
  by pat_completeness auto
termination
  by (relation "measure length") (auto dest: fgets_shorter)

declare pool_config.simps [simp del]

text \<open>\<open>nat_load_from_file\<close>: what it passes to \<open>nat_pool_create\<close>, or \<open>None\<close> for \<open>NULL\<close>.\<close>

definition nat_load_from_file :: "string option \<Rightarrow> (string \<times> u32) option" where
  "nat_load_from_file file =
     (case file of None \<Rightarrow> None
      | Some f \<Rightarrow> (case pool_config f of None \<Rightarrow> None | Some (ip, rng) \<Rightarrow> if rng = 0 then None else Some (ip, rng)))"

subsection \<open>main.c\<close>

fun run_timers :: "('h, 'g, 't) pool_env \<Rightarrow> pool_timer list \<Rightarrow> ('h, 'g, 't) nat_pool \<Rightarrow> ('h, 'g, 't) nat_pool" where
  "run_timers E [] p = p"
| "run_timers E (Expiry_timer # ts) p = run_timers E ts (expiry_timer_cb E p)"
| "run_timers E (Table_timer # ts) p = run_timers E ts (table_timer_cb E p)"

definition pool_timer_manage :: "('h, 'g, 't) pool_env \<Rightarrow> ('h, 'g, 't) nat_pool \<Rightarrow> ('h, 'g, 't) nat_pool" where
  "pool_timer_manage E p =
     (case tm_manage (p_timer E) (timers p) (p_tsc E (reads p)) of
        (ts, t) \<Rightarrow> run_timers E ts (p\<lparr>timers := t, reads := Suc (reads p)\<rparr>))"

text \<open>One iteration: each kept packet is sent on its own and the result of the send is ignored.\<close>

definition pool_iter :: "('h, 'g, 't) pool_env \<Rightarrow> (mbuf list \<Rightarrow> nat) \<Rightarrow> ('h, 'g, 't) nat_pool \<Rightarrow> mbuf list
    \<Rightarrow> (('h, 'g, 't) nat_pool \<times> io) option" where
  "pool_iter E tx p rx =
     (let p1 = pool_timer_manage E p
      in if rx = [] then Some (p1, \<lparr>sent = [], freed = []\<rparr>)
         else
           (let p2 = (if started p1 then p1 else p1\<lparr>started := True\<rparr>);
                p3 = nat_table_timer_arm E (p_hz E) TABLE_TIMEOUT_SEC p2
            in case nat_pool_apply E p3 rx of None \<Rightarrow> None
               | Some (p4, bufs, fr) \<Rightarrow> Some (p4, \<lparr>sent = tx_each tx (List.map_filter id bufs), freed = fr\<rparr>)))"

fun pool_loop :: "('h, 'g, 't) pool_env \<Rightarrow> (mbuf list \<Rightarrow> nat) \<Rightarrow> ('h, 'g, 't) nat_pool \<Rightarrow> mbuf list list
    \<Rightarrow> (('h, 'g, 't) nat_pool \<times> io list) option" where
  "pool_loop E tx p [] = Some (p, [])"
| "pool_loop E tx p (rx # rxs) =
     (case pool_iter E tx p rx of None \<Rightarrow> None
      | Some (p1, x) \<Rightarrow> map_option (\<lambda>(p2, xs). (p2, x # xs)) (pool_loop E tx p1 rxs))"

subsection \<open>The invariant\<close>

definition pool_inv :: "('h, 'g, 't) pool_env \<Rightarrow> ('h, 'g, 't) nat_pool \<Rightarrow> bool" where
  "pool_inv E p \<longleftrightarrow> slots_ok (out_hash E) (entries p) (outbound_map p) \<and>
     length (entries p) = unat (pool_size p) \<and>
     (\<forall>i < length (entries p). public_ip (entries p ! i) = pool_ip (pool_start_ip p) i)"

lemma pool_invD:
  assumes "pool_inv E p"
  shows "slots_ok (out_hash E) (entries p) (outbound_map p)" "length (entries p) = unat (pool_size p)"
    "i < length (entries p) \<Longrightarrow> public_ip (entries p ! i) = pool_ip (pool_start_ip p) i"
  using assms by (simp_all add: pool_inv_def)

lemma pool_inv_frame [simp]:
  "pool_inv E (p\<lparr>timers := t\<rparr>) = pool_inv E p" "pool_inv E (p\<lparr>reads := n\<rparr>) = pool_inv E p"
  "pool_inv E (p\<lparr>started := b\<rparr>) = pool_inv E p"
  by (simp_all add: pool_inv_def)

lemma clear_slots_eq: "n \<le> length es \<Longrightarrow>
   clear_slots n es = map (\<lambda>i. if i < n then clear_slot (es ! i) else es ! i) [0..<length es]"
proof (induction n)
  case 0
  then show ?case by (simp add: clear_slots_def map_nth)
next
  case (Suc n)
  then have e: "clear_slots n es = map (\<lambda>i. if i < n then clear_slot (es ! i) else es ! i) [0..<length es]"
    and n: "n < length es" by simp_all
  have "clear_slots (Suc n) es = (clear_slots n es)[n := clear_slot (clear_slots n es ! n)]"
    by (simp add: clear_slots_def)
  also have "\<dots> = map (\<lambda>i. if i < Suc n then clear_slot (es ! i) else es ! i) [0..<length es]"
    using n by (intro nth_equalityI) (auto simp: e nth_upd)
  finally show ?case .
qed

lemma clear_all_inv:
  assumes "pool_inv E p"
  shows "pool_inv E (p\<lparr>entries := clear_slots (unat (pool_size p)) (entries p),
     outbound_map := hash_reset (out_hash E) (outbound_map p), started := False\<rparr>)"
proof -
  have "hash_laws (out_hash E)" using pool_invD(1) [OF assms] by (simp add: slots_ok_def)
  then show ?thesis
    using assms pool_invD(2) [OF assms]
    by (simp add: pool_inv_def clear_slots_eq slots_ok_reset clear_slot_def)
qed

lemma table_timer_cb_inv: "pool_inv E p \<Longrightarrow> pool_inv E (table_timer_cb E p)"
  using clear_all_inv [of E p] by (simp add: table_timer_cb_def)

lemma nat_pool_reset_inv: "pool_inv E p \<Longrightarrow> pool_inv E (nat_pool_reset E p)"
  using clear_all_inv [of E p] by (simp add: nat_pool_reset_def pool_inv_def)

lemma expiry_timer_cb_inv:
  assumes "pool_inv E p"
  shows "pool_inv E (expiry_timer_cb E p)"
proof -
  note d = pool_invD [OF assms]
  obtain es h where x: "expire_slots (out_hash E) (p_tsc E (reads p)) (idle_tsc p) (unat (pool_size p))
      (entries p, outbound_map p) = (es, h)" by fastforce
  from expire_slots_ok [OF d(1) x [folded d(2)]] d(2,3) show ?thesis
    by (simp add: expiry_timer_cb_def x pool_inv_def)
qed

lemma run_timers_inv: "pool_inv E p \<Longrightarrow> pool_inv E (run_timers E ts p)"
  by (induction E ts p rule: run_timers.induct) (simp_all add: expiry_timer_cb_inv table_timer_cb_inv)

lemma pool_timer_manage_inv: "pool_inv E p \<Longrightarrow> pool_inv E (pool_timer_manage E p)"
  by (simp add: pool_timer_manage_def run_timers_inv split: prod.splits)

text \<open>The free slot a search returns.\<close>

lemma find_free_slot_ok:
  assumes "0 \<le> find_free_slot p"
  obtains i where "find_free_slot p = int i" "i < unat (pool_size p)" "i < 2147483648" "\<not> in_use (entries p ! i)"
proof -
  from assms obtain i where f: "find (\<lambda>i. \<not> in_use (entries p ! i)) [0..<unat (pool_size p)] = Some i"
    and s: "find_free_slot p = to_int i" by (auto simp: find_free_slot_def split: option.splits)
  from f have i: "i < unat (pool_size p)" "\<not> in_use (entries p ! i)"
    by (auto simp: find_Some_iff)
  have "i < 2147483648"
    using assms s i(1) unat_u32_less [of "pool_size p"] to_int_large [of i] by force
  with i s to_int_small show ?thesis by (intro that [of i]) simp_all
qed

lemma find_free_slot_None:
  assumes "unat (pool_size p) \<le> 2147483648"
  shows "find_free_slot p < 0 \<longleftrightarrow> (\<forall>i < unat (pool_size p). in_use (entries p ! i))"
proof (cases "find (\<lambda>i. \<not> in_use (entries p ! i)) [0..<unat (pool_size p)]")
  case None
  then have "\<forall>i < unat (pool_size p). in_use (entries p ! i)" by (simp add: find_None_iff)
  with None show ?thesis by (simp add: find_free_slot_def)
next
  case (Some i)
  then have "i < unat (pool_size p)" "\<not> in_use (entries p ! i)" by (auto simp: find_Some_iff)
  with Some assms to_int_small [of i] show ?thesis by (auto simp: find_free_slot_def)
qed

lemma pool_packet_inv:
  assumes "pool_inv E p"
  shows "\<exists>p' m' keep. pool_packet E p m = Some (p', m', keep) \<and> pool_inv E p' \<and> mbuf_id m' = mbuf_id m"
proof -
  note d = pool_invD [OF assms]
  let ?src = "rd32 m (ETHER_HDR + O_SRC)"
  consider (other) "\<not> is_ipv4 m"
    | (inb) e where "is_ipv4 m" "lookup_data (in_hash E) (inbound_map p) (rd32 m (ETHER_HDR + O_DST)) = Some e"
    | (known) i where "is_ipv4 m" "lookup_data (in_hash E) (inbound_map p) (rd32 m (ETHER_HDR + O_DST)) = None"
        "lookup_data (out_hash E) (outbound_map p) ?src = Some i"
    | (fresh) "is_ipv4 m" "lookup_data (in_hash E) (inbound_map p) (rd32 m (ETHER_HDR + O_DST)) = None"
        "lookup_data (out_hash E) (outbound_map p) ?src = None"
    by (cases "is_ipv4 m"; cases "lookup_data (in_hash E) (inbound_map p) (rd32 m (ETHER_HDR + O_DST))";
        cases "lookup_data (out_hash E) (outbound_map p) ?src") blast+
  then show ?thesis
  proof cases
    case other
    with assms show ?thesis by (auto simp: pool_packet_def)
  next
    case inb
    with assms show ?thesis by (auto simp: pool_packet_def)
  next
    case known
    note s = slots_ok_D [OF d(1) known(3)]
    have "slots_ok (out_hash E) ((entries p)[i := (entries p ! i)\<lparr>last_seen_tsc := p_tsc E (reads p)\<rparr>]) (outbound_map p)"
      by (rule slots_ok_touch [OF d(1)]) simp_all
    with known s d show ?thesis
      by (auto simp: pool_packet_def pool_inv_def nth_upd Let_def)
  next
    case fresh
    show ?thesis
    proof (cases "find_free_slot p < 0")
      case True
      with fresh assms show ?thesis by (auto simp: pool_packet_def)
    next
      case False
      then obtain i where i: "find_free_slot p = int i" "i < unat (pool_size p)" "i < 2147483648" "\<not> in_use (entries p ! i)"
        using find_free_slot_ok [of p] by (metis linorder_not_le)
      let ?e = "(entries p ! i)\<lparr>private_ip := ?src, in_use := True, last_seen_tsc := p_tsc E (reads p)\<rparr>"
      have "slots_ok (out_hash E) ((entries p)[i := ?e]) (snd (add_key_data (out_hash E) (outbound_map p) ?src i))"
        by (rule slots_ok_assign [OF d(1)]) (use i d(2) in simp_all)
      with fresh i d show ?thesis
        by (auto simp: pool_packet_def pool_inv_def nth_upd Let_def)
    qed
  qed
qed

interpretation pool_burst: burst_handler "pool_packet E" "pool_inv E" for E
  by unfold_locales (rule pool_packet_inv)

lemma pool_iter_safe:
  assumes "pool_inv E p"
  shows "\<exists>p' x out dropped. pool_iter E tx p rx = Some (p', x) \<and> pool_inv E p' \<and>
    sent x = tx_each tx out \<and> freed x = dropped \<and>
    mset (map mbuf_id out) + mset (map mbuf_id dropped) = mset (map mbuf_id rx)"
proof (cases "rx = []")
  case True
  with pool_timer_manage_inv [OF assms] show ?thesis
    by (auto simp: pool_iter_def Let_def tx_each_def intro!: exI [of _ "[]"])
next
  case False
  let ?p1 = "pool_timer_manage E p"
  let ?p2 = "if started ?p1 then ?p1 else ?p1\<lparr>started := True\<rparr>"
  let ?p3 = "nat_table_timer_arm E (p_hz E) TABLE_TIMEOUT_SEC ?p2"
  have "pool_inv E ?p3" using pool_timer_manage_inv [OF assms] by (simp add: nat_table_timer_arm_def)
  from pool_burst.burst_safe [OF this, of rx] obtain p4 out dropped where
    1: "run_burst (pool_packet E) ?p3 rx = Some (p4, out, dropped)" "pool_inv E p4"
       "mset (map mbuf_id out) + mset (map mbuf_id dropped) = mset (map mbuf_id rx)" by blast
  from apply_null_run [of "pool_packet E" ?p3 rx] 1(1) obtain bufs where
    2: "nat_pool_apply E ?p3 rx = Some (p4, bufs, dropped)" "List.map_filter id bufs = out"
    by (auto simp: nat_pool_apply_def)
  have "pool_iter E tx p rx = Some (p4, \<lparr>sent = tx_each tx out, freed = dropped\<rparr>)"
    using False 2 by (simp add: pool_iter_def Let_def del: if_split)
  with 1 show ?thesis by fastforce
qed

end
