(* ===== verification/Load_Balancer.thy ===== *)
theory Load_Balancer
  imports Nat_Rewrite Burst Eal Samples
begin

text \<open>
  The round-robin load balancer of \<open>Load_Balancer/load_balancer.c\<close>: the backend table and
  counters, \<open>rewrite_l4_packet\<close>, the packet loop of \<open>lcore_main\<close> and the start-up of
  \<open>main\<close>. \<open>backends\<close> and \<open>backend_hits\<close> are arrays of three elements; an index
  outside them is undefined behaviour (\<open>None\<close>).
\<close>

record backend =
  ip :: u32
  port :: u16

record lb_state =
  next_backend :: u32
  backends :: "backend list"
  backend_hits :: "u64 list"
  total_rx :: u64
  total_tx :: u64
  total_drop :: u64

abbreviation (input) n_backends :: u32 where "n_backends \<equiv> 3"

text \<open>The static initialisers, and the ports that \<open>main\<close> fills in.\<close>

definition backends0 :: "backend list" where
  "backends0 = [\<lparr>ip = ipv4_addr 192 168 0 101, port = 0\<rparr>, \<lparr>ip = ipv4_addr 192 168 0 102, port = 0\<rparr>,
     \<lparr>ip = ipv4_addr 192 168 0 103, port = 0\<rparr>]"

definition init_ports :: "backend list \<Rightarrow> backend list" where
  "init_ports bs = map (\<lambda>b. b\<lparr>port := bswap16 10000\<rparr>) bs"

definition lb_start :: lb_state where
  "lb_start = \<lparr>next_backend = 0, backends = init_ports backends0, backend_hits = [0, 0, 0],
     total_rx = 0, total_tx = 0, total_drop = 0\<rparr>"

subsection \<open>rewrite_l4_packet\<close>

definition rewrite_to :: "cksum_api \<Rightarrow> mbuf \<Rightarrow> backend \<Rightarrow> mbuf" where
  "rewrite_to C m bk =
     (let p_ip = ETHER_HDR; l4 = p_ip + IPV4_HDR;
          m1 = wr32 m (p_ip + O_DST) (ip bk);
          m4 = (if rd8 m1 (p_ip + O_PROTO) = IPPROTO_TCP then
                  (let m2 = wr16 m1 (l4 + O_DPORT) (port bk); m3 = wr16 m2 (l4 + O_TCP_CKSUM) 0
                   in wr16 m3 (l4 + O_TCP_CKSUM) (rte_ipv4_udptcp_cksum C m3 p_ip l4))
                else if rd8 m1 (p_ip + O_PROTO) = IPPROTO_UDP then
                  (let m2 = wr16 m1 (l4 + O_DPORT) (port bk); m3 = wr16 m2 (l4 + O_UDP_CKSUM) 0
                   in wr16 m3 (l4 + O_UDP_CKSUM) (rte_ipv4_udptcp_cksum C m3 p_ip l4))
                else m1);
          m5 = wr16 m4 (p_ip + O_HDR_CKSUM) 0
      in wr16 m5 (p_ip + O_HDR_CKSUM) (rte_ipv4_cksum C m5 p_ip))"

definition rewrite_l4_packet :: "cksum_api \<Rightarrow> lb_state \<Rightarrow> mbuf \<Rightarrow> (int \<times> lb_state \<times> mbuf) option" where
  "rewrite_l4_packet C s m =
     (if rd16 m O_ETHER_TYPE \<noteq> bswap16 RTE_ETHER_TYPE_IPV4 then Some (-1, s, m)
      else if rd8 m (ETHER_HDR + O_PROTO) \<noteq> IPPROTO_TCP \<and> rd8 m (ETHER_HDR + O_PROTO) \<noteq> IPPROTO_UDP
      then Some (-1, s, m)
      else
        (let selected = unat (next_backend s)
         in if length (backends s) \<le> selected \<or> length (backend_hits s) \<le> selected then None
            else
              Some (int selected,
                s\<lparr>next_backend := (next_backend s + 1) mod n_backends,
                  backend_hits := (backend_hits s)[selected := backend_hits s ! selected + 1]\<rparr>,
                rewrite_to C m (backends s ! selected))))"

subsection \<open>lcore_main\<close>

text \<open>Every packet of the burst is sent, rewritten or not.\<close>

definition lb_handler :: "cksum_api \<Rightarrow> lb_state handler" where
  "lb_handler C s m = map_option (\<lambda>(_, s', m'). (s', m', True)) (rewrite_l4_packet C s m)"

definition lb_iter :: "cksum_api \<Rightarrow> (mbuf list \<Rightarrow> nat) \<Rightarrow> lb_state \<Rightarrow> mbuf list \<Rightarrow> (lb_state \<times> io) option" where
  "lb_iter C tx s rx =
     (if rx = [] then Some (s, \<lparr>sent = [], freed = []\<rparr>)
      else
        (let nb_rx = of_nat (length rx); s1 = s\<lparr>total_rx := total_rx s + nb_rx\<rparr>
         in case run_burst (lb_handler C) s1 rx of None \<Rightarrow> None
            | Some (s2, pkts, _) \<Rightarrow>
                (let nb_tx = of_nat (tx pkts)
                 in Some (s2\<lparr>total_tx := total_tx s2 + nb_tx, total_drop := total_drop s2 + (nb_rx - nb_tx)\<rparr>,
                          tx_then_free tx pkts))))"

fun lb_loop :: "cksum_api \<Rightarrow> (mbuf list \<Rightarrow> nat) \<Rightarrow> lb_state \<Rightarrow> mbuf list list \<Rightarrow> (lb_state \<times> io list) option" where
  "lb_loop C tx s [] = Some (s, [])"
| "lb_loop C tx s (rx # rxs) =
     (case lb_iter C tx s rx of None \<Rightarrow> None
      | Some (s1, x) \<Rightarrow> map_option (\<lambda>(s2, xs). (s2, x # xs)) (lb_loop C tx s1 rxs))"

subsection \<open>Start-up\<close>

fun lb_ports :: "int \<Rightarrow> nat list \<Rightarrow> nat \<Rightarrow> nat prog" where
  "lb_ports mp [] act = done_p act"
| "lb_ports mp (p # ps) act =
     must (Rte_eth_dev_configure p 1 1) ''Cannot configure device''
     (must (Rte_eth_rx_queue_setup p 0 1024 mp) ''rte_eth_rx_queue_setup''
     (must (Rte_eth_tx_queue_setup p 0 1024) ''rte_eth_tx_queue_setup''
     (must (Rte_eth_dev_start p) ''rte_eth_dev_start''
     (call_p (Rte_eth_promiscuous_enable p) (\<lambda>_. lb_ports mp ps p)))))"

text \<open>\<open>devs\<close> are the ports that \<open>RTE_ETH_FOREACH_DEV\<close> visits; the result is the active port.\<close>

definition lb_main_start :: "nat list \<Rightarrow> nat prog" where
  "lb_main_start devs =
     must Rte_eal_init ''EAL init failed''
     (call_p Rte_eth_dev_count_avail (\<lambda>nb_ports. if nb_ports < 1 then rte_exit ''No Ethernet ports - bye'' else
     nonnull (Rte_pktmbuf_pool_create ''MBUF_POOL'' (8192 * nat nb_ports) 250) ''Cannot create mbuf pool''
     (\<lambda>mp. lb_ports mp devs 0)))"

subsection \<open>The invariant and the rotation\<close>

definition l4_pkt :: "mbuf \<Rightarrow> bool" where
  "l4_pkt m \<longleftrightarrow> rd16 m O_ETHER_TYPE = bswap16 RTE_ETHER_TYPE_IPV4 \<and>
     (rd8 m (ETHER_HDR + O_PROTO) = IPPROTO_TCP \<or> rd8 m (ETHER_HDR + O_PROTO) = IPPROTO_UDP)"

definition lb_inv :: "lb_state \<Rightarrow> bool" where
  "lb_inv s \<longleftrightarrow> unat (next_backend s) < 3 \<and> length (backend_hits s) = 3 \<and> backends s = init_ports backends0"

lemma lb_start_inv: "lb_inv lb_start"
  by (simp add: lb_inv_def lb_start_def)

lemma next_backend_mod:
  assumes "unat (nb :: u32) < 3"
  shows "unat ((nb + 1) mod 3) = (unat nb + 1) mod 3"
proof -
  have "unat (nb + 1) = unat nb + 1" using assms by (simp add: unat_word_ariths)
  then show ?thesis by (simp add: unat_mod)
qed

lemma rewrite_to_id [simp]: "mbuf_id (rewrite_to C m bk) = mbuf_id m"
  by (simp add: rewrite_to_def Let_def)

lemma rewrite_l4_packet_step:
  assumes "lb_inv s" "l4_pkt m"
  shows "rewrite_l4_packet C s m = Some (int (unat (next_backend s)),
      s\<lparr>next_backend := (next_backend s + 1) mod 3,
        backend_hits := (backend_hits s)[unat (next_backend s) := backend_hits s ! unat (next_backend s) + 1]\<rparr>,
      rewrite_to C m (init_ports backends0 ! unat (next_backend s)))"
  using assms by (auto simp: rewrite_l4_packet_def lb_inv_def l4_pkt_def Let_def init_ports_def backends0_def)

lemma rewrite_l4_packet_other: "\<not> l4_pkt m \<Longrightarrow> rewrite_l4_packet C s m = Some (-1, s, m)"
  by (auto simp: rewrite_l4_packet_def l4_pkt_def)

lemma lb_handler_inv:
  assumes "lb_inv s"
  shows "\<exists>s' m'. lb_handler C s m = Some (s', m', True) \<and> lb_inv s' \<and> mbuf_id m' = mbuf_id m \<and>
    total_rx s' = total_rx s \<and> total_tx s' = total_tx s \<and> total_drop s' = total_drop s"
proof (cases "l4_pkt m")
  case True
  from assms have "unat (next_backend s) < 3" by (simp add: lb_inv_def)
  then have "unat ((next_backend s + 1) mod 3) < 3" by (simp add: next_backend_mod)
  with assms rewrite_l4_packet_step [OF assms True, of C] show ?thesis
    by (auto simp: lb_handler_def lb_inv_def)
next
  case False
  with assms rewrite_l4_packet_other [OF False, of C s] show ?thesis by (simp add: lb_handler_def)
qed

interpretation lb_burst: burst_handler "lb_handler C" lb_inv for C
  by unfold_locales (use lb_handler_inv in blast)

text \<open>How many of \<open>k\<close> consecutive turns, the first at backend \<open>n\<close>, fall to backend \<open>i\<close>.\<close>

definition turns :: "nat \<Rightarrow> nat \<Rightarrow> nat \<Rightarrow> nat" where
  "turns n k i = (n + k + 2 - i) div 3 - (n + 2 - i) div 3"

lemma turns_0 [simp]: "turns n 0 i = 0"
  by (simp add: turns_def)

lemma turns_Suc:
  assumes "i < 3" "n < 3"
  shows "turns n (Suc k) i = (if n = i then 1 else 0) + turns ((n + 1) mod 3) k i"
proof -
  have k3: "(k + 3) div 3 = k div 3 + 1" "(k + 4) div 3 = (k + 1) div 3 + 1" "(k + 5) div 3 = (k + 2) div 3 + 1"
    by presburger+
  have "n = 0 \<or> n = 1 \<or> n = 2" "i = 0 \<or> i = 1 \<or> i = 2" using assms by linarith+
  then show ?thesis
    using k3 by (elim disjE) (simp_all add: turns_def)
qed

lemma turns_add:
  assumes "i < 3" "n < 3"
  shows "turns n (k + l) i = turns n k i + turns ((n + k) mod 3) l i"
  using assms(2)
proof (induction k arbitrary: n)
  case (Suc k)
  have "(n + 1) mod 3 < 3" by simp
  from Suc.IH [OF this] turns_Suc [OF assms(1) Suc.prems, of "k + l"] turns_Suc [OF assms(1) Suc.prems, of k]
  show ?case by (simp add: mod_add_left_eq)
qed simp

abbreviation (input) l4_count :: "mbuf list \<Rightarrow> nat" where
  "l4_count ms \<equiv> length (filter l4_pkt ms)"

lemma burst_hits:
  assumes "lb_inv s" "run_burst (lb_handler C) s ms = Some (s', out, dropped)"
  shows "unat (next_backend s') = (unat (next_backend s) + l4_count ms) mod 3 \<and> dropped = [] \<and>
    (\<forall>i<3. backend_hits s' ! i = backend_hits s ! i + of_nat (turns (unat (next_backend s)) (l4_count ms) i))"
  using assms
proof (induction ms arbitrary: s out dropped)
  case Nil
  then show ?case by (simp add: lb_inv_def)
next
  case (Cons m ms)
  from lb_handler_inv [OF Cons.prems(1), of C m] obtain s1 m1 where
    1: "lb_handler C s m = Some (s1, m1, True)" "lb_inv s1" by blast
  from Cons.prems(2) 1(1) obtain out1 where
    2: "run_burst (lb_handler C) s1 ms = Some (s', out1, dropped)" by (auto split: option.splits prod.splits)
  note IH = Cons.IH [OF 1(2) 2]
  have n: "unat (next_backend s) < 3" "length (backend_hits s) = 3" using Cons.prems(1) by (simp_all add: lb_inv_def)
  show ?case
  proof (cases "l4_pkt m")
    case False
    with 1(1) rewrite_l4_packet_other [OF False, of C s] have "s1 = s" by (simp add: lb_handler_def)
    with IH False show ?thesis by simp
  next
    case True
    have s1: "next_backend s1 = (next_backend s + 1) mod 3"
      "backend_hits s1 = (backend_hits s)[unat (next_backend s) := backend_hits s ! unat (next_backend s) + 1]"
      using 1(1) rewrite_l4_packet_step [OF Cons.prems(1) True, of C] by (auto simp: lb_handler_def)
    have nb: "unat (next_backend s1) = (unat (next_backend s) + 1) mod 3" using n(1) by (simp add: s1 next_backend_mod)
    have "backend_hits s' ! i = backend_hits s ! i + of_nat (turns (unat (next_backend s)) (Suc (l4_count ms)) i)"
      if i: "i < 3" for i
      using IH that turns_Suc [OF i n(1), of "l4_count ms"] n(2)
      by (auto simp: nb s1(2) nth_upd)
    with IH True show ?thesis by (auto simp: nb mod_add_left_eq)
  qed
qed

lemma lb_iter_step:
  assumes "lb_inv s" "tx_ok tx"
  shows "\<exists>s' x. lb_iter C tx s rx = Some (s', x) \<and> lb_inv s' \<and>
    mset (map mbuf_id (sent x)) + mset (map mbuf_id (freed x)) = mset (map mbuf_id rx) \<and>
    unat (next_backend s') = (unat (next_backend s) + l4_count rx) mod 3 \<and>
    (\<forall>i<3. backend_hits s' ! i = backend_hits s ! i + of_nat (turns (unat (next_backend s)) (l4_count rx) i))"
proof (cases "rx = []")
  case True
  with assms(1) show ?thesis by (auto simp: lb_iter_def lb_inv_def)
next
  case False
  let ?s = "s\<lparr>total_rx := total_rx s + of_nat (length rx)\<rparr>"
  have inv: "lb_inv ?s" using assms(1) by (simp add: lb_inv_def)
  from lb_burst.burst_safe [OF inv, of C rx] obtain s2 pkts dropped where
    1: "run_burst (lb_handler C) ?s rx = Some (s2, pkts, dropped)" "lb_inv s2"
       "mset (map mbuf_id pkts) + mset (map mbuf_id dropped) = mset (map mbuf_id rx)" by blast
  note h = burst_hits [OF inv 1(1)]
  have "mset (map mbuf_id (sent (tx_then_free tx pkts))) + mset (map mbuf_id (freed (tx_then_free tx pkts))) =
      mset (map mbuf_id (sent (tx_then_free tx pkts) @ freed (tx_then_free tx pkts)))"
    by (simp only: map_append mset_append)
  also have "\<dots> = mset (map mbuf_id rx)" using 1(3) h unfolding tx_then_free_io [OF assms(2)] by simp
  finally have acc: "mset (map mbuf_id (sent (tx_then_free tx pkts))) + mset (map mbuf_id (freed (tx_then_free tx pkts))) =
      mset (map mbuf_id rx)" .
  obtain s' where s': "lb_iter C tx s rx = Some (s', tx_then_free tx pkts)" "lb_inv s'"
    "next_backend s' = next_backend s2" "backend_hits s' = backend_hits s2"
    using False 1(1,2) by (auto simp: lb_iter_def Let_def lb_inv_def)
  show ?thesis
    by (rule exI [of _ s'], rule exI [of _ "tx_then_free tx pkts"]) (use s' acc h in simp)
qed

lemma lb_loop_step:
  assumes "lb_inv s" "tx_ok tx"
  shows "\<exists>s' xs. lb_loop C tx s rxs = Some (s', xs) \<and> lb_inv s' \<and>
    list_all2 (\<lambda>x rx. mset (map mbuf_id (sent x)) + mset (map mbuf_id (freed x)) = mset (map mbuf_id rx)) xs rxs \<and>
    (\<forall>i<3. backend_hits s' ! i = backend_hits s ! i + of_nat (turns (unat (next_backend s)) (l4_count (concat rxs)) i))"
  using assms(1)
proof (induction rxs arbitrary: s)
  case (Cons rx rxs)
  from lb_iter_step [OF Cons.prems assms(2), of C rx] obtain s1 x where
    1: "lb_iter C tx s rx = Some (s1, x)" "lb_inv s1"
       "mset (map mbuf_id (sent x)) + mset (map mbuf_id (freed x)) = mset (map mbuf_id rx)"
       "unat (next_backend s1) = (unat (next_backend s) + l4_count rx) mod 3"
       "\<forall>i<3. backend_hits s1 ! i = backend_hits s ! i + of_nat (turns (unat (next_backend s)) (l4_count rx) i)" by blast
  from Cons.IH [OF 1(2)] obtain s2 xs where
    2: "lb_loop C tx s1 rxs = Some (s2, xs)" "lb_inv s2"
       "list_all2 (\<lambda>x rx. mset (map mbuf_id (sent x)) + mset (map mbuf_id (freed x)) = mset (map mbuf_id rx)) xs rxs"
       "\<forall>i<3. backend_hits s2 ! i = backend_hits s1 ! i + of_nat (turns (unat (next_backend s1)) (l4_count (concat rxs)) i)"
    by blast
  have n: "unat (next_backend s) < 3" using Cons.prems by (simp add: lb_inv_def)
  have "backend_hits s2 ! i = backend_hits s ! i + of_nat (turns (unat (next_backend s)) (l4_count (concat (rx # rxs))) i)"
    if i: "i < 3" for i
    using 1(4,5) 2(4) i turns_add [OF i n, of "l4_count rx" "l4_count (concat rxs)"] by simp
  with 1 2 show ?case by auto
qed simp

subsection \<open>Properties\<close>

text \<open>
  C27. The balancer is fair. Over any sequence of bursts, started as \<open>main\<close> does, it
  never indexes outside its tables and hands every buffer to the NIC or frees it exactly
  once; and after \<open>k\<close> TCP and UDP packets backend \<open>i\<close> has been chosen exactly
  \<open>(k + 2 - i) div 3\<close> times, so the shares differ by at most one.
\<close>

theorem lb_fair:
  assumes "tx_ok tx" "k = length (filter l4_pkt (concat rxs))" "k < 2 ^ 64"
  shows "\<exists>s' xs. lb_loop C tx lb_start rxs = Some (s', xs) \<and>
    list_all2 (\<lambda>x rx. mset (map mbuf_id (sent x)) + mset (map mbuf_id (freed x)) = mset (map mbuf_id rx)) xs rxs \<and>
    (\<forall>i<3. unat (backend_hits s' ! i) = (k + 2 - i) div 3)"
proof -
  from lb_loop_step [OF lb_start_inv assms(1), of C rxs] obtain s' xs where
    1: "lb_loop C tx lb_start rxs = Some (s', xs)"
       "list_all2 (\<lambda>x rx. mset (map mbuf_id (sent x)) + mset (map mbuf_id (freed x)) = mset (map mbuf_id rx)) xs rxs"
       "\<forall>i<3. backend_hits s' ! i = backend_hits lb_start ! i + of_nat (turns (unat (next_backend lb_start)) k i)"
    unfolding assms(2) by blast
  have "unat (backend_hits s' ! i) = (k + 2 - i) div 3" if i: "i < 3" for i
  proof -
    have z: "backend_hits lb_start ! i = 0" using i by (auto simp: lb_start_def less_Suc_eq numeral_3_eq_3)
    have "turns 0 k i = (k + 2 - i) div 3" using i by (simp add: turns_def div_eq_0_iff)
    moreover have "(k + 2 - i) div 3 < 2 ^ 64" using assms(3) by (simp add: div_less_iff_less_mult)
    ultimately show ?thesis
      using 1(3) i z by (simp add: lb_start_def unat_of_nat take_bit_nat_eq_self)
  qed
  with 1(1,2) show ?thesis by blast
qed

definition lb_pkt :: mbuf where
  "lb_pkt = udp_packet 0 0 0 0 [10,0,0,1] [8,8,8,8] [0x30,0x39] [0,53]"

lemma lb_pkt_l4: "l4_pkt lb_pkt"
  by (simp add: l4_pkt_def lb_pkt_def pkt_eval)

theorem lb_fair_witness:
  "\<exists>s' xs. lb_loop ref_cksum (\<lambda>_. 0) lb_start [[lb_pkt, lb_pkt], [], [lb_pkt, lb_pkt]] = Some (s', xs) \<and>
     unat (backend_hits s' ! 0) = 2 \<and> unat (backend_hits s' ! 1) = 1 \<and> unat (backend_hits s' ! 2) = 1"
  using lb_fair [of "\<lambda>_. 0" 4 "[[lb_pkt, lb_pkt], [], [lb_pkt, lb_pkt]]" ref_cksum] lb_pkt_l4
  by (auto simp: tx_ok_def)

lemma rewrite_to_ok:
  assumes "cksum_laws C" "wf_l4 m"
  shows "ipv4_cksum_ok (rewrite_to C m bk) ETHER_HDR \<and> l4_cksum_ok (rewrite_to C m bk) ETHER_HDR (ETHER_HDR + IPV4_HDR)"
proof -
  let ?f = "l4_cksum_off (rd8 m 23)"
  let ?m3 = "wr16 (wr16 (wr32 m 30 (ip bk)) 36 (port bk)) (34 + ?f) 0"
  let ?m4 = "wr16 ?m3 (34 + ?f) (rte_ipv4_udptcp_cksum C ?m3 14 34)"
  let ?m5 = "wr16 ?m4 24 0"
  have f: "?f = 16 \<or> ?f = 6" by (simp add: l4_cksum_off_def)
  have eq: "rewrite_to C m bk = wr16 ?m5 24 (rte_ipv4_cksum C ?m5 14)"
    using assms(2) by (auto simp: rewrite_to_def Let_def wf_l4_def l4_cksum_off_def)
  have "l4_len ?m3 14 = l4_len m 14" by (intro l4_len_cong) auto
  moreover have "rd8 ?m3 23 = rd8 m 23" by simp
  ultimately have "l4_cksum_ok ?m4 14 34"
    using l4_cksum_store [OF assms(1), of ?m3 34 14] assms(2) by (simp add: wf_l4_def)
  then have l4: "l4_cksum_ok (rewrite_to C m bk) 14 34"
    using l4_words_wr_hdr_cksum [of 14 34 ?m5] l4_words_wr_hdr_cksum [of 14 34 ?m4]
    by (simp add: l4_cksum_ok_def eq)
  have "ip_ihl ?m5 14 = ip_ihl m 14" by (intro ip_ihl_cong) auto
  then have "ipv4_cksum_ok (rewrite_to C m bk) 14"
    using ipv4_cksum_store [OF assms(1), of ?m5 14] assms(2) by (simp add: eq wf_l4_def)
  with l4 show ?thesis by simp
qed

lemma rewrite_to_fields:
  "rd32 (rewrite_to C m bk) (ETHER_HDR + O_DST) = ip bk"
  "l4_pkt m \<Longrightarrow> rd16 (rewrite_to C m bk) (ETHER_HDR + IPV4_HDR + O_DPORT) = port bk"
  by (auto simp: rewrite_to_def Let_def l4_pkt_def)

text \<open>
  A forwarded TCP or UDP packet has correct IPv4 and TCP/UDP checksums and destination
  port 10000. Its destination bytes on the wire are those of the chosen backend in reverse
  order, \<open>101 + i, 0, 168, 192\<close>: the table holds \<open>RTE_IPV4\<close> values, which are in host
  order, and the code stores them as if they were in network order.
\<close>

lemma lb_rewrite_wire:
  assumes "cksum_laws C" "lb_inv s" "l4_pkt m" "wf_l4 m"
  shows "\<exists>s' m'. rewrite_l4_packet C s m = Some (int (unat (next_backend s)), s', m') \<and>
    ipv4_cksum_ok m' ETHER_HDR \<and> l4_cksum_ok m' ETHER_HDR (ETHER_HDR + IPV4_HDR) \<and>
    bswap16 (rd16 m' (ETHER_HDR + IPV4_HDR + O_DPORT)) = 10000 \<and>
    [rd8 m' 30, rd8 m' 31, rd8 m' 32, rd8 m' 33] = [101 + of_nat (unat (next_backend s)), 0, 168, 192]"
proof -
  let ?n = "unat (next_backend s)"
  let ?bk = "init_ports backends0 ! ?n"
  let ?m = "rewrite_to C m ?bk"
  have n: "?n = 0 \<or> ?n = 1 \<or> ?n = 2" using assms(2) by (auto simp: lb_inv_def)
  have gen: "ip (init_ports backends0 ! k) = make32 (101 + of_nat k) 0 168 192"
    "port (init_ports backends0 ! k) = bswap16 10000" if "k = 0 \<or> k = 1 \<or> k = 2" for k
    using that by (auto simp: init_ports_def backends0_def ipv4_addr_def)
  note bk = gen [OF n]
  have "rd32 ?m 30 = make32 (101 + of_nat ?n) 0 168 192" using rewrite_to_fields(1) [of C m ?bk] bk(1) by simp
  then have "rd8 ?m 30 = 101 + of_nat ?n \<and> rd8 ?m 31 = 0 \<and> rd8 ?m 32 = 168 \<and> rd8 ?m 33 = 192"
    unfolding rd32_bytes by (simp only: make32_inject) simp
  with rewrite_l4_packet_step [OF assms(2,3), of C] rewrite_to_ok [OF assms(1,4), of ?bk] rewrite_to_fields(2) [OF assms(3), of C ?bk] bk(2)
  show ?thesis by simp
qed

end
