(* ===== verification/Mac_Table.thy ===== *)
theory Mac_Table
  imports Rte_Hash Eal Cstdio
begin

text \<open>
  MAC learning and forwarding: \<open>l2_forwarding/main.c\<close> and \<open>hashing/mac_learning/main.c\<close>.
  An address is its list of six bytes; the table stores the port as the value of the C
  pointer and reads it back through a cast to \<open>uint16_t\<close>. What a program prints about a
  packet is its \<open>action\<close>.
\<close>

type_synonym mac = "u8 list"

datatype action = Forward u16 | Flood "nat list"


subsection \<open>l2_forwarding/main.c\<close>

definition create_mac_table :: "int prog" where
  "create_mac_table = nonnull (Rte_hash_create ''mac_table'' 1024 6) ''MAC table creation failed'' done_p"

definition hex_digit :: "nat \<Rightarrow> char" where
  "hex_digit n = (if n < 10 then char_of (48 + n) else char_of (55 + n))"

text \<open>\<open>%02X\<close> per byte, separated by colons.\<close>

definition print_mac :: "mac \<Rightarrow> string" where
  "print_mac a = concat (map (\<lambda>i. (if i = 0 then '''' else '':'') @
     [hex_digit (unat (a ! i) div 16), hex_digit (unat (a ! i) mod 16)]) [0..<6])"

definition mac_learn :: "('h, mac, nat) hash_api \<Rightarrow> 'h \<Rightarrow> mac \<Rightarrow> u16 \<Rightarrow> 'h" where
  "mac_learn H tab src_mac port = snd (add_key_data H tab src_mac (unat port))"

text \<open>\<open>None\<close> is the return value -1, \<open>Some p\<close> is 0 with \<open>*port = p\<close>.\<close>

definition mac_lookup :: "('h, mac, nat) hash_api \<Rightarrow> 'h \<Rightarrow> mac \<Rightarrow> u16 option" where
  "mac_lookup H tab dst_mac =
     (case lookup_data H tab dst_mac of None \<Rightarrow> None | Some data \<Rightarrow> Some (of_nat data))"






subsection \<open>hashing/mac_learning/main.c\<close>

definition mac_learning_main :: "('h, mac, nat) hash_api \<Rightarrow> 'h \<Rightarrow> u16 option \<times> u16 option" where
  "mac_learning_main H t =
     (let t1 = mac_learn H t [0xAA,0xBB,0xCC,0xDD,0xEE,0x01] 1;
          t2 = mac_learn H t1 [0xAA,0xBB,0xCC,0xDD,0xEE,0x02] 2
      in (mac_lookup H t2 [0xAA,0xBB,0xCC,0xDD,0xEE,0x01], mac_lookup H t2 [0xAA,0xBB,0xCC,0xDD,0xEE,0x03]))"

definition mac_learning_start :: "int prog" where
  "mac_learning_start =
     must Rte_eal_init ''EAL init failed''
     (nonnull (Rte_hash_create ''mac_table'' 1024 6) ''Failed to create MAC table'' done_p)"

text \<open>The two lines of the report, each with the result of its lookup.\<close>

definition mac_learning_report :: "u16 option \<times> u16 option \<Rightarrow> string list" where
  "mac_learning_report r =
     [''Looking up MAC: '' @ print_mac [0xAA,0xBB,0xCC,0xDD,0xEE,0x01] @
        (case fst r of Some out_port \<Rightarrow> '' -> Forward to port '' @ show_nat (unat out_port) | None \<Rightarrow> '' -> Flood''),
      ''Looking up MAC: '' @ print_mac [0xAA,0xBB,0xCC,0xDD,0xEE,0x03] @
        (case snd r of Some out_port \<Rightarrow> '' -> Forward to port '' @ show_nat (unat out_port) | None \<Rightarrow> '' -> Flood (unknown MAC)'')]"

subsection \<open>The learned location of a station\<close>



lemma of_nat_unat_u16: "(of_nat (unat (p :: u16)) :: u16) = p"
  by simp

lemma mac_lookup_learn:
  assumes "hash_laws H" "\<And>h k v. 0 \<le> fst (add_key_data H h k v)"
  shows "mac_lookup H (mac_learn H t src p) = (mac_lookup H t)(src \<mapsto> p)"
  using lookup_add_ok [OF assms(1) assms(2), of t src "unat p"]
  by (auto simp: mac_lookup_def mac_learn_def fun_eq_iff)




text \<open>\<open>hashing/mac_learning\<close>: the learned station is found, the third address is not.\<close>

lemma mac_learning_found:
  assumes "hash_laws H" "\<And>h k v. 0 \<le> fst (add_key_data H h k v)" "lookup_data H t = Map.empty"
  shows "mac_learning_main H t = (Some 1, None)"
    and "mac_learning_report (mac_learning_main H t) =
      [''Looking up MAC: AA:BB:CC:DD:EE:01 -> Forward to port 1'', ''Looking up MAC: AA:BB:CC:DD:EE:03 -> Flood (unknown MAC)'']"
proof -
  have "mac_lookup H t = Map.empty" by (simp add: mac_lookup_def assms(3) fun_eq_iff)
  then show m: "mac_learning_main H t = (Some 1, None)"
    by (simp add: mac_learning_main_def Let_def mac_lookup_learn [OF assms(1,2)])
  show "mac_learning_report (mac_learning_main H t) =
      [''Looking up MAC: AA:BB:CC:DD:EE:01 -> Forward to port 1'', ''Looking up MAC: AA:BB:CC:DD:EE:03 -> Flood (unknown MAC)'']"
    unfolding m by (simp add: mac_learning_report_def print_mac_def hex_digit_def upt_rec show_nat.simps digit_def char_of_def bit_0)
qed




end
