(* ===== verification/Startup.thy ===== *)
theory Startup
  imports Eal
begin

text \<open>
  Checking a start-up sequence by running a monitor over its trace. \<open>watch\<close> follows what
  the Ethernet device API has been told about one port: configured, receive queue set up,
  transmit queue set up, started with the receive queue, started with the transmit queue; a
  call that failed changes nothing. \<open>monitor_sound\<close> says that what the monitor reports is
  what \<open>port_ready\<close> and \<open>tx_ready\<close> of theory \<open>Eal\<close> state, so that for each
  program the claim \<open>starts_port\<close> is computed by the simplifier from its start-up code.
\<close>

record port_state =
  configured :: bool
  rx_queue :: bool
  tx_queue :: bool
  rx_up :: bool
  tx_up :: bool

definition watch :: "nat \<Rightarrow> env \<Rightarrow> call list \<Rightarrow> port_state \<Rightarrow> call \<Rightarrow> port_state" where
  "watch p E tr s c =
     (if E tr c < 0 then s
      else (case c of
          Rte_eth_dev_configure q _ _ \<Rightarrow> if q = p then s\<lparr>configured := True\<rparr> else s
        | Rte_eth_rx_queue_setup q i _ _ \<Rightarrow>
            if q = p \<and> i = 0 \<and> configured s then s\<lparr>rx_queue := True\<rparr> else s
        | Rte_eth_tx_queue_setup q i _ \<Rightarrow> if q = p \<and> i = 0 then s\<lparr>tx_queue := True\<rparr> else s
        | Rte_eth_dev_start q \<Rightarrow>
            if q = p then s\<lparr>rx_up := rx_up s \<or> rx_queue s, tx_up := tx_up s \<or> tx_queue s\<rparr> else s
        | _ \<Rightarrow> s))"

fun monitor :: "nat \<Rightarrow> env \<Rightarrow> call list \<Rightarrow> port_state \<Rightarrow> call list \<Rightarrow> port_state" where
  "monitor p E tr s [] = s"
| "monitor p E tr s (c # cs) = monitor p E (tr @ [c]) (watch p E tr s c) cs"

definition port_idle :: port_state where
  "port_idle = \<lparr>configured = False, rx_queue = False, tx_queue = False, rx_up = False, tx_up = False\<rparr>"

lemma monitor_append: "monitor p E tr s (cs @ ds) = monitor p E (tr @ cs) (monitor p E tr s cs) ds"
  by (induction p E tr s cs rule: monitor.induct) simp_all

definition seen :: "nat \<Rightarrow> env \<Rightarrow> call list \<Rightarrow> port_state \<Rightarrow> bool" where
  "seen p E tr s \<longleftrightarrow>
     (configured s \<longrightarrow> (\<exists>i nrx ntx. ok_at E tr i (Rte_eth_dev_configure p nrx ntx))) \<and>
     (rx_queue s \<longrightarrow> (\<exists>i j nrx ntx n mp. i < j \<and> ok_at E tr i (Rte_eth_dev_configure p nrx ntx) \<and>
        ok_at E tr j (Rte_eth_rx_queue_setup p 0 n mp))) \<and>
     (tx_queue s \<longrightarrow> (\<exists>j n. ok_at E tr j (Rte_eth_tx_queue_setup p 0 n))) \<and>
     (rx_up s \<longrightarrow> port_ready E tr p) \<and> (tx_up s \<longrightarrow> tx_ready E tr p)"

lemma ok_at_less: "ok_at E tr i c \<Longrightarrow> i < length tr"
  by (simp add: ok_at_def)

lemma seen_mono: "seen p E tr s \<Longrightarrow> seen p E (tr @ [c]) s"
  unfolding seen_def by (meson ok_at_append port_ready_append tx_ready_append)

lemma seen_watch:
  assumes "seen p E tr s"
  shows "seen p E (tr @ [c]) (watch p E tr s c)"
proof (cases "E tr c < 0")
  case True
  then show ?thesis using seen_mono [OF assms] by (simp add: watch_def)
next
  case False
  then have ok: "ok_at E (tr @ [c]) (length tr) c" by (intro ok_at_last) simp
  note s = seen_mono [OF assms, of c]
  show ?thesis
  proof (cases c)
    case (Rte_eth_dev_configure q a b)
    with ok s False show ?thesis by (auto simp: watch_def seen_def)
  next
    case (Rte_eth_rx_queue_setup q i n mp)
    have "\<exists>i j nrx ntx n mp. i < j \<and> ok_at E (tr @ [c]) i (Rte_eth_dev_configure p nrx ntx) \<and>
        ok_at E (tr @ [c]) j (Rte_eth_rx_queue_setup p 0 n mp)" if "q = p" "i = 0" "configured s"
      using assms that ok unfolding seen_def Rte_eth_rx_queue_setup by (meson ok_at_append ok_at_less)
    then show ?thesis
      using s False unfolding Rte_eth_rx_queue_setup
      by (cases "q = p \<and> i = 0 \<and> configured s") (auto simp: watch_def seen_def)
  next
    case (Rte_eth_tx_queue_setup q i n)
    with ok s False show ?thesis by (auto simp: watch_def seen_def)
  next
    case (Rte_eth_dev_start q)
    have "port_ready E (tr @ [c]) p" if "q = p" "rx_queue s"
      using assms that ok unfolding seen_def port_ready_def Rte_eth_dev_start by (meson ok_at_append ok_at_less)
    moreover have "tx_ready E (tr @ [c]) p" if "q = p" "tx_queue s"
      using assms that ok unfolding seen_def tx_ready_def Rte_eth_dev_start by (meson ok_at_append ok_at_less)
    ultimately show ?thesis using s False by (auto simp: Rte_eth_dev_start watch_def seen_def)
  qed (use s False in \<open>simp_all add: watch_def\<close>)
qed

lemma monitor_sound: "seen p E tr (monitor p E [] port_idle tr)"
proof (induction tr rule: rev_induct)
  case Nil
  show ?case by (simp add: seen_def port_idle_def)
next
  case (snoc c tr)
  then show ?case using seen_watch by (simp add: monitor_append)
qed

lemma monitor_ready:
  "rx_up (monitor p E [] port_idle tr) \<Longrightarrow> port_ready E tr p" "tx_up (monitor p E [] port_idle tr) \<Longrightarrow> tx_ready E tr p"
  using monitor_sound [of p E tr] by (simp_all add: seen_def)

text \<open>
  The contract of a start-up: it can succeed (\<open>ok\<close> accepts its result), and whenever it does
  the port is ready to receive and to send.
\<close>

definition starts_port :: "('a \<Rightarrow> bool) \<Rightarrow> 'a prog \<Rightarrow> nat \<Rightarrow> bool" where
  "starts_port ok P p \<longleftrightarrow>
     (\<forall>E x tr. P E [] = (Done x, tr) \<longrightarrow> ok x \<longrightarrow> port_ready E tr p \<and> tx_ready E tr p) \<and>
     (\<exists>E x tr. P E [] = (Done x, tr) \<and> ok x)"

lemma starts_portI:
  assumes "\<And>E x tr. P E [] = (Done x, tr) \<Longrightarrow> ok x \<Longrightarrow>
      rx_up (monitor p E [] port_idle tr) \<and> tx_up (monitor p E [] port_idle tr)"
    and "\<exists>x tr. P E [] = (Done x, tr) \<and> ok x"
  shows "starts_port ok P p"
  unfolding starts_port_def using assms monitor_ready by blast

text \<open>An environment in which everything works: pointers are not null, two ports, codes 0.\<close>

definition ok_env :: env where
  "ok_env tr c = (case c of
       Rte_pktmbuf_pool_create _ _ _ \<Rightarrow> 1 | Rte_eth_dev_count_avail \<Rightarrow> 2 | Rte_eth_dev_is_valid_port _ \<Rightarrow> 1
     | Rte_hash_create _ _ _ \<Rightarrow> 1 | Rte_ring_create _ _ \<Rightarrow> 1 | Rte_acl_create _ _ \<Rightarrow> 1 | Rte_lpm_create _ _ _ \<Rightarrow> 1
     | Rte_flow_create _ _ \<Rightarrow> 1 | Rte_reorder_create _ _ \<Rightarrow> 1 | Rte_graph_lookup _ \<Rightarrow> 1 | Rte_pktmbuf_alloc _ \<Rightarrow> 1
     | _ \<Rightarrow> 0)"

text \<open>Sequencing moves inwards, so that a start-up becomes one chain of calls.\<close>

lemma bind_chain:
  "bind_p (done_p x) k = k x" "bind_p (rte_exit msg) k = rte_exit msg"
  "bind_p (call_p c f) k = call_p c (\<lambda>r. bind_p (f r) k)"
  "bind_p (must c msg p) k = must c msg (bind_p p k)"
  "bind_p (nonnull c msg f) k = nonnull c msg (\<lambda>r. bind_p (f r) k)"
  "bind_p (if b then p else q) k = (if b then bind_p p k else bind_p q k)"
  by (auto simp: prog_defs fun_eq_iff)

lemma watch_other:
  "watch p E tr s Rte_eal_init = s" "watch p E tr s Rte_timer_subsystem_init = s"
  "watch p E tr s (Rte_pktmbuf_pool_create a b d) = s" "watch p E tr s Rte_eth_dev_count_avail = s"
  "watch p E tr s (Rte_eth_dev_is_valid_port q) = s" "watch p E tr s (Rte_eth_dev_info_get q) = s"
  "watch p E tr s (Rte_eth_promiscuous_enable q) = s" "watch p E tr s (Rte_hash_create a b d) = s"
  "watch p E tr s (Rte_ring_create a b) = s" "watch p E tr s (Rte_acl_create a b) = s"
  "watch p E tr s (Rte_acl_add_rules b) = s" "watch p E tr s (Rte_acl_build b) = s"
  "watch p E tr s (Rte_lpm_create a b d) = s" "watch p E tr s (Rte_lpm_add b d f) = s"
  "watch p E tr s (Rte_mtr_meter_profile_add b d) = s" "watch p E tr s (Rte_mtr_meter_policy_add b d) = s"
  "watch p E tr s (Rte_mtr_create b d f g) = s" "watch p E tr s (Rte_flow_create b d) = s"
  "watch p E tr s (Rte_mbuf_dynfield_register a b) = s" "watch p E tr s (Rte_reorder_create a b) = s"
  "watch p E tr s (Rte_graph_create a) = s" "watch p E tr s (Rte_graph_lookup a) = s"
  "watch p E tr s (Rte_pktmbuf_alloc m) = s"
  "watch p E tr s (Lib_call a bs) = s"
  by (simp_all add: watch_def)

lemma watch_port:
  "q \<noteq> p \<Longrightarrow> watch p E tr s (Rte_eth_dev_configure q b d) = s"
  "q \<noteq> p \<Longrightarrow> watch p E tr s (Rte_eth_rx_queue_setup q b d m) = s"
  "q \<noteq> p \<Longrightarrow> watch p E tr s (Rte_eth_tx_queue_setup q b d) = s"
  "q \<noteq> p \<Longrightarrow> watch p E tr s (Rte_eth_dev_start q) = s"
  "\<not> E tr (Rte_eth_dev_configure p b d) < 0 \<Longrightarrow> watch p E tr s (Rte_eth_dev_configure p b d) = s\<lparr>configured := True\<rparr>"
  "\<not> E tr (Rte_eth_rx_queue_setup p 0 d m) < 0 \<Longrightarrow> configured s \<Longrightarrow>
     watch p E tr s (Rte_eth_rx_queue_setup p 0 d m) = s\<lparr>rx_queue := True\<rparr>"
  "\<not> E tr (Rte_eth_tx_queue_setup p 0 d) < 0 \<Longrightarrow> watch p E tr s (Rte_eth_tx_queue_setup p 0 d) = s\<lparr>tx_queue := True\<rparr>"
  "\<not> E tr (Rte_eth_dev_start p) < 0 \<Longrightarrow>
     watch p E tr s (Rte_eth_dev_start p) = s\<lparr>rx_up := rx_up s \<or> rx_queue s, tx_up := tx_up s \<or> tx_queue s\<rparr>"
  by (simp_all add: watch_def)

lemmas monitor_simps = bind_chain must_eq nonnull_eq done_p_def rte_exit_def call_p_def port_idle_def
  watch_other watch_port

end
