(* ===== verification/Ip_Track.thy ===== *)
theory Ip_Track
  imports Rte_Hash Burst Eal Cstdio Samples
begin

text \<open>
  The endpoint trackers of \<open>nat_project\<close>: \<open>sample/saveip.c\<close> (addresses),
  \<open>version2/hash.c\<close> (source and destination endpoints) and \<open>version3/hash.c\<close>
  (source endpoints; \<open>version4\<close> and \<open>version5\<close> carry the same file), the session timer
  of their main loops, and the main loops of \<open>sample\<close> and \<open>version2\<close>.

  Tables are the \<open>rte_hash\<close> parameter of \<open>Rte_Hash\<close>; the data stored with a key is the
  value of the C pointer. The clock is a function from the number of readings so far to the
  value read.
\<close>

record ip_port_key =
  ip :: u32
  port :: u16

subsection \<open>Keys of a packet\<close>

definition ipv4_type :: "mbuf \<Rightarrow> bool" where
  "ipv4_type m \<longleftrightarrow> rd16 m O_ETHER_TYPE = bswap16 RTE_ETHER_TYPE_IPV4"

definition l4_ports :: "mbuf \<Rightarrow> (u16 \<times> u16) option" where
  "l4_ports m =
     (let ip = ETHER_HDR; l4 = ip + IPV4_HDR
      in if rd8 m (ip + O_PROTO) = IPPROTO_TCP then Some (rd16 m (l4 + O_SPORT), rd16 m (l4 + O_DPORT))
         else if rd8 m (ip + O_PROTO) = IPPROTO_UDP then Some (rd16 m (l4 + O_SPORT), rd16 m (l4 + O_DPORT))
         else None)"

text \<open>\<open>if (rte_hash_lookup(ht, &key) < 0) rte_hash_add_key_data(ht, &key, data);\<close>\<close>

definition learn :: "('h, 'k, nat) hash_api \<Rightarrow> 'k \<Rightarrow> nat \<Rightarrow> 'h \<Rightarrow> 'h" where
  "learn H k v h = (if lookup_data H h k = None then snd (add_key_data H h k v) else h)"

fun learn_all :: "('h, 'k, nat) hash_api \<Rightarrow> ('k \<times> nat) list \<Rightarrow> 'h \<Rightarrow> 'h" where
  "learn_all H [] h = h"
| "learn_all H ((k, v) # ks) h = learn_all H ks (learn H k v h)"

subsection \<open>sample/saveip.c\<close>

definition sample_ip_hash_create :: "int prog" where
  "sample_ip_hash_create = nonnull (Rte_hash_create ''ip_table'' 1024 4) ''Failed to create IP hash table'' done_p"

definition print_ip :: "u32 \<Rightarrow> string" where
  "print_ip ip_be =
     (let ip = bswap32 ip_be
      in show_octet (ucast (drop_bit 24 ip)) @ CHR ''.'' # show_octet (ucast (drop_bit 16 ip)) @ CHR ''.'' #
         show_octet (ucast (drop_bit 8 ip)) @ CHR ''.'' # show_octet (ucast ip))"

definition sample_hash_one :: "('h, u32, nat) hash_api \<Rightarrow> mbuf \<Rightarrow> 'h \<Rightarrow> 'h" where
  "sample_hash_one H m h =
     (if \<not> ipv4_type m then h
      else
        (let src = rd32 m (ETHER_HDR + O_SRC); h1 = learn H src (unat src) h;
             dst = rd32 m (ETHER_HDR + O_DST)
         in learn H dst (unat dst) h1))"

definition sample_hash_ips :: "('h, u32, nat) hash_api \<Rightarrow> mbuf list \<Rightarrow> 'h \<Rightarrow> 'h" where
  "sample_hash_ips H bufs h = fold (sample_hash_one H) bufs h"

text \<open>The dump prints the stored data, cast back to an address.\<close>

definition sample_hash_ips_dump :: "('h, u32, nat) hash_api \<Rightarrow> 'h \<Rightarrow> string list" where
  "sample_hash_ips_dump H h = map (\<lambda>(k, d). print_ip (of_nat d)) (hash_iterate H h)"

subsection \<open>version2/hash.c\<close>

definition ip_hash_create :: "int prog" where
  "ip_hash_create = nonnull (Rte_hash_create ''ip_port_table'' 1024 6) ''Failed to create hash table'' done_p"

definition hash_one2 :: "('h, ip_port_key, nat) hash_api \<Rightarrow> mbuf \<Rightarrow> 'h \<Rightarrow> 'h" where
  "hash_one2 H m h =
     (if \<not> ipv4_type m then h
      else
        (case l4_ports m of None \<Rightarrow> h
         | Some (src_port, dst_port) \<Rightarrow>
             (let src_key = \<lparr>ip = rd32 m (ETHER_HDR + O_SRC), port = src_port\<rparr>;
                  h1 = learn H src_key 1 h;
                  dst_key = \<lparr>ip = rd32 m (ETHER_HDR + O_DST), port = dst_port\<rparr>
              in learn H dst_key 1 h1)))"

definition hash_ips2 :: "('h, ip_port_key, nat) hash_api \<Rightarrow> mbuf list \<Rightarrow> 'h \<Rightarrow> 'h" where
  "hash_ips2 H bufs h = fold (hash_one2 H) bufs h"

subsection \<open>version3/hash.c\<close>

definition hash_one3 :: "('h, ip_port_key, nat) hash_api \<Rightarrow> mbuf \<Rightarrow> 'h \<Rightarrow> 'h" where
  "hash_one3 H m h =
     (if \<not> ipv4_type m then h
      else
        (case l4_ports m of None \<Rightarrow> h
         | Some (src_port, _) \<Rightarrow> learn H \<lparr>ip = rd32 m (ETHER_HDR + O_SRC), port = src_port\<rparr> 1 h))"

definition hash_ips3 :: "('h, ip_port_key, nat) hash_api \<Rightarrow> mbuf list \<Rightarrow> 'h \<Rightarrow> 'h" where
  "hash_ips3 H bufs h = fold (hash_one3 H) bufs h"



text \<open>\<open>None\<close> is the null table, which is left alone.\<close>

definition reset_ip_hash :: "('h, 'k, nat) hash_api \<Rightarrow> 'h option \<Rightarrow> 'h option" where
  "reset_ip_hash H ht = (case ht of None \<Rightarrow> None | Some h \<Rightarrow> Some (hash_reset H h))"

subsection \<open>The session timer of the main loops\<close>

record session =
  start_tsc :: u64
  last_rx_tsc :: u64
  started :: bool
  clk :: nat

definition session0 :: session where
  "session0 = \<lparr>start_tsc = 0, last_rx_tsc = 0, started = False, clk = 0\<rparr>"

definition session_first :: "(nat \<Rightarrow> u64) \<Rightarrow> session \<Rightarrow> session" where
  "session_first tsc s =
     (if started s then s else s\<lparr>start_tsc := tsc (clk s), started := True, clk := Suc (clk s)\<rparr>)"

text \<open>\<open>last_rx_tsc = now; elapsed = (now' - start_tsc) / hz;\<close>\<close>

definition session_rx :: "(nat \<Rightarrow> u64) \<Rightarrow> u64 \<Rightarrow> session \<Rightarrow> u64 \<times> session" where
  "session_rx tsc hz s =
     ((tsc (Suc (clk s)) - start_tsc s) div hz, s\<lparr>last_rx_tsc := tsc (clk s), clk := clk s + 2\<rparr>)"

text \<open>The idle branch: whether the limit is reached, which resets the timer.\<close>

definition session_idle :: "(nat \<Rightarrow> u64) \<Rightarrow> u64 \<Rightarrow> u64 \<Rightarrow> session \<Rightarrow> bool \<times> session" where
  "session_idle tsc hz limit s =
     (if started s then
        (let idle = (tsc (clk s) - last_rx_tsc s) div hz; s1 = s\<lparr>clk := Suc (clk s)\<rparr>
         in if limit \<le> idle then (True, s1\<lparr>start_tsc := 0, last_rx_tsc := 0, started := False\<rparr>) else (False, s1))
      else (False, s))"

text \<open>One iteration of the loops of \<open>sample/main.c\<close> and \<open>version2/main.c\<close>.\<close>

definition sample_iter :: "('h, u32, nat) hash_api \<Rightarrow> (nat \<Rightarrow> u64) \<Rightarrow> u64 \<Rightarrow> (mbuf list \<Rightarrow> nat)
    \<Rightarrow> session \<times> 'h \<Rightarrow> mbuf list \<Rightarrow> (session \<times> 'h) \<times> io" where
  "sample_iter H tsc hz tx st rx = (case st of (s, h) \<Rightarrow>
     if rx \<noteq> [] then
       (let s1 = session_first tsc s; h1 = sample_hash_ips H rx h; (_, s2) = session_rx tsc hz s1
        in ((s2, h1), tx_then_free tx rx))
     else (let (_, s1) = session_idle tsc hz 5 s in ((s1, h), \<lparr>sent = [], freed = []\<rparr>)))"

definition v2_iter :: "('h, ip_port_key, nat) hash_api \<Rightarrow> (nat \<Rightarrow> u64) \<Rightarrow> u64 \<Rightarrow> (mbuf list \<Rightarrow> nat)
    \<Rightarrow> session \<times> 'h \<Rightarrow> mbuf list \<Rightarrow> (session \<times> 'h) \<times> io" where
  "v2_iter H tsc hz tx st rx = (case st of (s, h) \<Rightarrow>
     if rx \<noteq> [] then
       (let s1 = session_first tsc s; h1 = hash_ips2 H rx h; (_, s2) = session_rx tsc hz s1
        in ((s2, h1), tx_then_free tx rx))
     else
       (let (fired, s1) = session_idle tsc hz 5 s
        in ((s1, if fired then the (reset_ip_hash H (Some h)) else h), \<lparr>sent = [], freed = []\<rparr>)))"

fun v2_loop :: "('h, ip_port_key, nat) hash_api \<Rightarrow> (nat \<Rightarrow> u64) \<Rightarrow> u64 \<Rightarrow> (mbuf list \<Rightarrow> nat)
    \<Rightarrow> session \<times> 'h \<Rightarrow> mbuf list list \<Rightarrow> (session \<times> 'h) \<times> io list" where
  "v2_loop H tsc hz tx st [] = (st, [])"
| "v2_loop H tsc hz tx st (rx # rxs) =
     (let (st1, x) = v2_iter H tsc hz tx st rx; (st2, xs) = v2_loop H tsc hz tx st1 rxs in (st2, x # xs))"

subsection \<open>What is learned\<close>

definition accepts :: "('h, 'k, nat) hash_api \<Rightarrow> bool" where
  "accepts H \<longleftrightarrow> (\<forall>h k v. 0 \<le> fst (add_key_data H h k v))"

lemma learn_lookup:
  assumes "hash_laws H" "accepts H"
  shows "lookup_data H (learn H k v h) =
    (if lookup_data H h k = None then (lookup_data H h)(k \<mapsto> v) else lookup_data H h)"
  using assms by (simp add: learn_def lookup_add_ok accepts_def)

lemma learn_known:
  assumes "hash_laws H" "lookup_data H h k = Some v"
  shows "lookup_data H (learn H k' w h) k = Some v"
  using assms lookup_add_other [OF assms(1), of k k' h w] by (cases "k = k'") (auto simp: learn_def)

text \<open>The table keeps what it had; of the new pairs the first one of each key is stored.\<close>

lemma learn_all_lookup:
  assumes "hash_laws H" "accepts H"
  shows "lookup_data H (learn_all H ks h) = map_of ks ++ lookup_data H h"
proof (induction ks arbitrary: h)
  case Nil
  then show ?case by simp
next
  case (Cons x ks)
  obtain k v where x: "x = (k, v)" by (cases x)
  show ?case
    by (auto simp: x Cons.IH learn_lookup [OF assms] fun_eq_iff map_add_def split: option.splits)
qed

lemma learn_all_append: "learn_all H (xs @ ys) h = learn_all H ys (learn_all H xs h)"
  by (induction H xs h rule: learn_all.induct) auto

text \<open>The pairs each tracker takes from a packet.\<close>

definition sample_keys :: "mbuf \<Rightarrow> (u32 \<times> nat) list" where
  "sample_keys m = (if ipv4_type m then [(rd32 m 26, unat (rd32 m 26)), (rd32 m 30, unat (rd32 m 30))] else [])"


definition keys3 :: "mbuf \<Rightarrow> (ip_port_key \<times> nat) list" where
  "keys3 m = (case (ipv4_type m, l4_ports m) of
     (True, Some (sp, dp)) \<Rightarrow> [(\<lparr>ip = rd32 m 26, port = sp\<rparr>, 1)] | _ \<Rightarrow> [])"

lemma fold_learn:
  assumes "\<And>m h. f m h = learn_all H (keys m) h"
  shows "fold f ms h = learn_all H (concat (map keys ms)) h"
  by (induction ms arbitrary: h) (simp_all add: assms learn_all_append)

lemma sample_hash_ips_eq: "sample_hash_ips H ms h = learn_all H (concat (map sample_keys ms)) h"
  unfolding sample_hash_ips_def
  by (rule fold_learn) (simp add: sample_hash_one_def sample_keys_def Let_def)


lemma hash_ips3_eq: "hash_ips3 H ms h = learn_all H (concat (map keys3 ms)) h"
  unfolding hash_ips3_def
  by (rule fold_learn) (simp add: hash_one3_def keys3_def split: option.splits)

lemma print_ip_inet_ntop: "print_ip a = inet_ntop a"
proof -
  have b: "ucast (drop_bit 24 (bswap32 a)) = byte32 0 a" "ucast (drop_bit 16 (bswap32 a)) = byte32 1 a"
    "ucast (drop_bit 8 (bswap32 a)) = byte32 2 a" "ucast (bswap32 a) = byte32 3 a"
    using byte32_make32 [of "byte32 3 a" "byte32 2 a" "byte32 1 a" "byte32 0 a"]
    by (simp_all add: bswap32_def byte32_def)
  show ?thesis by (simp add: print_ip_def inet_ntop_def b)
qed

subsection \<open>Properties\<close>






lemma session_idle_fires:
  assumes "hz \<noteq> 0"
  shows "fst (session_idle tsc hz limit s) \<longleftrightarrow>
    started s \<and> unat limit * unat hz \<le> unat (tsc (clk s) - last_rx_tsc s)"
proof -
  have "0 < unat hz" using assms by (simp add: unat_gt_0)
  then have "limit \<le> x div hz \<longleftrightarrow> unat limit * unat hz \<le> unat x" for x
    by (simp add: word_le_nat_alt unat_div less_eq_div_iff_mult_less_eq)
  then show ?thesis by (simp add: session_idle_def Let_def)
qed

lemma v2_loop_step:
  assumes "tx_ok tx"
  shows "sent (snd (v2_iter H tsc hz tx st rx)) @ freed (snd (v2_iter H tsc hz tx st rx)) = rx"
  using tx_then_free_io [OF assms, of rx]
  by (cases st) (auto simp: v2_iter_def Let_def split: prod.splits)

text \<open>
  The loop of \<open>version2\<close> sends or frees every received buffer, in order, for any
  sequence of bursts. When it polls an empty queue the table of endpoints is emptied exactly
  when a session is running and at least five seconds have passed since the last packet;
  otherwise it is unchanged. A session then waits for the next packet.
\<close>

lemma v2_loop_correct:
  assumes "tx_ok tx" "hz \<noteq> 0" "hash_laws H"
  shows "list_all2 (\<lambda>x rx. sent x @ freed x = rx) (snd (v2_loop H tsc hz tx st rxs)) rxs \<and>
    (\<forall>s h s' h' x. v2_iter H tsc hz tx (s, h) [] = ((s', h'), x) \<longrightarrow>
       (if started s \<and> 5 * unat hz \<le> unat (tsc (clk s) - last_rx_tsc s)
        then lookup_data H h' = Map.empty \<and> \<not> started s'
        else h' = h \<and> started s' = started s \<and> last_rx_tsc s' = last_rx_tsc s))"
proof -
  have "list_all2 (\<lambda>x rx. sent x @ freed x = rx) (snd (v2_loop H tsc hz tx st rxs)) rxs"
  proof (induction rxs arbitrary: st)
    case (Cons rx rxs)
    obtain st1 x where i: "v2_iter H tsc hz tx st rx = (st1, x)" by fastforce
    obtain st2 xs where l: "v2_loop H tsc hz tx st1 rxs = (st2, xs)" by fastforce
    show ?case
      using v2_loop_step [OF assms(1), of H tsc hz st rx] Cons.IH [of st1] by (simp add: i l)
  qed simp
  moreover have "if started s \<and> 5 * unat hz \<le> unat (tsc (clk s) - last_rx_tsc s)
        then lookup_data H h' = Map.empty \<and> \<not> started s'
        else h' = h \<and> started s' = started s \<and> last_rx_tsc s' = last_rx_tsc s"
    if it: "v2_iter H tsc hz tx (s, h) [] = ((s', h'), x)" for s h s' h' x
  proof -
    obtain fired s1 where i: "session_idle tsc hz 5 s = (fired, s1)" by fastforce
    have f: "fired \<longleftrightarrow> started s \<and> 5 * unat hz \<le> unat (tsc (clk s) - last_rx_tsc s)"
      using session_idle_fires [OF assms(2), of tsc 5 s] by (simp add: i)
    have s: "s' = s1" "h' = (if fired then hash_reset H h else h)"
      using it by (auto simp: v2_iter_def i reset_ip_hash_def)
    have "if fired then \<not> started s1 else started s1 = started s \<and> last_rx_tsc s1 = last_rx_tsc s"
      using i by (auto simp: session_idle_def Let_def split: if_splits)
    with s lookup_reset [OF assms(3)] show ?thesis unfolding f [symmetric] by auto
  qed
  ultimately show ?thesis by blast
qed

text \<open>
  The address tracker of \<open>sample\<close>, started on an empty table, dumps exactly the
  source and destination addresses of the IPv4 packets it was given, in dotted-decimal form.
\<close>

lemma sample_dump_correct:
  assumes "hash_laws H" "accepts H" "lookup_data H h = Map.empty"
  shows "set (sample_hash_ips_dump H (sample_hash_ips H ms h)) =
    inet_ntop ` (\<Union>m\<in>{m \<in> set ms. ipv4_type m}. {rd32 m (ETHER_HDR + O_SRC), rd32 m (ETHER_HDR + O_DST)})"
proof -
  let ?h = "sample_hash_ips H ms h"
  let ?ks = "concat (map sample_keys ms)"
  have val: "v = unat k" if "(k, v) \<in> set ?ks" for k v
    using that by (auto simp: sample_keys_def split: if_splits)
  have l: "lookup_data H ?h = map_of ?ks"
    by (simp add: sample_hash_ips_eq learn_all_lookup [OF assms(1,2)] assms(3))
  have d: "dom (map_of ?ks) = (\<Union>m\<in>{m \<in> set ms. ipv4_type m}. {rd32 m 26, rd32 m 30})"
    by (auto simp: dom_map_of_conv_image_fst sample_keys_def image_UN split: if_splits)
  have it: "set (hash_iterate H ?h) = {(k, v). lookup_data H ?h k = Some v}"
    using iterate_lookup [OF assms(1), of ?h] iterate_distinct [OF assms(1), of ?h] by (auto simp flip: map_of_eq_Some_iff)
  have "v = unat k" if "(k, v) \<in> set (hash_iterate H ?h)" for k v
  proof -
    from that have "map_of ?ks k = Some v" by (simp only: it l mem_Collect_eq prod.case)
    from val [OF map_of_SomeD [OF this]] show ?thesis .
  qed
  then have "set (sample_hash_ips_dump H ?h) = (\<lambda>(k, v). inet_ntop k) ` set (hash_iterate H ?h)"
    by (force simp: sample_hash_ips_dump_def print_ip_inet_ntop)
  also have "\<dots> = inet_ntop ` dom (lookup_data H ?h)"
    by (auto simp: it image_iff)
  finally show ?thesis by (simp add: l d)
qed

definition unbounded_ip :: "((u32 \<times> nat) list, u32, nat) hash_api" where
  "unbounded_ip = \<lparr>lookup_data = map_of, add_key_data = (\<lambda>t k v. (0, AList.update k v t)),
     del_key = (\<lambda>t k. (0, AList.delete k t)), hash_reset = (\<lambda>_. []), hash_iterate = AList.clearjunk\<rparr>"

end
