(* ===== verification/Nat_Static.thy ===== *)
theory Nat_Static
  imports Ip_Track Nat_Rewrite
begin

text \<open>
  The static 1:1 NAT of \<open>nat_project/version3\<close>: \<open>static_nat.c\<close>, the configuration
  reader of \<open>config.c\<close> and the packet loop of \<open>main.c\<close>.

  A \<open>struct nat_entry\<close> is never changed or freed once it is in the table, so the table
  holds its value instead of its address. \<open>malloc\<close> is a parameter: it returns no memory,
  or memory with arbitrary content, which stays in a field when \<open>inet_pton\<close> rejects the
  text (the code ignores its result). \<open>Inl\<close> is \<open>rte_exit\<close> with its message.
\<close>

record nat_map =
  private_ip :: u32
  public_ip :: u32

record 'h static_env =
  t_hash :: "('h, u32, nat_map) hash_api"
  t_malloc :: "'h \<Rightarrow> nat_map option"

subsection \<open>static_nat.c\<close>

definition nat_table_create :: "int prog" where
  "nat_table_create = nonnull (Rte_hash_create ''nat_table'' 1024 4) ''Failed to create NAT hash table'' done_p"

definition nat_add_mapping :: "'h static_env \<Rightarrow> 'h \<Rightarrow> string \<Rightarrow> string \<Rightarrow> string + 'h" where
  "nat_add_mapping E ht private public =
     (case t_malloc E ht of None \<Rightarrow> Inl ''Failed to allocate NAT entry''
      | Some e0 \<Rightarrow>
          (let e1 = (case inet_pton private of None \<Rightarrow> e0 | Some a \<Rightarrow> e0\<lparr>private_ip := a\<rparr>);
               entry = (case inet_pton public of None \<Rightarrow> e1 | Some a \<Rightarrow> e1\<lparr>public_ip := a\<rparr>);
               (ret, ht') = add_key_data (t_hash E) ht (private_ip entry) entry
           in if ret < 0 then Inl ''Failed to add NAT mapping'' else Inr ht'))"

definition nat_apply_one :: "cksum_api \<Rightarrow> ('h, u32, nat_map) hash_api \<Rightarrow> 'h \<Rightarrow> mbuf \<Rightarrow> mbuf" where
  "nat_apply_one C H ht m =
     (if \<not> is_ipv4 m then m
      else
        (case lookup_data H ht (rd32 m (ETHER_HDR + O_SRC)) of None \<Rightarrow> m
         | Some entry \<Rightarrow> recalc C (wr32 m (ETHER_HDR + O_SRC) (public_ip entry))))"

definition nat_apply :: "cksum_api \<Rightarrow> ('h, u32, nat_map) hash_api \<Rightarrow> 'h \<Rightarrow> mbuf list \<Rightarrow> mbuf list" where
  "nat_apply C H ht bufs = map (nat_apply_one C H ht) bufs"

definition nat_dump :: "('h, u32, nat_map) hash_api \<Rightarrow> 'h \<Rightarrow> string list" where
  "nat_dump H ht = map (\<lambda>(_, e). inet_ntop (private_ip e) @ '' -> '' @ inet_ntop (public_ip e)) (hash_iterate H ht)"

subsection \<open>config.c\<close>

text \<open>The loop over the lines of the file, with a line buffer of 64 characters.\<close>

function load_lines :: "'h static_env \<Rightarrow> string \<Rightarrow> 'h \<Rightarrow> nat \<Rightarrow> string + ('h \<times> nat)" where
  "load_lines E f ht cnt =
     (case fgets 64 f of None \<Rightarrow> Inr (ht, cnt)
      | Some (line, f') \<Rightarrow>
          if hd line = NL \<or> hd line = CHR ''#'' then load_lines E f' ht cnt
          else
            (case sscanf_ss 31 line of None \<Rightarrow> load_lines E f' ht cnt
             | Some (private, public) \<Rightarrow>
                 (case nat_add_mapping E ht private public of Inl msg \<Rightarrow> Inl msg
                  | Inr ht' \<Rightarrow> load_lines E f' ht' (Suc cnt))))"
  by pat_completeness auto
termination
  by (relation "measure (\<lambda>(E, f, ht, cnt). length f)") (auto dest: fgets_shorter)

declare load_lines.simps [simp del]

text \<open>\<open>None\<close> is a file that cannot be opened.\<close>

definition nat_load_from_file :: "'h static_env \<Rightarrow> 'h \<Rightarrow> string option \<Rightarrow> string + 'h" where
  "nat_load_from_file E ht file =
     (case file of None \<Rightarrow> Inr ht
      | Some f \<Rightarrow> (case load_lines E f ht 0 of Inl msg \<Rightarrow> Inl msg | Inr (ht', _) \<Rightarrow> Inr ht'))"

subsection \<open>main.c\<close>

text \<open>
  \<open>scanf("%31s", buf)\<close> on standard input, the list of words still to come: at the end of
  the input it fails and leaves the buffer as it was. The code ignores its result.
\<close>

fun scanf_word :: "string \<Rightarrow> string list \<Rightarrow> string \<times> string list" where
  "scanf_word b [] = (b, [])"
| "scanf_word b (w # ws) = (w, ws)"

text \<open>
  The manual entry loop: pairs of words until \<open>exit\<close>. The two buffers are uninitialised at
  first. A loop that never ends is \<open>None\<close>; \<open>Inl\<close> is \<open>rte_exit\<close> in \<open>nat_add_mapping\<close>.
\<close>

partial_function (option) manual_entry :: "'h static_env \<Rightarrow> string \<Rightarrow> string \<Rightarrow> string list \<Rightarrow> 'h \<Rightarrow> (string + 'h) option" where
  "manual_entry E private public ws ht =
     (let (private, ws) = scanf_word private ws
      in if private = ''exit'' then Some (Inr ht)
         else
           (let (public, ws) = scanf_word public ws
            in case nat_add_mapping E ht private public of Inl msg \<Rightarrow> Some (Inl msg)
               | Inr ht' \<Rightarrow> manual_entry E private public ws ht'))"

text \<open>The choice at start-up: 1 loads the file, anything else (also a failed \<open>scanf\<close>) asks.\<close>

definition v3_mappings :: "'h static_env \<Rightarrow> int \<Rightarrow> string option \<Rightarrow> string \<Rightarrow> string \<Rightarrow> string list \<Rightarrow> 'h \<Rightarrow> (string + 'h) option" where
  "v3_mappings E opt file private public ws ht =
     (if opt = 1 then Some (nat_load_from_file E ht file) else manual_entry E private public ws ht)"

definition v3_iter :: "cksum_api \<Rightarrow> ('h, u32, nat_map) hash_api \<Rightarrow> ('g, ip_port_key, nat) hash_api \<Rightarrow> (nat \<Rightarrow> u64)
    \<Rightarrow> u64 \<Rightarrow> (mbuf list \<Rightarrow> nat) \<Rightarrow> 'h \<Rightarrow> session \<times> 'g \<Rightarrow> mbuf list \<Rightarrow> (session \<times> 'g) \<times> io" where
  "v3_iter C H G tsc hz tx nat_t st rx = (case st of (s, ht) \<Rightarrow>
     if rx \<noteq> [] then
       (let s1 = session_first tsc s; bufs = nat_apply C H nat_t rx; (_, s2) = session_rx tsc hz s1
        in ((s2, ht), tx_then_free tx bufs))
     else
       (let (fired, s1) = session_idle tsc hz 5 s
        in ((s1, if fired then the (reset_ip_hash G (Some ht)) else ht), \<lparr>sent = [], freed = []\<rparr>)))"

subsection \<open>Loading a configuration\<close>


definition mapping_of :: "u32 \<times> u32 \<Rightarrow> u32 \<times> nat_map" where
  "mapping_of p = (fst p, \<lparr>private_ip = fst p, public_ip = snd p\<rparr>)"

text \<open>Memory is available and the table accepts the insertion.\<close>

definition provides :: "'h static_env \<Rightarrow> bool" where
  "provides E \<longleftrightarrow> hash_laws (t_hash E) \<and> (\<forall>h. t_malloc E h \<noteq> None) \<and>
     (\<forall>h k v. 0 \<le> fst (add_key_data (t_hash E) h k v))"

lemma nat_add_mapping_ok:
  assumes "provides E"
  shows "\<exists>ht'. nat_add_mapping E ht (inet_ntop (fst p)) (inet_ntop (snd p)) = Inr ht' \<and>
    lookup_data (t_hash E) ht' = (lookup_data (t_hash E) ht)(fst (mapping_of p) \<mapsto> snd (mapping_of p))"
proof -
  have "t_malloc E ht \<noteq> None" using assms by (simp add: provides_def)
  then obtain e0 where m: "t_malloc E ht = Some e0" by auto
  let ?e = "\<lparr>private_ip = fst p, public_ip = snd p\<rparr>"
  have e: "e0\<lparr>private_ip := fst p, public_ip := snd p\<rparr> = ?e" by (cases e0) simp
  obtain r ht' where a: "add_key_data (t_hash E) ht (fst p) ?e = (r, ht')" by fastforce
  have "0 \<le> fst (add_key_data (t_hash E) ht (fst p) ?e)" using assms by (simp add: provides_def)
  then have r: "0 \<le> r" by (simp add: a)
  have "lookup_data (t_hash E) ht' = (lookup_data (t_hash E) ht)(fst p \<mapsto> ?e)"
    using lookup_add_ok [of "t_hash E" ht "fst p" ?e] assms r a by (simp add: provides_def)
  then show ?thesis
    using m r by (simp add: nat_add_mapping_def inet_pton_ntop e a mapping_of_def)
qed

lemma fgets_line:
  assumes "NL \<notin> set l" "length l < 63"
  shows "fgets 64 (l @ NL # r) = Some (l @ [NL], r)"
  using line_of_line [OF assms(1), of 63 r] assms(2) by (simp add: fgets_def)

lemma load_config_line:
  "load_lines E (config_line p @ NL # r) ht cnt =
     (case nat_add_mapping E ht (inet_ntop (fst p)) (inet_ntop (snd p)) of Inl msg \<Rightarrow> Inl msg
      | Inr ht' \<Rightarrow> load_lines E r ht' (Suc cnt))"
proof -
  have "fgets 64 (config_line p @ NL # r) = Some (config_line p @ [NL], r)"
    using config_line_chars(4,5) [of p] by (intro fgets_line) auto
  moreover have "hd (config_line p @ [NL]) = hd (config_line p)" using config_line_chars(1) [of p] by simp
  ultimately show ?thesis
    using config_line_chars(2,3) [of p]
    by (simp add: load_lines.simps [of E "config_line p @ NL # r"] sscanf_config_line)
qed







subsection \<open>Entering a configuration by hand\<close>










text \<open>
  The line buffer holds 63 characters, so a longer line is read in pieces: when a comment
  has exactly 63 characters before a \<open>private public\<close> pair on the same line, the pair is
  read as a line of its own and the mapping is installed although it is commented out.
\<close>

lemma long_comment_loaded:
  assumes "provides E" "NL \<notin> set text" "length text = 62"
  shows "\<exists>ht'. nat_load_from_file E ht (Some (CHR ''#'' # text @ config_line p @ [NL])) = Inr ht' \<and>
    lookup_data (t_hash E) ht' = (lookup_data (t_hash E) ht)(fst p \<mapsto> \<lparr>private_ip = fst p, public_ip = snd p\<rparr>)"
proof -
  let ?l = "CHR ''#'' # text" and ?r = "config_line p @ NL # []"
  have split: "line_of (length l) (l @ r) = (l, r)" if "NL \<notin> set l" for l r
    using that by (induction l) auto
  have "line_of 63 (?l @ ?r) = (?l, ?r)" using split [of ?l ?r] assms(2,3) by (simp add: NL_def)
  then have "fgets 64 (?l @ ?r) = Some (?l, ?r)" by (simp add: fgets_def)
  then have "load_lines E (?l @ ?r) ht 0 = load_lines E ?r ht 0"
    unfolding load_lines.simps [of E "?l @ ?r"] by simp
  moreover have "load_lines E [] h c = Inr (h, c)" for h c by (simp add: load_lines.simps [of E "[]"] fgets_def)
  ultimately show ?thesis
    using nat_add_mapping_ok [OF assms(1), of ht p] load_config_line [of E p "[]" ht 0]
    by (auto simp: nat_load_from_file_def mapping_of_def)
qed

text \<open>
  The result of \<open>inet_pton\<close> is ignored: a mapping whose public address does not parse
  is installed all the same, with whatever the allocated memory held as its public address.
\<close>

lemma bad_address_uninitialised:
  assumes "hash_laws (t_hash E)" "t_malloc E ht = Some e0" "inet_pton private = Some a" "inet_pton public = None"
    and "0 \<le> fst (add_key_data (t_hash E) ht a \<lparr>private_ip = a, public_ip = public_ip e0\<rparr>)"
  shows "\<exists>ht'. nat_add_mapping E ht private public = Inr ht' \<and>
    lookup_data (t_hash E) ht' a = Some \<lparr>private_ip = a, public_ip = public_ip e0\<rparr>"
proof -
  let ?e = "\<lparr>private_ip = a, public_ip = public_ip e0\<rparr>"
  have e: "e0\<lparr>private_ip := a\<rparr> = ?e" by (cases e0) simp
  obtain r ht' where r: "add_key_data (t_hash E) ht a ?e = (r, ht')" by fastforce
  have "lookup_data (t_hash E) ht' a = Some ?e"
    using lookup_add_ok [OF assms(1,5)] by (simp add: r)
  with assms r show ?thesis by (simp add: nat_add_mapping_def e)
qed

subsection \<open>Translating packets\<close>



end
