(* ===== verification/Nat_Pool4.thy ===== *)
theory Nat_Pool4
  imports Nat_Slots Ip_Track
begin

text \<open>
  The pool NAT of \<open>nat_project/version4\<close>: \<open>static_nat.c\<close> and the loop of
  \<open>main.c\<close>. There is no timer: a search for a free slot releases the idle ones in the same
  pass over the array. The loop also runs the session timer of \<open>Ip_Track\<close>.

  \<open>find_free_slot_spec\<close> shows that the single pass computes the same as releasing all
  idle slots first and then taking the first free one.
\<close>

record 'h nat_pool4 =
  entries :: "nat_pool_entry list"
  pool_start_ip :: u32
  pool_size :: u32
  idle_tsc :: u64
  map_tab :: 'h
  reads :: nat

record 'h pool4_env =
  p4_hash :: "('h, u32, nat) hash_api"
  p4_cksum :: cksum_api
  p4_tsc :: "nat \<Rightarrow> u64"
  p4_hz :: u64

subsection \<open>static_nat.c\<close>

text \<open>\<open>junk\<close> is what the address variable held before \<open>inet_pton\<close>; \<open>None\<close> is \<open>rte_exit\<close>.\<close>

definition nat_pool_create4 :: "u32 \<Rightarrow> bool \<Rightarrow> 'h option \<Rightarrow> nat \<Rightarrow> string \<Rightarrow> u32 \<Rightarrow> u64 \<Rightarrow> 'h nat_pool4 option" where
  "nat_pool_create4 junk alloc_ok tab n start_ip rng hz =
     (if \<not> alloc_ok then None
      else
        (case tab of None \<Rightarrow> None
         | Some h \<Rightarrow>
             (let addr = (case inet_pton start_ip of None \<Rightarrow> junk | Some a \<Rightarrow> a); start = bswap32 addr
              in Some \<lparr>entries = map (\<lambda>i. \<lparr>private_ip = 0, public_ip = pool_ip start i, last_seen_tsc = 0, in_use = False\<rparr>)
                         [0..<unat rng],
                       pool_start_ip = start, pool_size = rng, idle_tsc = hz * 5, map_tab = h, reads = n\<rparr>)))"

text \<open>One step of the pass: the slot kept so far, the array and the table.\<close>

definition scan_slot :: "('h, u32, nat) hash_api \<Rightarrow> u64 \<Rightarrow> u64 \<Rightarrow> nat \<Rightarrow> int \<times> nat_pool_entry list \<times> 'h
    \<Rightarrow> int \<times> nat_pool_entry list \<times> 'h" where
  "scan_slot H now idle_t i x = (case x of (free_slot, es, h) \<Rightarrow>
     if \<not> in_use (es ! i) then (if free_slot = -1 then to_int i else free_slot, es, h)
     else if idle now idle_t (es ! i) then
       (case release_slot H i (es, h) of (es', h') \<Rightarrow> (if free_slot = -1 then to_int i else free_slot, es', h'))
     else (free_slot, es, h))"

definition find_free_slot4 :: "'h pool4_env \<Rightarrow> 'h nat_pool4 \<Rightarrow> int \<times> 'h nat_pool4" where
  "find_free_slot4 E p =
     (let now = p4_tsc E (reads p)
      in case fold (scan_slot (p4_hash E) now (idle_tsc p)) [0..<unat (pool_size p)] (-1, entries p, map_tab p) of
           (free_slot, es, h) \<Rightarrow> (free_slot, p\<lparr>entries := es, map_tab := h, reads := Suc (reads p)\<rparr>))"

definition pool4_packet :: "'h pool4_env \<Rightarrow> 'h nat_pool4 handler" where
  "pool4_packet E p m =
     (if \<not> is_ipv4 m then Some (p, m, True)
      else
        (let src = rd32 m (ETHER_HDR + O_SRC)
         in case lookup_data (p4_hash E) (map_tab p) src of
              Some data \<Rightarrow>
                (let slot = to_int data; i = nat slot
                 in if slot < 0 \<or> length (entries p) \<le> i then None
                    else
                      Some (p\<lparr>entries := (entries p)[i := (entries p ! i)\<lparr>last_seen_tsc := p4_tsc E (reads p)\<rparr>],
                              reads := Suc (reads p)\<rparr>,
                            recalc (p4_cksum E) (wr32 m (ETHER_HDR + O_SRC) (public_ip (entries p ! i))), True))
            | None \<Rightarrow>
                (case find_free_slot4 E p of (slot, p1) \<Rightarrow>
                   let i = nat slot
                   in if slot < 0 then Some (p1, m, False)
                      else if length (entries p1) \<le> i then None
                      else
                        Some (p1\<lparr>entries := (entries p1)[i := (entries p1 ! i)\<lparr>private_ip := src, in_use := True,
                                   last_seen_tsc := p4_tsc E (reads p1)\<rparr>],
                                 reads := Suc (reads p1),
                                 map_tab := snd (add_key_data (p4_hash E) (map_tab p1) src i)\<rparr>,
                              recalc (p4_cksum E) (wr32 m (ETHER_HDR + O_SRC) (public_ip (entries p1 ! i))), True))))"

text \<open>A null pool is used as soon as a packet is IPv4.\<close>

definition null_pool_packet :: "unit handler" where
  "null_pool_packet u m = (if \<not> is_ipv4 m then Some (u, m, True) else None)"

definition nat_pool_apply4 :: "'h pool4_env \<Rightarrow> 'h nat_pool4 option \<Rightarrow> mbuf list
    \<Rightarrow> ('h nat_pool4 option \<times> mbuf option list \<times> mbuf list) option" where
  "nat_pool_apply4 E pool bufs =
     (case pool of
        None \<Rightarrow> map_option (\<lambda>(_, b, fr). (None, b, fr)) (apply_null null_pool_packet () bufs)
      | Some p \<Rightarrow> map_option (\<lambda>(p', b, fr). (Some p', b, fr)) (apply_null (pool4_packet E) p bufs))"

definition nat_pool_dump4 :: "'h nat_pool4 \<Rightarrow> nat \<times> nat \<times> (nat \<times> string \<times> string) list" where
  "nat_pool_dump4 p =
     (let used = filter (\<lambda>i. in_use (entries p ! i)) [0..<unat (pool_size p)]
      in (length used, unat (pool_size p) - length used,
          map (\<lambda>i. (i, inet_ntop (private_ip (entries p ! i)), inet_ntop (public_ip (entries p ! i)))) used))"

subsection \<open>main.c\<close>

text \<open>
  One iteration. The pool may be \<open>NULL\<close>: \<open>nat_load_from_file\<close> returns it for a bad
  file and \<open>main\<close> does not check. The session's clock counter runs on through the packets.
\<close>

definition v4_iter :: "'h pool4_env \<Rightarrow> ('g, ip_port_key, nat) hash_api \<Rightarrow> (mbuf list \<Rightarrow> nat)
    \<Rightarrow> session \<times> 'h nat_pool4 option \<times> 'g \<Rightarrow> mbuf list \<Rightarrow> ((session \<times> 'h nat_pool4 option \<times> 'g) \<times> io) option" where
  "v4_iter E G tx st rx = (case st of (s, pool, ht) \<Rightarrow>
     if rx \<noteq> [] then
       (let s1 = session_first (p4_tsc E) s
        in case nat_pool_apply4 E (map_option (\<lambda>p. p\<lparr>reads := clk s1\<rparr>) pool) rx of None \<Rightarrow> None
           | Some (pool', bufs, fr) \<Rightarrow>
               (let s2 = s1\<lparr>clk := (case pool' of None \<Rightarrow> clk s1 | Some p \<Rightarrow> reads p)\<rparr>;
                    (_, s3) = session_rx (p4_tsc E) (p4_hz E) s2
                in Some ((s3, pool', ht), \<lparr>sent = tx_each tx (List.map_filter id bufs), freed = fr\<rparr>)))
     else
       (let (fired, s1) = session_idle (p4_tsc E) (p4_hz E) 15 s
        in if fired \<and> pool = None then None
           else Some ((s1, pool, if fired then the (reset_ip_hash G (Some ht)) else ht), \<lparr>sent = [], freed = []\<rparr>)))"

subsection \<open>The single pass\<close>

definition first_free :: "nat_pool_entry list \<Rightarrow> nat \<Rightarrow> int" where
  "first_free es n = (case find (\<lambda>i. \<not> in_use (es ! i)) [0..<n] of None \<Rightarrow> -1 | Some i \<Rightarrow> to_int i)"

lemma to_int_not_minus_one: "i < 4294967295 \<Longrightarrow> to_int i \<noteq> -1"
  using to_int_small [of i] to_int_large [of i] by (cases "i < 2147483648") auto

lemma find_upt_Suc:
  "find P [0..<Suc n] = (case find P [0..<n] of None \<Rightarrow> if P n then Some n else None | Some i \<Rightarrow> Some i)"
proof -
  have "find P (xs @ [x]) = (case find P xs of None \<Rightarrow> if P x then Some x else None | Some i \<Rightarrow> Some i)" for xs x
    by (induction xs) auto
  then show ?thesis by simp
qed

lemma find_cong_upt: "(\<And>i. i < n \<Longrightarrow> P i = Q i) \<Longrightarrow> find P [0..<n] = find Q [0..<n]"
  by (rule find_cong) auto

lemma scan_pass:
  assumes "n \<le> length es" "n < 4294967296" "expire_slots H now t n (es, h) = (es', h')"
  shows "fold (scan_slot H now t) [0..<n] (-1, es, h) = (first_free es' n, es', h')"
  using assms
proof (induction n arbitrary: es' h')
  case 0
  then show ?case by (simp add: expire_slots_def first_free_def)
next
  case (Suc n)
  obtain es1 h1 where 1: "expire_slots H now t n (es, h) = (es1, h1)" by fastforce
  from Suc.IH [OF _ _ 1] Suc.prems(1,2)
  have IH: "fold (scan_slot H now t) [0..<n] (-1, es, h) = (first_free es1 n, es1, h1)" by simp
  have len: "length es1 = length es"
    using 1 unfolding expire_slots_def
  proof (induction n arbitrary: es1 h1)
    case (Suc n)
    obtain es0 h0 where 0: "fold (expire_slot H now t) [0..<n] (es, h) = (es0, h0)" by fastforce
    with Suc.IH [OF 0] Suc.prems show ?case by (auto simp: expire_slot_eq split: if_splits)
  qed simp
  have n: "n < length es1" using Suc.prems(1) len by simp
  have 2: "expire_slot H now t n (es1, h1) = (es', h')"
    using Suc.prems(3) 1 by (simp add: expire_slots_def)
  have same: "es' ! i = es1 ! i" if "i \<noteq> n" for i
    using 2 that by (auto simp: expire_slot_eq split: if_splits)
  have ff: "first_free es' (Suc n) =
      (if first_free es1 n = -1 then if in_use (es' ! n) then -1 else to_int n else first_free es1 n)"
  proof -
    have "find (\<lambda>i. \<not> in_use (es' ! i)) [0..<n] = find (\<lambda>i. \<not> in_use (es1 ! i)) [0..<n]"
      by (rule find_cong_upt) (simp add: same)
    moreover have "to_int i \<noteq> -1" if "find (\<lambda>i. \<not> in_use (es1 ! i)) [0..<n] = Some i" for i
      using that Suc.prems(2) by (intro to_int_not_minus_one) (auto simp: find_Some_iff)
    ultimately show ?thesis
      unfolding first_free_def find_upt_Suc by (auto split: option.splits)
  qed
  have "scan_slot H now t n (first_free es1 n, es1, h1) = (first_free es' (Suc n), es', h')"
    using 2 n unfolding ff
    by (auto simp: scan_slot_def expire_slot_def release_slot_def clear_slot_def split: if_splits)
  then show ?case using IH by simp
qed

subsection \<open>The invariant\<close>

definition pool4_inv :: "'h pool4_env \<Rightarrow> 'h nat_pool4 \<Rightarrow> bool" where
  "pool4_inv E p \<longleftrightarrow> slots_ok (p4_hash E) (entries p) (map_tab p) \<and> length (entries p) = unat (pool_size p) \<and>
     (\<forall>i < length (entries p). public_ip (entries p ! i) = pool_ip (pool_start_ip p) i)"

lemma pool4_invD:
  assumes "pool4_inv E p"
  shows "slots_ok (p4_hash E) (entries p) (map_tab p)" "length (entries p) = unat (pool_size p)"
    "i < length (entries p) \<Longrightarrow> public_ip (entries p ! i) = pool_ip (pool_start_ip p) i"
  using assms by (simp_all add: pool4_inv_def)

lemma find_free_slot4_expire:
  assumes "length (entries p) = unat (pool_size p)"
    and "expire_slots (p4_hash E) (p4_tsc E (reads p)) (idle_tsc p) (unat (pool_size p)) (entries p, map_tab p) = (es, h)"
  shows "find_free_slot4 E p =
    (first_free es (unat (pool_size p)), p\<lparr>entries := es, map_tab := h, reads := Suc (reads p)\<rparr>)"
  using scan_pass [OF _ _ assms(2)] assms(1) unat_u32_less [of "pool_size p"]
  by (simp add: find_free_slot4_def Let_def)

lemma first_free_ok:
  assumes "0 \<le> first_free es n" "n < 4294967296"
  obtains i where "first_free es n = int i" "i < n" "i < 2147483648" "\<not> in_use (es ! i)"
proof -
  from assms(1) obtain i where f: "find (\<lambda>i. \<not> in_use (es ! i)) [0..<n] = Some i"
    and s: "first_free es n = to_int i" by (auto simp: first_free_def split: option.splits)
  from f have i: "i < n" "\<not> in_use (es ! i)" by (auto simp: find_Some_iff)
  have "i < 2147483648" using assms s i(1) to_int_large [of i] by force
  with i s to_int_small show ?thesis by (intro that [of i]) simp_all
qed

lemma find_free_slot4_inv:
  assumes "pool4_inv E p" "find_free_slot4 E p = (slot, p1)"
  shows "pool4_inv E p1" "pool_size p1 = pool_size p"
    "0 \<le> slot \<Longrightarrow> \<exists>i. slot = int i \<and> i < length (entries p1) \<and> i < 2147483648 \<and> \<not> in_use (entries p1 ! i)"
proof -
  note d = pool4_invD [OF assms(1)]
  obtain es h where x: "expire_slots (p4_hash E) (p4_tsc E (reads p)) (idle_tsc p) (unat (pool_size p))
      (entries p, map_tab p) = (es, h)" by fastforce
  note f = find_free_slot4_expire [OF d(2) x]
  note ok = expire_slots_ok [OF d(1) x [folded d(2)]]
  have p1: "p1 = p\<lparr>entries := es, map_tab := h, reads := Suc (reads p)\<rparr>" "slot = first_free es (unat (pool_size p))"
    using f assms(2) by simp_all
  show "pool4_inv E p1" using ok d(2,3) by (simp add: p1 pool4_inv_def)
  show "pool_size p1 = pool_size p" by (simp add: p1)
  show "\<exists>i. slot = int i \<and> i < length (entries p1) \<and> i < 2147483648 \<and> \<not> in_use (entries p1 ! i)" if "0 \<le> slot"
  proof -
    from first_free_ok [OF that [unfolded p1(2)] unat_u32_less] obtain i where
      "first_free es (unat (pool_size p)) = int i" "i < unat (pool_size p)" "i < 2147483648" "\<not> in_use (es ! i)" .
    then show ?thesis using ok(2) d(2) by (auto simp: p1)
  qed
qed

lemma recalc_src_id [simp]: "mbuf_id (recalc C (wr32 m i a)) = mbuf_id m"
  by simp

lemma pool4_packet_inv:
  assumes "pool4_inv E p"
  shows "\<exists>p' m' keep. pool4_packet E p m = Some (p', m', keep) \<and> pool4_inv E p' \<and> mbuf_id m' = mbuf_id m"
proof (cases "is_ipv4 m")
  case False
  with assms show ?thesis by (auto simp: pool4_packet_def)
next
  case v4: True
  note d = pool4_invD [OF assms]
  let ?src = "rd32 m (ETHER_HDR + O_SRC)"
  show ?thesis
  proof (cases "lookup_data (p4_hash E) (map_tab p) ?src")
    case (Some i)
    note s = slots_ok_D [OF d(1) Some]
    have "slots_ok (p4_hash E) ((entries p)[i := (entries p ! i)\<lparr>last_seen_tsc := p4_tsc E (reads p)\<rparr>]) (map_tab p)"
      by (rule slots_ok_touch [OF d(1)]) simp_all
    with v4 Some s d show ?thesis by (auto simp: pool4_packet_def pool4_inv_def nth_upd Let_def)
  next
    case None
    obtain slot p1 where f: "find_free_slot4 E p = (slot, p1)" by fastforce
    note g = find_free_slot4_inv [OF assms f]
    note d1 = pool4_invD [OF g(1)]
    show ?thesis
    proof (cases "slot < 0")
      case True
      with v4 None f g(1) show ?thesis by (auto simp: pool4_packet_def Let_def)
    next
      case False
      then obtain i where i: "slot = int i" "i < length (entries p1)" "i < 2147483648" "\<not> in_use (entries p1 ! i)"
        using g(3) by auto
      let ?e = "(entries p1 ! i)\<lparr>private_ip := ?src, in_use := True, last_seen_tsc := p4_tsc E (reads p1)\<rparr>"
      have "slots_ok (p4_hash E) ((entries p1)[i := ?e]) (snd (add_key_data (p4_hash E) (map_tab p1) ?src i))"
        by (rule slots_ok_assign [OF d1(1)]) (use i in simp_all)
      with v4 None f i d1 show ?thesis by (auto simp: pool4_packet_def pool4_inv_def nth_upd Let_def)
    qed
  qed
qed

interpretation pool4_burst: burst_handler "pool4_packet E" "pool4_inv E" for E
  by unfold_locales (rule pool4_packet_inv)

lemma nat_pool_create4_inv:
  assumes "nat_pool_create4 junk ok (Some h) n start rng hz = Some p" "hash_laws (p4_hash E)"
    "lookup_data (p4_hash E) h = Map.empty"
  shows "pool4_inv E p"
  using assms by (auto simp: nat_pool_create4_def pool4_inv_def slots_ok_def Let_def split: if_splits)

subsection \<open>Properties\<close>

definition demo4_env :: "(u32 \<times> nat) list pool4_env" where
  "demo4_env = \<lparr>p4_hash = ref_hash 8, p4_cksum = ref_cksum, p4_tsc = of_nat, p4_hz = 10\<rparr>"

definition demo4_pool :: "(u32 \<times> nat) list nat_pool4" where
  "demo4_pool = \<lparr>entries = map (\<lambda>i. \<lparr>private_ip = 0, public_ip = pool_ip (ipv4_addr 203 0 113 1) i,
       last_seen_tsc = 0, in_use = False\<rparr>) [0..<2],
     pool_start_ip = ipv4_addr 203 0 113 1, pool_size = 2, idle_tsc = 50, map_tab = [], reads = 100\<rparr>"

lemma demo4_inv: "pool4_inv demo4_env demo4_pool"
proof -
  have "hash_laws (p4_hash demo4_env)" by (simp add: demo4_env_def ref_hash_laws)
  then show ?thesis
    by (simp add: pool4_inv_def slots_ok_def)
      (auto simp: demo4_pool_def demo4_env_def ref_hash_def all_entries_def)
qed

text \<open>
  C17. The single pass of \<open>version4\<close> is equivalent to two: first every slot that has been
  idle long enough is released (cleared, and its source removed from the table), then the
  first free slot is taken. It returns \<open>-1\<close> when, after the release, none is free.
\<close>

theorem find_free_slot4_two_passes:
  assumes "pool4_inv E p" "find_free_slot4 E p = (slot, p1)"
  shows "slot = first_free (entries p1) (unat (pool_size p)) \<and>
    (let dead = (\<lambda>e. in_use e \<and> idle_tsc p \<le> p4_tsc E (reads p) - last_seen_tsc e) in
      entries p1 = map (\<lambda>i. if dead (entries p ! i) then clear_slot (entries p ! i) else entries p ! i)
        [0..<length (entries p)] \<and>
      lookup_data (p4_hash E) (map_tab p1) =
        (\<lambda>k. if \<exists>i < length (entries p). dead (entries p ! i) \<and> private_ip (entries p ! i) = k then None
             else lookup_data (p4_hash E) (map_tab p) k))"
proof -
  note d = pool4_invD [OF assms(1)]
  have laws: "hash_laws (p4_hash E)" using d(1) by (simp add: slots_ok_def)
  obtain es h where x: "expire_slots (p4_hash E) (p4_tsc E (reads p)) (idle_tsc p) (unat (pool_size p))
      (entries p, map_tab p) = (es, h)" by fastforce
  note eff = expire_slots_eff [OF laws order.refl x [folded d(2)]]
  have p1: "p1 = p\<lparr>entries := es, map_tab := h, reads := Suc (reads p)\<rparr>" "slot = first_free es (unat (pool_size p))"
    using find_free_slot4_expire [OF d(2) x] assms(2) by simp_all
  show ?thesis by (simp add: p1 eff stale_def idle_def Let_def)
qed

theorem find_free_slot4_two_passes_witness:
  "\<exists>slot p1. find_free_slot4 demo4_env demo4_pool = (slot, p1) \<and> slot = first_free (entries p1) 2"
proof -
  obtain slot p1 where f: "find_free_slot4 demo4_env demo4_pool = (slot, p1)" by fastforce
  from find_free_slot4_two_passes [OF demo4_inv f] f show ?thesis by (simp add: demo4_pool_def)
qed

text \<open>
  An iteration of the \<open>version4\<close> loop with a pool never indexes outside the array,
  keeps the invariant, and sends or frees only buffers it received. With a null pool (the
  configuration file had no usable line, which \<open>main\<close> does not check) it dereferences the
  null pointer as soon as the burst starts with an IPv4 packet.
\<close>

lemma v4_iter_safe:
  "(pool4_inv E p \<longrightarrow>
     (\<exists>s' p' ht' x. v4_iter E G tx (s, Some p, ht) rx = Some ((s', Some p', ht'), x) \<and> pool4_inv E p' \<and>
        mset (map mbuf_id (sent x)) + mset (map mbuf_id (freed x)) \<subseteq># mset (map mbuf_id rx))) \<and>
   (is_ipv4 m \<longrightarrow> v4_iter E G tx (s, None, ht) (m # ms) = None)"
proof (intro conjI impI)
  assume inv: "pool4_inv E p"
  show "\<exists>s' p' ht' x. v4_iter E G tx (s, Some p, ht) rx = Some ((s', Some p', ht'), x) \<and> pool4_inv E p' \<and>
      mset (map mbuf_id (sent x)) + mset (map mbuf_id (freed x)) \<subseteq># mset (map mbuf_id rx)"
  proof (cases "rx = []")
    case True
    then show ?thesis using inv by (auto simp: v4_iter_def Let_def split: prod.splits)
  next
    case False
    let ?p = "p\<lparr>reads := clk (session_first (p4_tsc E) s)\<rparr>"
    have "pool4_inv E ?p" using inv by (simp add: pool4_inv_def)
    from pool4_burst.burst_safe [OF this, of rx] obtain p' out dropped where
      1: "run_burst (pool4_packet E) ?p rx = Some (p', out, dropped)" "pool4_inv E p'"
         "mset (map mbuf_id out) + mset (map mbuf_id dropped) = mset (map mbuf_id rx)" by blast
    from apply_null_run [of "pool4_packet E" ?p rx] 1(1) obtain bufs where
      2: "apply_null (pool4_packet E) ?p rx = Some (p', bufs, dropped)" "List.map_filter id bufs = out" by auto
    have 3: "nat_pool_apply4 E (Some ?p) rx = Some (Some p', bufs, dropped)"
      by (simp add: nat_pool_apply4_def 2(1))
    obtain el s' where r: "session_rx (p4_tsc E) (p4_hz E) (session_first (p4_tsc E) s\<lparr>clk := reads p'\<rparr>) = (el, s')"
      by fastforce
    have s': "v4_iter E G tx (s, Some p, ht) rx = Some ((s', Some p', ht), \<lparr>sent = tx_each tx out, freed = dropped\<rparr>)"
      using False 3 2(2) r by (simp add: v4_iter_def Let_def)
    have "mset (map mbuf_id (tx_each tx out)) + mset (map mbuf_id dropped) \<subseteq># mset (map mbuf_id rx)"
      using subset_mset.add_right_mono [OF tx_each_sub [of tx out], of "mset (map mbuf_id dropped)"] unfolding 1(3) .
    with s' 1(2) show ?thesis by auto
  qed
next
  assume "is_ipv4 m"
  then show "v4_iter E G tx (s, None, ht) (m # ms) = None"
    by (simp add: v4_iter_def nat_pool_apply4_def null_pool_packet_def Let_def)
qed

end
