(* ===== verification/Nat_Startup.thy ===== *)
theory Nat_Startup
  imports Startup Nat_Static Nat_Pool Nat_Pool4
begin

text \<open>
  The start-up code of \<open>nat_project/sample\<close> and \<open>version2\<close> to \<open>version5\<close>:
  \<open>mempool.c\<close>, \<open>port.c\<close> and the part of \<open>main.c\<close> before the packet loop. The
  result of \<open>rte_eal_init\<close> is ignored in all of them. \<open>mempool.c\<close> is the same file in all
  five, \<open>port.c\<close> in the first three and in the last two, where the device information call
  is checked.
\<close>

definition nat_create_mempool :: "int prog" where
  "nat_create_mempool = nonnull (Rte_pktmbuf_pool_create ''MBUF_POOL'' 8192 256) ''Cannot create mempool'' done_p"

definition nat_init_port :: "nat \<Rightarrow> int \<Rightarrow> unit prog" where
  "nat_init_port port_id mp =
     must (Rte_eth_dev_configure port_id 1 1) ''Port configure failed''
     (must (Rte_eth_rx_queue_setup port_id 0 1024 mp) ''RX queue setup failed''
     (must (Rte_eth_tx_queue_setup port_id 0 1024) ''TX queue setup failed''
     (must (Rte_eth_dev_start port_id) ''Port start failed''
     (call_p (Rte_eth_dev_info_get 0) (\<lambda>_. done_p ())))))"

definition nat_init_port_checked :: "nat \<Rightarrow> int \<Rightarrow> unit prog" where
  "nat_init_port_checked port_id mp =
     must (Rte_eth_dev_configure port_id 1 1) ''Port configure failed''
     (must (Rte_eth_rx_queue_setup port_id 0 1024 mp) ''RX queue setup failed''
     (must (Rte_eth_tx_queue_setup port_id 0 1024) ''TX queue setup failed''
     (must (Rte_eth_dev_start port_id) ''Port start failed''
     (must (Rte_eth_dev_info_get 0) ''Failed to get device info'' (done_p ())))))"

definition sample_main_start :: "int prog" where
  "sample_main_start =
     call_p Rte_eal_init (\<lambda>_.
     bind_p nat_create_mempool (\<lambda>mp.
     bind_p (nat_init_port 0 mp) (\<lambda>_. sample_ip_hash_create)))"

definition v2_main_start :: "int prog" where
  "v2_main_start =
     call_p Rte_eal_init (\<lambda>_.
     bind_p nat_create_mempool (\<lambda>mp.
     bind_p (nat_init_port 0 mp) (\<lambda>_. ip_hash_create)))"

text \<open>The pair of tables: addresses seen, and mappings.\<close>

definition v3_main_start :: "(int \<times> int) prog" where
  "v3_main_start =
     call_p Rte_eal_init (\<lambda>_.
     bind_p nat_create_mempool (\<lambda>mp.
     bind_p (nat_init_port 0 mp) (\<lambda>_.
     bind_p ip_hash_create (\<lambda>ht.
     bind_p nat_table_create (\<lambda>nat. done_p (ht, nat))))))"

definition v4_main_start :: "int prog" where
  "v4_main_start =
     call_p Rte_eal_init (\<lambda>_.
     bind_p nat_create_mempool (\<lambda>mp.
     bind_p (nat_init_port_checked 0 mp) (\<lambda>_. ip_hash_create)))"

text \<open>
  What the pool is created from: the number typed (0 when \<open>scanf\<close> reads none) selects the
  default or the file, which must give one. \<open>None\<close> is a \<open>NULL\<close> pool.
\<close>

definition v4_pool_config :: "int \<Rightarrow> string option \<Rightarrow> (string \<times> u32) option" where
  "v4_pool_config options file =
     (if options = 1 then Nat_Pool.nat_load_from_file file
      else if options = 0 then Some (''203.0.113.1'', 5)
      else Nat_Pool.nat_load_from_file file)"

definition v5_main_start :: "int prog" where
  "v5_main_start =
     call_p Rte_eal_init (\<lambda>_.
     call_p Rte_timer_subsystem_init (\<lambda>_.
     bind_p nat_create_mempool (\<lambda>mp.
     bind_p (nat_init_port_checked 0 mp) (\<lambda>_. ip_hash_create))))"

definition v5_pool_config :: "int \<Rightarrow> string option \<Rightarrow> string + string \<times> u32" where
  "v5_pool_config option file =
     (case if option = 0 then Some (''203.0.113.10'', 5) else Nat_Pool.nat_load_from_file file of
        None \<Rightarrow> Inl ''Failed to create NAT pool'' | Some c \<Rightarrow> Inr c)"

lemmas nat_start_defs = nat_create_mempool_def nat_init_port_def nat_init_port_checked_def sample_main_start_def
  v2_main_start_def v3_main_start_def v4_main_start_def v5_main_start_def sample_ip_hash_create_def
  ip_hash_create_def nat_table_create_def

lemma nat_starts:
  "starts_port (\<lambda>ht. ht \<noteq> 0) sample_main_start 0" "starts_port (\<lambda>ht. ht \<noteq> 0) v2_main_start 0"
  "starts_port (\<lambda>(ht, nat). ht \<noteq> 0 \<and> nat \<noteq> 0) v3_main_start 0"
  "starts_port (\<lambda>ht. ht \<noteq> 0) v4_main_start 0" "starts_port (\<lambda>ht. ht \<noteq> 0) v5_main_start 0"
  by (rule starts_portI [where E = ok_env]; auto simp: nat_start_defs monitor_simps ok_env_def split: if_splits)+

text \<open>
  A printed configuration is read back: \<open>version5\<close> stops when the file gives no pool, while
  \<open>version4\<close> goes on with a null pool.
\<close>

lemma pool_config_null:
  "Nat_Pool.nat_load_from_file file = None \<Longrightarrow> opt \<noteq> 0 \<Longrightarrow> v4_pool_config opt file = None \<and> (\<exists>e. v5_pool_config opt file = Inl e)"
  by (simp add: v4_pool_config_def v5_pool_config_def)

end
