(* ===== verification/Rte_Mbuf.thy ===== *)
theory Rte_Mbuf
  imports Dpdk
begin

text \<open>
  The room operations of mbufs, \<open>rte_pktmbuf_prepend\<close>, \<open>rte_pktmbuf_adj\<close>,
  \<open>rte_pktmbuf_append\<close> and \<open>rte_pktmbuf_trim\<close>, as the parameter \<open>pktmbuf_api\<close> with
  their documented behaviour in \<open>pktmbuf_laws\<close>: they move the start or the end of the data,
  or report failure (\<open>None\<close>) and leave the buffer alone when there is not enough room. The
  headroom of a buffer is the offset of its data, its tailroom what is left up to
  \<open>pm_buf_len\<close>.

  The locale \<open>data_room\<close> is that contract; its lemmas are the round trips between the
  operations and the invariant that data stays inside the buffer.
\<close>

record pktmbuf_api =
  pm_prepend :: "mbuf \<Rightarrow> nat \<Rightarrow> mbuf option"
  pm_adj :: "mbuf \<Rightarrow> nat \<Rightarrow> mbuf option"
  pm_append :: "mbuf \<Rightarrow> nat \<Rightarrow> mbuf option"
  pm_trim :: "mbuf \<Rightarrow> nat \<Rightarrow> mbuf option"
  pm_buf_len :: nat

definition pktmbuf_laws :: "pktmbuf_api \<Rightarrow> bool" where
  "pktmbuf_laws P \<longleftrightarrow>
     (\<forall>m n. pm_prepend P m n =
        (if n \<le> data_off m then Some (m\<lparr>data_off := data_off m - n, data_len := data_len m + n\<rparr>) else None)) \<and>
     (\<forall>m n. pm_adj P m n =
        (if n \<le> data_len m then Some (m\<lparr>data_off := data_off m + n, data_len := data_len m - n\<rparr>) else None)) \<and>
     (\<forall>m n. pm_append P m n =
        (if data_off m + data_len m + n \<le> pm_buf_len P then Some (m\<lparr>data_len := data_len m + n\<rparr>) else None)) \<and>
     (\<forall>m n. pm_trim P m n =
        (if n \<le> data_len m then Some (m\<lparr>data_len := data_len m - n\<rparr>) else None))"

definition ref_pktmbuf :: pktmbuf_api where
  "ref_pktmbuf = \<lparr>pm_prepend = (\<lambda>m n. if n \<le> data_off m
       then Some (m\<lparr>data_off := data_off m - n, data_len := data_len m + n\<rparr>) else None),
     pm_adj = (\<lambda>m n. if n \<le> data_len m
       then Some (m\<lparr>data_off := data_off m + n, data_len := data_len m - n\<rparr>) else None),
     pm_append = (\<lambda>m n. if data_off m + data_len m + n \<le> 2176 then Some (m\<lparr>data_len := data_len m + n\<rparr>) else None),
     pm_trim = (\<lambda>m n. if n \<le> data_len m then Some (m\<lparr>data_len := data_len m - n\<rparr>) else None),
     pm_buf_len = 2176\<rparr>"

lemma ref_pktmbuf_laws: "pktmbuf_laws ref_pktmbuf"
  by (simp add: pktmbuf_laws_def ref_pktmbuf_def)

locale data_room =
  fixes prepend adj append trim :: "mbuf \<Rightarrow> nat \<Rightarrow> mbuf option"
    and buf_len :: nat
    and ok :: bool
  assumes prepend: "ok \<Longrightarrow> prepend m n =
      (if n \<le> data_off m then Some (m\<lparr>data_off := data_off m - n, data_len := data_len m + n\<rparr>) else None)"
    and adj: "ok \<Longrightarrow> adj m n =
      (if n \<le> data_len m then Some (m\<lparr>data_off := data_off m + n, data_len := data_len m - n\<rparr>) else None)"
    and append: "ok \<Longrightarrow> append m n =
      (if data_off m + data_len m + n \<le> buf_len then Some (m\<lparr>data_len := data_len m + n\<rparr>) else None)"
    and trim: "ok \<Longrightarrow> trim m n = (if n \<le> data_len m then Some (m\<lparr>data_len := data_len m - n\<rparr>) else None)"
begin

lemma adj_prepend: "ok \<Longrightarrow> prepend m n = Some m' \<Longrightarrow> adj m' n = Some m"
  by (auto simp: prepend adj split: if_splits)

lemma trim_append: "ok \<Longrightarrow> append m n = Some m' \<Longrightarrow> trim m' n = Some m"
  by (auto simp: append trim split: if_splits)

text \<open>Data stays inside the buffer.\<close>

lemma room_inv:
  assumes "ok" "data_off m + data_len m \<le> buf_len"
    "prepend m n = Some m' \<or> adj m n = Some m' \<or> append m n = Some m' \<or> trim m n = Some m'"
  shows "data_off m' + data_len m' \<le> buf_len \<and> mbuf_id m' = mbuf_id m"
  using assms by (auto simp: prepend adj append trim split: if_splits)

end

interpretation rte_mbuf: data_room "pm_prepend P" "pm_adj P" "pm_append P" "pm_trim P" "pm_buf_len P" "pktmbuf_laws P" for P
  by unfold_locales (simp_all add: pktmbuf_laws_def)

subsection \<open>Copying bytes\<close>

text \<open>\<open>rte_ether_addr_copy\<close> into the packet, and \<open>memcpy\<close> or \<open>memset\<close> of any length.\<close>

definition wr_mac :: "mbuf \<Rightarrow> nat \<Rightarrow> u8 list \<Rightarrow> mbuf" where
  "wr_mac m i bs = fold (\<lambda>k m. wr8 m (i + k) (bs ! k)) [0..<6] m"

fun wr_bytes :: "mbuf \<Rightarrow> nat \<Rightarrow> u8 list \<Rightarrow> mbuf" where
  "wr_bytes m i [] = m"
| "wr_bytes m i (b # bs) = wr_bytes (wr8 m i b) (i + 1) bs"

lemma wr_bytes_frame [simp]:
  "data_off (wr_bytes m i bs) = data_off m" "data_len (wr_bytes m i bs) = data_len m"
  "mbuf_id (wr_bytes m i bs) = mbuf_id m"
  by (induction m i bs rule: wr_bytes.induct) simp_all

lemma rd8_wr_bytes:
  "rd8 (wr_bytes m i bs) j = (if i \<le> j \<and> j < i + length bs then bs ! (j - i) else rd8 m j)"
proof (induction m i bs rule: wr_bytes.induct)
  case (2 m i b bs)
  then show ?case by (auto simp: nth_Cons' intro: arg_cong)
qed auto

lemma wr_mac_bytes: "length bs = 6 \<Longrightarrow> wr_mac m i bs = wr_bytes m i bs"
  by (auto simp: wr_mac_def length_Suc_conv numeral_eq_Suc)

end
