(* ===== verification/Packet_Parsing.thy ===== *)
theory Packet_Parsing
  imports Burst Eal Samples
begin

text \<open>
  The packet dissector \<open>ports/packet_parsing\<close>: \<open>packet_parsing.c\<close> (the copy in
  \<open>thread_parsing/threaded_project/parser.c\<close> is identical), the receive loop of
  \<open>rx_tx.c\<close> and the start-up of \<open>main.c\<close>, \<open>eal_init.c\<close>, \<open>mempool.c\<close> and
  \<open>port.c\<close>.

  \<open>parse_packet\<close> returns what it prints, one \<open>pline\<close> per group of \<open>printf\<close> calls,
  with the values printed. There is no length check in the code; what it reads past the end
  of a short packet is whatever the buffer holds there.
\<close>

datatype pline =
    L2_Ethernet "u8 list" "u8 list"
  | L2_Vlan u16
  | L3_IPv4 "u8 list" "u8 list"
  | L3_IPv6 string string
  | L4_Udp u16 u16
  | L4_Tcp u16 u16 u32 u32 u8
  | L4_Icmp u8 u8
  | L4_Udp6 u16 u16
  | L4_Tcp6 u16 u16

definition hex_digit :: "nat \<Rightarrow> char" where
  "hex_digit n = ''0123456789abcdef'' ! n"

text \<open>\<open>%02x\<close> of a byte.\<close>

definition hex2 :: "u8 \<Rightarrow> string" where
  "hex2 b = [hex_digit (unat b div 16), hex_digit (unat b mod 16)]"

definition print_ipv6_addr :: "u8 list \<Rightarrow> string" where
  "print_ipv6_addr a = concat (map (\<lambda>i. hex2 (a ! i) @ hex2 (a ! (i + 1)) @ (if i < 14 then '':'' else []))
     [0, 2, 4, 6, 8, 10, 12, 14])"

definition rd_bytes :: "mbuf \<Rightarrow> nat \<Rightarrow> nat \<Rightarrow> u8 list" where
  "rd_bytes m off n = map (\<lambda>i. rd8 m (off + i)) [0..<n]"

definition parse_ipv4 :: "mbuf \<Rightarrow> nat \<Rightarrow> pline list" where
  "parse_ipv4 m ip =
     (let src = rd32 m (ip + O_SRC); dst = rd32 m (ip + O_DST);
          proto = rd8 m (ip + O_PROTO); off = ip + ip_ihl m ip * 4
      in L3_IPv4 [byte32 0 src, byte32 1 src, byte32 2 src, byte32 3 src] [byte32 0 dst, byte32 1 dst, byte32 2 dst, byte32 3 dst] #
         (if proto = IPPROTO_UDP then [L4_Udp (bswap16 (rd16 m (off + O_SPORT))) (bswap16 (rd16 m (off + O_DPORT)))]
          else if proto = IPPROTO_TCP then
            [L4_Tcp (bswap16 (rd16 m (off + O_SPORT))) (bswap16 (rd16 m (off + O_DPORT)))
               (bswap32 (rd32 m (off + 4))) (bswap32 (rd32 m (off + 8))) (rd8 m (off + 13))]
          else if proto = IPPROTO_ICMP then [L4_Icmp (rd8 m off) (rd8 m (off + 1))]
          else []))"

definition parse_ipv6 :: "mbuf \<Rightarrow> nat \<Rightarrow> pline list" where
  "parse_ipv6 m ip6 =
     (let proto = rd8 m (ip6 + 6); off = ip6 + IPV6_HDR
      in L3_IPv6 (print_ipv6_addr (rd_bytes m (ip6 + 8) 16)) (print_ipv6_addr (rd_bytes m (ip6 + 24) 16)) #
         (if proto = IPPROTO_UDP then [L4_Udp6 (bswap16 (rd16 m (off + O_SPORT))) (bswap16 (rd16 m (off + O_DPORT)))]
          else if proto = IPPROTO_TCP then [L4_Tcp6 (bswap16 (rd16 m (off + O_SPORT))) (bswap16 (rd16 m (off + O_DPORT)))]
          else []))"

definition parse_packet :: "mbuf \<Rightarrow> pline list" where
  "parse_packet m =
     (let eth = L2_Ethernet (rd_bytes m 6 6) (rd_bytes m 0 6);
          eth_type = bswap16 (rd16 m O_ETHER_TYPE);
          offset = ETHER_HDR;
          tagged = (eth_type = RTE_ETHER_TYPE_VLAN);
          vlan = (if tagged then [L2_Vlan (bswap16 (rd16 m offset))] else []);
          eth_type = (if tagged then bswap16 (rd16 m (offset + 2)) else eth_type);
          offset = (if tagged then offset + VLAN_HDR else offset)
      in eth # vlan @
         (if eth_type = RTE_ETHER_TYPE_IPV4 then parse_ipv4 m offset
          else if eth_type = RTE_ETHER_TYPE_IPV6 then parse_ipv6 m offset
          else []))"

subsection \<open>rx_tx.c and the start-up\<close>

definition run_rx_tx_iter :: "(mbuf list \<Rightarrow> nat) \<Rightarrow> mbuf list \<Rightarrow> pline list \<times> io" where
  "run_rx_tx_iter tx rx =
     (if rx = [] then ([], \<lparr>sent = [], freed = []\<rparr>) else (concat (map parse_packet rx), tx_then_free tx rx))"

definition pp_init_eal :: "int prog" where
  "pp_init_eal = call_p Rte_eal_init (\<lambda>ret. if ret < 0 then rte_exit ''EAL init failed'' else done_p ret)"

definition pp_create_mempool :: "int prog" where
  "pp_create_mempool = nonnull (Rte_pktmbuf_pool_create ''MBUF_POOL'' 8192 256) ''Cannot create mempool'' done_p"

definition pp_init_port :: "nat \<Rightarrow> int \<Rightarrow> unit prog" where
  "pp_init_port port_id mp =
     must (Rte_eth_dev_configure port_id 1 1) ''Port configure failed''
     (must (Rte_eth_rx_queue_setup port_id 0 1024 mp) ''RX queue setup failed''
     (must (Rte_eth_tx_queue_setup port_id 0 1024) ''TX queue setup failed''
     (must (Rte_eth_dev_start port_id) ''Port start failed''
     (call_p (Rte_eth_dev_info_get 0) (\<lambda>_. done_p ())))))"

definition pp_main_start :: "unit prog" where
  "pp_main_start =
     bind_p pp_init_eal (\<lambda>_.
     call_p Rte_eth_dev_count_avail (\<lambda>nb_ports. if nb_ports = 0 then rte_exit ''No ports found!'' else
     bind_p pp_create_mempool (\<lambda>mp. pp_init_port 0 mp)))"

subsection \<open>Reading back an encoded frame\<close>

text \<open>The packet data holds the bytes \<open>bs\<close> from offset \<open>off\<close> on.\<close>

fun holds :: "mbuf \<Rightarrow> nat \<Rightarrow> u8 list \<Rightarrow> bool" where
  "holds m off [] = True"
| "holds m off (b # bs) \<longleftrightarrow> rd8 m off = b \<and> holds m (off + 1) bs"

lemma holds_append [simp]: "holds m off (xs @ ys) \<longleftrightarrow> holds m off xs \<and> holds m (off + length xs) ys"
  by (induction xs arbitrary: off) auto

lemma holds_nth: "holds m off bs \<Longrightarrow> i < length bs \<Longrightarrow> rd8 m (off + i) = bs ! i"
proof (induction bs arbitrary: off i)
  case (Cons b bs)
  show ?case
  proof (cases i)
    case (Suc j)
    with Cons.prems Cons.IH [of "off + 1" j] show ?thesis by simp
  qed (use Cons.prems in simp)
qed simp

lemma holds_rd_bytes: "holds m off bs \<Longrightarrow> length bs = n \<Longrightarrow> rd_bytes m off n = bs"
  by (intro nth_equalityI) (auto simp: rd_bytes_def holds_nth)

definition be16 :: "u16 \<Rightarrow> u8 list" where "be16 v = [hi16 v, lo16 v]"
definition be32 :: "u32 \<Rightarrow> u8 list" where "be32 v = [byte32 3 v, byte32 2 v, byte32 1 v, byte32 0 v]"

lemma be16_length: "length (be16 v) = 2"
  by (simp add: be16_def)

lemma be32_length: "length (be32 v) = 4"
  by (simp add: be32_def)

lemma holds_be16: "holds m off (be16 v) \<Longrightarrow> bswap16 (rd16 m off) = v"
  using holds_nth [of m off "be16 v" 1] by (simp add: be16_def rd16_bytes bswap16_def)

lemma holds_be32: "holds m off (be32 v) \<Longrightarrow> bswap32 (rd32 m off) = v"
  using holds_nth [of m off "be32 v" 0] holds_nth [of m off "be32 v" 1] holds_nth [of m off "be32 v" 2]
    holds_nth [of m off "be32 v" 3]
  by (simp add: be32_def rd32_bytes bswap32_def del: holds.simps)

text \<open>The wire format: RFC 791, RFC 768, RFC 793, RFC 792, RFC 8200, IEEE 802.1Q.\<close>

datatype l4 = Udp u16 u16 | Tcp u16 u16 u32 u32 u8 u8 | Icmp u8 u8 | Other u8

fun l4_proto :: "l4 \<Rightarrow> u8" where
  "l4_proto (Udp _ _) = 17" | "l4_proto (Tcp _ _ _ _ _ _) = 6" | "l4_proto (Icmp _ _) = 1" | "l4_proto (Other p) = p"

fun l4_bytes :: "l4 \<Rightarrow> u8 list" where
  "l4_bytes (Udp sp dp) = be16 sp @ be16 dp"
| "l4_bytes (Tcp sp dp sq ak doff flags) = be16 sp @ be16 dp @ be32 sq @ be32 ak @ [doff, flags]"
| "l4_bytes (Icmp t c) = [t, c]"
| "l4_bytes (Other p) = []"

fun l4_line :: "l4 \<Rightarrow> pline list" where
  "l4_line (Udp sp dp) = [L4_Udp sp dp]"
| "l4_line (Tcp sp dp sq ak doff flags) = [L4_Tcp sp dp sq ak flags]"
| "l4_line (Icmp t c) = [L4_Icmp t c]"
| "l4_line (Other p) = []"

text \<open>An IPv4 header: \<open>mid\<close> is bytes 1 to 8, then protocol, checksum, addresses, options.\<close>

definition ipv4_bytes :: "u8 list \<Rightarrow> u8 list \<Rightarrow> u8 list \<Rightarrow> u8 list \<Rightarrow> u8 list \<Rightarrow> u8 \<Rightarrow> u8 list" where
  "ipv4_bytes mid ck src dst opts proto =
     [of_nat (0x45 + length opts div 4)] @ mid @ [proto] @ ck @ src @ dst @ opts"

definition eth_bytes :: "u8 list \<Rightarrow> u8 list \<Rightarrow> u16 option \<Rightarrow> u16 \<Rightarrow> u8 list" where
  "eth_bytes dmac smac tag etype =
     dmac @ smac @ (case tag of None \<Rightarrow> [] | Some tci \<Rightarrow> be16 0x8100 @ be16 tci) @ be16 etype"

lemma ipv4_addr_line:
  assumes "holds m off a" "length a = 4"
  shows "[byte32 0 (rd32 m off), byte32 1 (rd32 m off), byte32 2 (rd32 m off), byte32 3 (rd32 m off)] = a"
proof -
  have "a = [a ! 0, a ! 1, a ! 2, a ! 3]"
    using assms(2) by (auto simp: numeral_eq_Suc length_Suc_conv)
  then show ?thesis
    using holds_nth [OF assms(1), of 0] holds_nth [OF assms(1), of 1] holds_nth [OF assms(1), of 2]
      holds_nth [OF assms(1), of 3] assms(2) by (simp add: rd32_bytes)
qed

lemma ihl_byte:
  assumes "rd8 m ip = of_nat (0x45 + k)" "k \<le> 10"
  shows "ip_ihl m ip = 5 + k"
proof -
  have "k \<in> {0, 1, 2, 3, 4, 5, 6, 7, 8, 9, 10}" using assms(2) by (auto simp: numeral_eq_Suc le_Suc_eq)
  then show ?thesis using assms(1) by (auto simp: ip_ihl_def)
qed

text \<open>A header named by its protocol; protocols without a branch are printed as L3 only.\<close>

definition l4_ok :: "l4 \<Rightarrow> bool" where
  "l4_ok p \<longleftrightarrow> (case p of Other q \<Rightarrow> q \<notin> {1, 6, 17} | _ \<Rightarrow> True)"

lemma l4_lines:
  assumes "holds m off (l4_bytes p)" "l4_ok p"
  shows "(if l4_proto p = 17 then [L4_Udp (bswap16 (rd16 m (off + 0))) (bswap16 (rd16 m (off + 2)))]
          else if l4_proto p = 6 then
            [L4_Tcp (bswap16 (rd16 m (off + 0))) (bswap16 (rd16 m (off + 2)))
               (bswap32 (rd32 m (off + 4))) (bswap32 (rd32 m (off + 8))) (rd8 m (off + 13))]
          else if l4_proto p = 1 then [L4_Icmp (rd8 m off) (rd8 m (off + 1))] else []) = l4_line p"
proof (cases p)
  case (Tcp sp dp sq ak doff fl)
  then have "holds m off (be16 sp)" "holds m (off + 2) (be16 dp)" "holds m (off + 4) (be32 sq)"
    "holds m (off + 8) (be32 ak)" "holds m (off + 12) [doff, fl]"
    using assms(1) by (simp_all add: be16_length be32_length add.assoc del: add_2_eq_Suc')
  then show ?thesis by (simp add: Tcp holds_be16 holds_be32 add.commute [of 13])
next
  case (Udp sp dp)
  then have "holds m off (be16 sp)" "holds m (off + 2) (be16 dp)"
    using assms(1) by (simp_all add: be16_length ac_simps)
  then show ?thesis by (simp add: Udp holds_be16)
qed (use assms in \<open>auto simp: l4_ok_def\<close>)

lemma parse_ipv4_encoded:
  assumes "holds m ip (ipv4_bytes mid ck src dst opts (l4_proto p) @ l4_bytes p)" "l4_ok p"
    "length mid = 8" "length ck = 2" "length src = 4" "length dst = 4" "length opts = 4 * k" "k \<le> 10"
  shows "parse_ipv4 m ip = L3_IPv4 src dst # l4_line p"
proof -
  let ?o = "ip + (20 + 4 * k)"
  have h: "rd8 m ip = of_nat (0x45 + k)" "holds m (ip + 9) [l4_proto p]" "holds m (ip + 12) src"
    "holds m (ip + 16) dst" "holds m ?o (l4_bytes p)"
    using assms by (simp_all add: ipv4_bytes_def ac_simps)
  have off: "ip + ip_ihl m ip * 4 = ?o" using ihl_byte [OF h(1) assms(8)] by simp
  have a: "[byte32 0 (rd32 m (ip + 12)), byte32 1 (rd32 m (ip + 12)), byte32 2 (rd32 m (ip + 12)), byte32 3 (rd32 m (ip + 12))] = src"
    "[byte32 0 (rd32 m (ip + 16)), byte32 1 (rd32 m (ip + 16)), byte32 2 (rd32 m (ip + 16)), byte32 3 (rd32 m (ip + 16))] = dst"
    using ipv4_addr_line [OF h(3) assms(5)] ipv4_addr_line [OF h(4) assms(6)] by blast+
  have pr: "rd8 m (ip + 9) = l4_proto p" using h(2) by simp
  show ?thesis
    unfolding parse_ipv4_def Let_def off pr a using h(5) assms(2) by (simp add: l4_lines)
qed

text \<open>An IPv6 header: the fields before the next header, the hop limit and the addresses.\<close>

definition ipv6_bytes :: "u8 list \<Rightarrow> u8 \<Rightarrow> u8 \<Rightarrow> u8 list \<Rightarrow> u8 list \<Rightarrow> u8 list" where
  "ipv6_bytes pre nxt hops src dst = pre @ [nxt, hops] @ src @ dst"

fun l4_line6 :: "l4 \<Rightarrow> pline list" where
  "l4_line6 (Udp sp dp) = [L4_Udp6 sp dp]"
| "l4_line6 (Tcp sp dp sq ak doff flags) = [L4_Tcp6 sp dp]"
| "l4_line6 _ = []"

lemma l4_lines6:
  assumes "holds m off (l4_bytes p)" "l4_ok p"
  shows "(if l4_proto p = 17 then [L4_Udp6 (bswap16 (rd16 m (off + 0))) (bswap16 (rd16 m (off + 2)))]
          else if l4_proto p = 6 then [L4_Tcp6 (bswap16 (rd16 m (off + 0))) (bswap16 (rd16 m (off + 2)))]
          else []) = l4_line6 p"
  using l4_lines [OF assms] by (cases p) (use assms(2) in \<open>auto simp: l4_ok_def\<close>)

lemma parse_ipv6_encoded:
  assumes "holds m ip (ipv6_bytes pre (l4_proto p) hops src dst @ l4_bytes p)" "l4_ok p"
    "length pre = 6" "length src = 16" "length dst = 16"
  shows "parse_ipv6 m ip = L3_IPv6 (print_ipv6_addr src) (print_ipv6_addr dst) # l4_line6 p"
proof -
  have h: "holds m (ip + 6) [l4_proto p]" "holds m (ip + 8) src" "holds m (ip + 24) dst" "holds m (ip + 40) (l4_bytes p)"
    using assms by (simp_all add: ipv6_bytes_def ac_simps)
  have "rd8 m (ip + 6) = l4_proto p" using h(1) by simp
  then show ?thesis
    using l4_lines6 [OF h(4) assms(2)] h(2,3) by (simp add: parse_ipv6_def Let_def holds_rd_bytes assms(4,5))
qed

text \<open>Reading an address back from its eight groups of four digits.\<close>

definition hex_value :: "char \<Rightarrow> nat" where
  "hex_value c = (let n = of_char c in if n < 58 then n - 48 else n - 87)"

fun read_ipv6 :: "string \<Rightarrow> u8 list" where
  "read_ipv6 (a # b # s) = (if a = CHR '':'' then read_ipv6 (b # s) else of_nat (16 * hex_value a + hex_value b) # read_ipv6 s)"
| "read_ipv6 _ = []"

lemma hex_digit_value: "n < 16 \<Longrightarrow> hex_value (hex_digit n) = n \<and> hex_digit n \<noteq> CHR '':''"
proof -
  assume "n < 16"
  then have "n \<in> {0,1,2,3,4,5,6,7,8,9,10,11,12,13,14,15}" by (auto simp: numeral_eq_Suc less_Suc_eq)
  then show ?thesis by (auto simp: hex_value_def hex_digit_def)
qed

lemma read_hex2: "read_ipv6 (hex2 b @ s) = b # read_ipv6 s" "read_ipv6 (CHR '':'' # hex2 b @ s) = b # read_ipv6 s"
proof -
  have n: "unat b div 16 < 16" using unat_u8_less [of b] by simp
  have "(of_nat (16 * (unat b div 16) + unat b mod 16) :: u8) = b" by simp
  with n show "read_ipv6 (hex2 b @ s) = b # read_ipv6 s" "read_ipv6 (CHR '':'' # hex2 b @ s) = b # read_ipv6 s"
    by (simp_all add: hex2_def hex_digit_value del: of_nat_add of_nat_mult)
qed

lemma read_print_ipv6: "length a = 16 \<Longrightarrow> read_ipv6 (print_ipv6_addr a) = a"
proof -
  assume "length a = 16"
  then have a: "a = [a!0, a!1, a!2, a!3, a!4, a!5, a!6, a!7, a!8, a!9, a!10, a!11, a!12, a!13, a!14, a!15]"
    by (auto simp: numeral_eq_Suc length_Suc_conv)
  have "read_ipv6 (hex2 (a ! 15)) = [a ! 15]" using read_hex2(1) [of "a ! 15" "[]"] by simp
  then have "read_ipv6 (print_ipv6_addr a) =
      [a!0, a!1, a!2, a!3, a!4, a!5, a!6, a!7, a!8, a!9, a!10, a!11, a!12, a!13, a!14, a!15]"
    by (simp add: print_ipv6_addr_def read_hex2)
  with a show ?thesis by simp
qed

text \<open>A frame: its tag, and the packet by its type; a type without a branch is any other (also a second tag).\<close>

datatype l3 = Ip4 "u8 list" "u8 list" "u8 list" "u8 list" "u8 list" l4
  | Ip6 "u8 list" u8 "u8 list" "u8 list" l4
  | Other_type u16

fun l3_type :: "l3 \<Rightarrow> u16" where
  "l3_type (Ip4 _ _ _ _ _ _) = 0x0800" | "l3_type (Ip6 _ _ _ _ _) = 0x86DD" | "l3_type (Other_type ty) = ty"

fun l3_bytes :: "l3 \<Rightarrow> u8 list" where
  "l3_bytes (Ip4 mid ck src dst opts p) = ipv4_bytes mid ck src dst opts (l4_proto p) @ l4_bytes p"
| "l3_bytes (Ip6 pre hops src dst p) = ipv6_bytes pre (l4_proto p) hops src dst @ l4_bytes p"
| "l3_bytes (Other_type ty) = []"

fun l3_ok :: "u16 option \<Rightarrow> l3 \<Rightarrow> bool" where
  "l3_ok tag (Ip4 mid ck src dst opts p) \<longleftrightarrow> length mid = 8 \<and> length ck = 2 \<and> length src = 4 \<and> length dst = 4 \<and>
     length opts mod 4 = 0 \<and> length opts \<le> 40 \<and> l4_ok p"
| "l3_ok tag (Ip6 pre hops src dst p) \<longleftrightarrow> length pre = 6 \<and> length src = 16 \<and> length dst = 16 \<and> l4_ok p"
| "l3_ok tag (Other_type ty) \<longleftrightarrow> ty \<noteq> 0x0800 \<and> ty \<noteq> 0x86DD \<and> (tag = None \<longrightarrow> ty \<noteq> 0x8100)"

fun l3_lines :: "l3 \<Rightarrow> pline list" where
  "l3_lines (Ip4 mid ck src dst opts p) = L3_IPv4 src dst # l4_line p"
| "l3_lines (Ip6 pre hops src dst p) = L3_IPv6 (print_ipv6_addr src) (print_ipv6_addr dst) # l4_line6 p"
| "l3_lines (Other_type ty) = []"

lemma l3_parsed:
  assumes "holds m off (l3_bytes q)" "l3_ok tag q"
  shows "(if l3_type q = 0x0800 then parse_ipv4 m off else if l3_type q = 0x86DD then parse_ipv6 m off else []) = l3_lines q"
proof (cases q)
  case (Ip4 mid ck src dst opts p)
  then obtain k where "length opts = 4 * k" "k \<le> 10" using assms(2) by (auto elim!: dvdE)
  then show ?thesis using parse_ipv4_encoded [of m off mid ck src dst opts p k] assms by (simp add: Ip4)
next
  case (Ip6 pre hops src dst p)
  then show ?thesis using parse_ipv6_encoded [of m off pre p hops src dst] assms by simp
qed (use assms(2) in simp)

lemma parse_frame:
  assumes "holds m 0 (eth_bytes dmac smac tag (l3_type q) @ l3_bytes q)" "length dmac = 6" "length smac = 6" "l3_ok tag q"
  shows "parse_packet m = L2_Ethernet smac dmac # (case tag of None \<Rightarrow> [] | Some tci \<Rightarrow> [L2_Vlan tci]) @ l3_lines q"
proof -
  have mac: "rd_bytes m 0 6 = dmac" "rd_bytes m 6 6 = smac"
    using assms(1-3) by (auto simp: eth_bytes_def intro!: holds_rd_bytes)
  show ?thesis
  proof (cases tag)
    case None
    have "bswap16 (rd16 m 12) = l3_type q" "holds m 14 (l3_bytes q)"
      using assms(1-3) None by (auto simp: eth_bytes_def be16_length intro!: holds_be16)
    moreover have "l3_type q \<noteq> 0x8100" using assms(4) None by (cases q) auto
    ultimately show ?thesis using mac l3_parsed [of m 14 q tag] assms(4) by (simp add: parse_packet_def None)
  next
    case (Some tci)
    have "bswap16 (rd16 m 12) = 0x8100" "bswap16 (rd16 m 14) = tci" "bswap16 (rd16 m 16) = l3_type q" "holds m 18 (l3_bytes q)"
      using assms(1-3) Some by (auto simp: eth_bytes_def be16_length intro!: holds_be16)
    with mac l3_parsed [of m 18 q tag] assms(4) show ?thesis by (simp add: parse_packet_def Some)
  qed
qed

lemma parse_packet_ipv4:
  assumes "holds m 0 (eth_bytes dmac smac tag 0x0800 @ ipv4_bytes mid ck src dst opts (l4_proto p) @ l4_bytes p)"
    "l4_ok p" "length dmac = 6" "length smac = 6" "length mid = 8" "length ck = 2" "length src = 4" "length dst = 4"
    "length opts = 4 * k" "k \<le> 10"
  shows "parse_packet m = L2_Ethernet smac dmac # (case tag of None \<Rightarrow> [] | Some tci \<Rightarrow> [L2_Vlan tci]) @
    L3_IPv4 src dst # l4_line p"
  using parse_frame [of m dmac smac tag "Ip4 mid ck src dst opts p"] assms by simp

text \<open>
  C33. Dissection is right: for any frame that starts with an Ethernet header, with or without
  an 802.1Q tag, the program prints the addresses and the tag; of an IPv4 packet with any
  legal header length (up to 40 bytes of options) it prints the addresses and what the UDP, TCP or ICMP
  header encodes; of an IPv6 packet the addresses, as text from which the sixteen bytes can be
  read back, and the ports of UDP and TCP; of any other type, a second tag included, nothing more.
\<close>

theorem parse_packet_frames:
  assumes "holds m 0 (eth_bytes dmac smac tag (l3_type q) @ l3_bytes q)" "length dmac = 6" "length smac = 6" "l3_ok tag q"
  shows "parse_packet m = L2_Ethernet smac dmac # (case tag of None \<Rightarrow> [] | Some tci \<Rightarrow> [L2_Vlan tci]) @ l3_lines q \<and>
    (\<forall>pre hops src dst p. q = Ip6 pre hops src dst p \<longrightarrow>
      read_ipv6 (print_ipv6_addr src) = src \<and> read_ipv6 (print_ipv6_addr dst) = dst)"
  using parse_frame [OF assms] assms(4) by (auto simp: read_print_ipv6)

definition tagged_icmp :: mbuf where
  "tagged_icmp = \<lparr>mbuf_id = 1, buf = bytes_mem ([2,0,0,0,0,1, 2,0,0,0,0,2, 0x81,0x00, 0,5, 0x08,0x00] @
     [0x46,0,0,32, 0,0,0,0, 64,1,0,0] @ [10,0,0,1] @ [8,8,4,4] @ [1,1,1,0] @ [8,0]), data_off = 0, data_len = 44\<rparr>"

definition ipv6_udp :: mbuf where
  "ipv6_udp = \<lparr>mbuf_id = 2, buf = bytes_mem ([2,0,0,0,0,1, 2,0,0,0,0,2, 0x86,0xDD] @ [0x60,0,0,0,0,8, 17,64] @
     [0x20,1,0x0D,0xB8,0,0,0,0,0,0,0,0,0,0,0,1] @ [0x20,1,0x0D,0xB8,0,0,0,0,0,0,0,0,0,0,0,2] @ [0x30,0x39,0,53]),
     data_off = 0, data_len = 58\<rparr>"

theorem parse_packet_frames_witness:
  "parse_packet tagged_icmp =
     [L2_Ethernet [2,0,0,0,0,2] [2,0,0,0,0,1], L2_Vlan 5, L3_IPv4 [10,0,0,1] [8,8,4,4], L4_Icmp 8 0] \<and>
   parse_packet ipv6_udp = [L2_Ethernet [2,0,0,0,0,2] [2,0,0,0,0,1],
     L3_IPv6 ''2001:0db8:0000:0000:0000:0000:0000:0001'' ''2001:0db8:0000:0000:0000:0000:0000:0002'', L4_Udp6 0x3039 53]"
proof
  let ?q = "Ip4 [0,0,32,0,0,0,0,64] [0,0] [10,0,0,1] [8,8,4,4] [1,1,1,0] (Icmp 8 0)"
  have "holds tagged_icmp 0 (eth_bytes [2,0,0,0,0,1] [2,0,0,0,0,2] (Some 5) (l3_type ?q) @ l3_bytes ?q)"
    by (simp add: tagged_icmp_def rd8_def bytes_mem_def eth_bytes_def ipv4_bytes_def be16_def hi16_def lo16_def)
  from parse_packet_frames [OF this] show "parse_packet tagged_icmp =
     [L2_Ethernet [2,0,0,0,0,2] [2,0,0,0,0,1], L2_Vlan 5, L3_IPv4 [10,0,0,1] [8,8,4,4], L4_Icmp 8 0]"
    by (simp add: l4_ok_def)
  let ?r = "Ip6 [0x60,0,0,0,0,8] 64 [0x20,1,0x0D,0xB8,0,0,0,0,0,0,0,0,0,0,0,1] [0x20,1,0x0D,0xB8,0,0,0,0,0,0,0,0,0,0,0,2]
    (Udp 0x3039 53)"
  have "holds ipv6_udp 0 (eth_bytes [2,0,0,0,0,1] [2,0,0,0,0,2] None (l3_type ?r) @ l3_bytes ?r)"
    by (simp add: ipv6_udp_def rd8_def bytes_mem_def eth_bytes_def ipv6_bytes_def be16_def hi16_def lo16_def)
  from parse_packet_frames [OF this] show "parse_packet ipv6_udp = [L2_Ethernet [2,0,0,0,0,2] [2,0,0,0,0,1],
     L3_IPv6 ''2001:0db8:0000:0000:0000:0000:0000:0001'' ''2001:0db8:0000:0000:0000:0000:0000:0002'', L4_Udp6 0x3039 53]"
    by (simp add: l4_ok_def print_ipv6_addr_def hex2_def hex_digit_def)
qed

end
