(* ===== verification/Packet_Build.thy ===== *)
theory Packet_Build
  imports Rte_Mbuf Packet_Parsing
begin

text \<open>
  Programs that make or change packets: the generator \<open>tranmit_packet/packet_creation\<close>, the
  MAC-swapping forwarder \<open>tranmit_packet/swap_addr\<close>, and the buffer operations of
  \<open>packet_change\<close> and \<open>mempool_membuff/append_prependops.c\<close>.
\<close>

subsection \<open>packet_creation/simple_tx.c\<close>

text \<open>The characters of \<open>Hello from DPDK AF_PACKET!\<close>, without the terminating zero.\<close>

definition payload :: "u8 list" where
  "payload = [0x48,0x65,0x6c,0x6c,0x6f,0x20,0x66,0x72,0x6f,0x6d,0x20,0x44,0x50,0x44,0x4b,0x20,
     0x41,0x46,0x5f,0x50,0x41,0x43,0x4b,0x45,0x54,0x21]"

definition build_eth :: "mbuf \<Rightarrow> mbuf" where
  "build_eth m =
     (let m1 = wr_mac m 0 [0xFF,0xFF,0xFF,0xFF,0xFF,0xFF]; m2 = wr_mac m1 6 [0x00,0x15,0x5d,0x0e,0x66,0x03]
      in wr16 m2 O_ETHER_TYPE (bswap16 RTE_ETHER_TYPE_IPV4))"

definition build_ip :: "u16 \<Rightarrow> mbuf \<Rightarrow> mbuf" where
  "build_ip payload_len m =
     (let h = ETHER_HDR;
          m1 = wr8 m (h + O_VERSION_IHL) 0x45;
          m2 = wr8 m1 (h + O_TOS) 0;
          m3 = wr16 m2 (h + O_TOTAL_LENGTH) (bswap16 (20 + 8 + payload_len));
          m4 = wr16 m3 (h + O_PACKET_ID) 0;
          m5 = wr16 m4 (h + O_FRAGMENT) 0;
          m6 = wr8 m5 (h + O_TTL) 64;
          m7 = wr8 m6 (h + O_PROTO) IPPROTO_UDP;
          m8 = wr32 m7 (h + O_SRC) (bswap32 0x7F000001)
      in wr32 m8 (h + O_DST) (bswap32 0x7F000001))"

definition build_udp :: "u16 \<Rightarrow> mbuf \<Rightarrow> mbuf" where
  "build_udp payload_len m =
     (let u = ETHER_HDR + IPV4_HDR;
          m1 = wr16 m (u + O_SPORT) (bswap16 1234);
          m2 = wr16 m1 (u + O_DPORT) (bswap16 5678);
          m3 = wr16 m2 (u + O_UDP_LEN) (bswap16 (8 + payload_len))
      in wr16 m3 (u + O_UDP_CKSUM) 0)"

definition build_udp_packet :: "cksum_api \<Rightarrow> mbuf \<Rightarrow> mbuf" where
  "build_udp_packet C m =
     (let payload_len = length payload;
          m0 = m\<lparr>data_len := 14 + 20 + 8 + payload_len\<rparr>;
          m1 = build_ip (of_nat payload_len) (build_eth m0);
          m2 = wr16 m1 (ETHER_HDR + O_HDR_CKSUM) 0;
          m3 = wr16 m2 (ETHER_HDR + O_HDR_CKSUM) (rte_ipv4_cksum C m2 ETHER_HDR);
          m4 = build_udp (of_nat payload_len) m3
      in wr_bytes m4 (ETHER_HDR + IPV4_HDR + UDP_HDR) payload)"

definition tx_init_port :: "nat \<Rightarrow> int \<Rightarrow> unit prog" where
  "tx_init_port port_id mp =
     must (Rte_eth_dev_configure port_id 1 1) ''Port configure failed''
     (must (Rte_eth_rx_queue_setup port_id 0 1024 mp) ''RX queue setup failed''
     (must (Rte_eth_tx_queue_setup port_id 0 1024) ''TX queue setup failed''
     (must (Rte_eth_dev_start port_id) ''Port start failed''
     (call_p (Rte_eth_dev_info_get 0) (\<lambda>_. done_p ())))))"

definition tx_main_start :: "int prog" where
  "tx_main_start =
     must Rte_eal_init ''EAL init failed''
     (nonnull (Rte_pktmbuf_pool_create ''MBUF_POOL'' 1024 0) ''Cannot create mempool'' (\<lambda>mp.
     bind_p (tx_init_port 0 mp) (\<lambda>_.
     nonnull (Rte_pktmbuf_alloc mp) ''mbuf alloc failed'' done_p)))"

text \<open>
  The transmit loop. A packet handed to the NIC or freed no longer belongs to the program;
  \<open>owned\<close> says whether it still does, and using it otherwise is undefined (\<open>None\<close>). The
  list gives the results of \<open>rte_eth_tx_burst\<close>, the events are \<open>True\<close> for sent.
\<close>

fun tx_loop :: "nat list \<Rightarrow> bool \<Rightarrow> bool list option" where
  "tx_loop [] owned = Some []"
| "tx_loop (r # rs) owned =
     (if \<not> owned then None else map_option ((#) (r \<noteq> 0)) (tx_loop rs False))"

subsection \<open>swap_addr/main.c\<close>

definition swap_mac :: "mbuf \<Rightarrow> mbuf" where
  "swap_mac m =
     (let temp = rd_bytes m 6 6; m1 = wr_mac m 6 (rd_bytes m 0 6) in wr_mac m1 0 temp)"

text \<open>Each packet is sent on its own and freed when it was not accepted.\<close>

fun swap_burst :: "(mbuf list \<Rightarrow> nat) \<Rightarrow> mbuf list \<Rightarrow> io" where
  "swap_burst tx [] = \<lparr>sent = [], freed = []\<rparr>"
| "swap_burst tx (m # ms) =
     (let m' = swap_mac m; x = swap_burst tx ms
      in if tx [m'] = 0 then x\<lparr>freed := m' # freed x\<rparr> else x\<lparr>sent := m' # sent x\<rparr>)"

definition swap_port :: "nat \<Rightarrow> int \<Rightarrow> string \<Rightarrow> string \<Rightarrow> string \<Rightarrow> string \<Rightarrow> unit prog \<Rightarrow> unit prog" where
  "swap_port p mp e1 e2 e3 e4 k =
     must (Rte_eth_dev_configure p 1 1) e1
     (must (Rte_eth_rx_queue_setup p 0 1024 mp) e2
     (must (Rte_eth_tx_queue_setup p 0 1024) e3
     (must (Rte_eth_dev_start p) e4
     (call_p (Rte_eth_promiscuous_enable p) (\<lambda>_. k)))))"

definition swap_main_start :: "unit prog" where
  "swap_main_start =
     must Rte_eal_init ''EAL init failed''
     (call_p Rte_eth_dev_count_avail (\<lambda>n. if n < 2 then rte_exit ''Need at least 2 ports (AF_PACKET)'' else
     nonnull (Rte_pktmbuf_pool_create ''MBUF_POOL'' 8192 256) ''Cannot create mbuf pool'' (\<lambda>mp.
     swap_port 0 mp ''RX port configure failed'' ''RX queue setup failed'' ''RX TX queue setup failed'' ''RX port start failed''
     (swap_port 1 mp ''TX port configure failed'' ''TX RX queue setup failed'' ''TX queue setup failed'' ''TX port start failed''
       (done_p ())))))"

subsection \<open>packet_change/main.c and mempool_membuff/append_prependops.c\<close>

text \<open>The printed state: offset, lengths, headroom, tailroom.\<close>

definition room_report :: "pktmbuf_api \<Rightarrow> mbuf \<Rightarrow> nat list" where
  "room_report P m = [data_off m, data_len m, data_len m, data_off m, pm_buf_len P - data_off m - data_len m]"

text \<open>\<open>DPDK-MBUF\<close> with its terminating zero.\<close>

definition msg :: "u8 list" where
  "msg = [0x44,0x50,0x44,0x4b,0x2d,0x4d,0x42,0x55,0x46,0x00]"

definition or_same :: "mbuf \<Rightarrow> mbuf option \<Rightarrow> mbuf" where
  "or_same m r = (case r of None \<Rightarrow> m | Some m' \<Rightarrow> m')"

definition operations :: "pktmbuf_api \<Rightarrow> mbuf \<Rightarrow> string + nat list list \<times> mbuf" where
  "operations P m =
     (case pm_append P m (length msg) of None \<Rightarrow> Inl ''Append failed''
      | Some a \<Rightarrow>
          (let m1 = wr_bytes a (data_len m) msg;
               m2 = (case pm_prepend P m1 10 of None \<Rightarrow> m1 | Some h \<Rightarrow> wr_bytes h 0 (replicate 10 0x48));
               m3 = or_same m2 (pm_adj P m2 5);
               m4 = or_same m3 (pm_trim P m3 4)
           in Inr (map (room_report P) [m, m1, m2, m3, m4], m4)))"

definition chg_parser :: "mbuf \<Rightarrow> nat \<times> u8 list \<times> u8 list" where
  "chg_parser m = (data_len m, rd_bytes m 6 6, rd_bytes m 0 6)"

text \<open>The receive loop: every buffer is printed, changed and freed; a failed append exits.\<close>

fun change_burst :: "pktmbuf_api \<Rightarrow> mbuf list \<Rightarrow> string + mbuf list" where
  "change_burst P [] = Inr []"
| "change_burst P (m # ms) =
     (case operations P m of Inl e \<Rightarrow> Inl e
      | Inr (_, m') \<Rightarrow> (case change_burst P ms of Inl e \<Rightarrow> Inl e | Inr fr \<Rightarrow> Inr (m' # fr)))"

definition change_main_start :: "unit prog" where
  "change_main_start =
     must Rte_eal_init ''EAL init failed''
     (nonnull (Rte_pktmbuf_pool_create ''MBUF_POOL'' 1024 32) ''mbuf pool create failed'' (\<lambda>mp.
     must (Rte_eth_dev_configure 0 1 1) ''Port configure failed''
     (must (Rte_eth_rx_queue_setup 0 0 1024 mp) ''RX queue setup failed''
     (must (Rte_eth_tx_queue_setup 0 0 1024) ''TX queue setup failed''
     (must (Rte_eth_dev_start 0) ''Port start failed'' (done_p ()))))))"

text \<open>The same operations on one newly allocated buffer \<open>m\<close>, \<open>None\<close> when allocation fails.\<close>

definition append_main_start :: "int prog" where
  "append_main_start =
     must Rte_eal_init ''EAL init failed''
     (nonnull (Rte_pktmbuf_pool_create ''POOL'' 1024 256) ''Failed to create mempool'' done_p)"

definition append_main :: "pktmbuf_api \<Rightarrow> mbuf option \<Rightarrow> string + nat list list \<times> mbuf" where
  "append_main P m = (case m of None \<Rightarrow> Inl ''Failed to allocate mbuf'' | Some m \<Rightarrow> operations P m)"

subsection \<open>Building a packet that can be read back\<close>

lemma rd_wr_bytes_other:
  "j + 2 \<le> i \<or> i + length bs \<le> j \<Longrightarrow> rd16 (wr_bytes m i bs) j = rd16 m j"
  "j + 4 \<le> i \<or> i + length bs \<le> j \<Longrightarrow> rd32 (wr_bytes m i bs) j = rd32 m j"
  by (auto simp: rd16_bytes rd32_bytes rd8_wr_bytes)

lemma rd_bytes_wr_bytes:
  "n = length bs \<Longrightarrow> rd_bytes (wr_bytes m i bs) i n = bs"
  by (intro nth_equalityI) (simp_all add: rd_bytes_def rd8_wr_bytes)

lemma rd_bytes_cong: "(\<And>k. k < n \<Longrightarrow> rd8 m (off + k) = rd8 m' (off + k)) \<Longrightarrow> rd_bytes m off n = rd_bytes m' off n"
  by (simp add: rd_bytes_def)

lemma rd_bytes_wr_other:
  "off + n \<le> i \<Longrightarrow> rd_bytes (wr8 m i x) off n = rd_bytes m off n"
  "off + n \<le> i \<Longrightarrow> rd_bytes (wr16 m i v) off n = rd_bytes m off n"
  "off + n \<le> i \<Longrightarrow> rd_bytes (wr32 m i w) off n = rd_bytes m off n"
  "off + n \<le> i \<or> i + length bs \<le> off \<Longrightarrow> rd_bytes (wr_bytes m i bs) off n = rd_bytes m off n"
  by (rule rd_bytes_cong; auto simp: rd8_wr_bytes)+

lemmas build_defs = build_udp_packet_def build_udp_def build_ip_def build_eth_def Let_def

lemma build_udp_fields:
  fixes C m
  defines "b \<equiv> build_udp_packet C m"
  shows "rd_bytes b 0 6 = [0xFF,0xFF,0xFF,0xFF,0xFF,0xFF]" "rd_bytes b 6 6 = [0x00,0x15,0x5d,0x0e,0x66,0x03]"
    "rd16 b 12 = bswap16 0x0800" "rd8 b 14 = 0x45" "rd8 b 23 = 17" "rd32 b 26 = bswap32 0x7F000001"
    "rd32 b 30 = bswap32 0x7F000001" "rd16 b 34 = bswap16 1234" "rd16 b 36 = bswap16 5678"
    "rd_bytes b 42 (length payload) = payload" "data_len b = 42 + length payload" "mbuf_id b = mbuf_id m"
  unfolding b_def
  by (simp_all add: build_defs rd_bytes_wr_other rd_wr_bytes_other rd_bytes_wr_bytes wr_mac_bytes rd8_wr_bytes del: wr_bytes.simps)

lemma build_udp_cksum:
  assumes "cksum_laws C"
  shows "ipv4_cksum_ok (build_udp_packet C m) 14"
proof -
  obtain m2 where b: "build_udp_packet C m =
      wr_bytes (build_udp (of_nat (length payload)) (wr16 m2 24 (rte_ipv4_cksum C m2 14))) 42 payload"
    and m2: "rd16 m2 24 = 0" "rd8 m2 14 = 0x45"
  proof (rule that)
    let ?m = "wr16 (build_ip (of_nat (length payload)) (build_eth (m\<lparr>data_len := 42 + length payload\<rparr>))) 24 0"
    show "build_udp_packet C m =
      wr_bytes (build_udp (of_nat (length payload)) (wr16 ?m 24 (rte_ipv4_cksum C ?m 14))) 42 payload"
      by (simp add: build_udp_packet_def Let_def)
    show "rd16 ?m 24 = 0" "rd8 ?m 14 = 0x45" by (simp_all add: build_ip_def Let_def)
  qed
  have ihl: "ip_ihl m2 14 = 5" using m2(2) by (simp add: ip_ihl_def)
  let ?m3 = "wr16 m2 24 (rte_ipv4_cksum C m2 14)"
  have ok: "ipv4_cksum_ok ?m3 14" using ipv4_cksum_store [OF assms, of m2 14] m2(1) ihl by simp
  have same: "rd8 (build_udp_packet C m) (14 + k) = rd8 ?m3 (14 + k)" if "k < 20" for k
    using that by (simp add: b build_udp_def Let_def rd8_wr_bytes)
  have i3: "ip_ihl ?m3 14 = 5" using m2(2) by (simp add: ip_ihl_def)
  have i: "ip_ihl (build_udp_packet C m) 14 = 5" using same [of 0] m2(2) by (simp add: ip_ihl_def)
  have "ipv4_words (build_udp_packet C m) 14 = ipv4_words ?m3 14"
    unfolding ipv4_words_def i i3 using same by (intro words_at_cong) simp
  with ok show ?thesis by (simp add: ipv4_cksum_ok_def)
qed

subsection \<open>Buffer operations\<close>

lemma swap_mac_wr: "swap_mac m = wr_bytes (wr_bytes m 6 (rd_bytes m 0 6)) 0 (rd_bytes m 6 6)"
  by (simp add: swap_mac_def Let_def wr_mac_bytes rd_bytes_def del: wr_bytes.simps)

lemma rd8_swap_mac:
  "rd8 (swap_mac m) j = (if j < 6 then rd8 m (6 + j) else if j < 12 then rd8 m (j - 6) else rd8 m j)"
  by (auto simp: swap_mac_wr rd8_wr_bytes rd_bytes_def simp del: wr_bytes.simps)

lemma swap_mac_frame [simp]:
  "mbuf_id (swap_mac m) = mbuf_id m" "data_off (swap_mac m) = data_off m" "data_len (swap_mac m) = data_len m"
  by (simp_all add: swap_mac_wr del: wr_bytes.simps)

lemma swap_mac_involution: "rd8 (swap_mac (swap_mac m)) j = rd8 m j"
  by (auto simp: rd8_swap_mac)

lemma swap_burst_sent:
  "sent (swap_burst tx ms) = map swap_mac (filter (\<lambda>m. tx [swap_mac m] \<noteq> 0) ms)"
  "freed (swap_burst tx ms) = map swap_mac (filter (\<lambda>m. tx [swap_mac m] = 0) ms)"
  by (induction ms) (simp_all add: Let_def)

lemma swap_burst_conserves:
  "mset (map mbuf_id (sent (swap_burst tx ms))) + mset (map mbuf_id (freed (swap_burst tx ms))) = mset (map mbuf_id ms)"
  by (induction ms) (simp_all add: Let_def)

text \<open>
  The transmit loop of the generator uses its buffer again after it gave it away, whatever
  the NIC answers: it cannot go round twice without undefined behaviour.
\<close>

lemma tx_loop_reuses: "tx_loop (r # rs) True \<noteq> None \<longleftrightarrow> rs = []"
  by (cases rs) auto

lemma buf_wr_bytes:
  "buf (wr_bytes m i bs) a =
     (if data_off m + i \<le> a \<and> a < data_off m + i + length bs then bs ! (a - data_off m - i) else buf m a)"
proof (induction m i bs rule: wr_bytes.induct)
  case (2 m i b bs)
  then show ?case by (auto simp: wr8_def st8_def nth_Cons' intro: arg_cong)
qed auto

text \<open>With room on both sides: ten bytes more at each end, then five and four removed.\<close>

lemma operations_data:
  assumes "pktmbuf_laws P" "10 \<le> data_off m" "data_off m + data_len m + 10 \<le> pm_buf_len P"
  shows "\<exists>rep m'. operations P m = Inr (rep, m') \<and> mbuf_id m' = mbuf_id m \<and>
    data_off m' = data_off m - 5 \<and> data_len m' = data_len m + 11 \<and>
    rd_bytes m' 0 (data_len m') = replicate 5 0x48 @ rd_bytes m 0 (data_len m) @ take 6 msg"
proof -
  have l: "length msg = 10" by (simp add: msg_def)
  let ?h = "wr_bytes (m\<lparr>data_len := data_len m + 10\<rparr>) (data_len m) msg
      \<lparr>data_off := data_off m - 10, data_len := 20 + data_len m\<rparr>"
  let ?m = "wr_bytes ?h 0 (replicate 10 72)\<lparr>data_off := data_off m - 5, data_len := 11 + data_len m\<rparr>"
  have op: "\<exists>rep. operations P m = Inr (rep, ?m)"
    using assms l
    by (simp add: operations_def rte_mbuf.append rte_mbuf.prepend rte_mbuf.adj rte_mbuf.trim Let_def or_same_def)
  have "rd_bytes ?m 0 (data_len ?m) = replicate 5 0x48 @ rd_bytes m 0 (data_len m) @ take 6 msg"
  proof (rule nth_equalityI)
    fix j assume "j < length (rd_bytes ?m 0 (data_len ?m))"
    then have j: "j < data_len m + 11" by (simp add: rd_bytes_def)
    let ?a = "data_off m - 5 + j"
    have "rd_bytes ?m 0 (data_len ?m) ! j = buf ?m ?a" using j by (simp add: rd_bytes_def rd8_def del: upt_Suc)
    also have "\<dots> = (if j < 5 then 0x48 else if j < 5 + data_len m then rd8 m (j - 5) else msg ! (j - 5 - data_len m))"
      using assms(2) j l by (auto simp: buf_wr_bytes rd8_def)
    also have "\<dots> = (replicate 5 0x48 @ rd_bytes m 0 (data_len m) @ take 6 msg) ! j"
      using j l by (auto simp: nth_append rd_bytes_def)
    finally show "rd_bytes ?m 0 (data_len ?m) ! j = (replicate 5 0x48 @ rd_bytes m 0 (data_len m) @ take 6 msg) ! j" .
  qed (simp add: rd_bytes_def l)
  with op show ?thesis by auto
qed

text \<open>Every buffer of a burst is freed once, if there is tailroom for the append.\<close>

lemma change_burst_frees:
  assumes "pktmbuf_laws P" "\<And>m. m \<in> set ms \<Longrightarrow> data_off m + data_len m + 10 \<le> pm_buf_len P"
  shows "\<exists>fr. change_burst P ms = Inr fr \<and> map mbuf_id fr = map mbuf_id ms"
  using assms(2)
proof (induction ms)
  case (Cons m ms)
  have "length msg = 10" by (simp add: msg_def)
  with assms(1) Cons.prems [of m] have "\<exists>rep m'. operations P m = Inr (rep, m') \<and> mbuf_id m' = mbuf_id m"
    by (auto simp: operations_def rte_mbuf.append rte_mbuf.prepend rte_mbuf.adj rte_mbuf.trim Let_def or_same_def)
  with Cons show ?case by auto
qed simp

text \<open>
  C34. The generator and the dissector agree on the wire format: the packet
  \<open>build_udp_packet\<close> writes is dissected by \<open>parse_packet\<close> into the addresses and ports
  of the source, its header checksum verifies, its payload is the greeting, and its length is
  the sum of the headers and the payload.
\<close>

theorem build_udp_parses:
  assumes "cksum_laws C"
  shows "parse_packet (build_udp_packet C m) =
      [L2_Ethernet [0x00,0x15,0x5d,0x0e,0x66,0x03] [0xFF,0xFF,0xFF,0xFF,0xFF,0xFF],
       L3_IPv4 [127,0,0,1] [127,0,0,1], L4_Udp 1234 5678] \<and>
    ipv4_cksum_ok (build_udp_packet C m) 14 \<and>
    rd_bytes (build_udp_packet C m) 42 (length payload) = payload \<and> data_len (build_udp_packet C m) = 68"
proof -
  have len: "length payload = 26" by (simp add: payload_def)
  show ?thesis
    using build_udp_cksum [OF assms, of m] build_udp_fields(10) [of C m]
    by (simp add: parse_packet_def parse_ipv4_def build_udp_fields ip_ihl_def len bswap32_def byte32_def[of _ "0x7F000001"])
qed

theorem build_udp_parses_witness:
  "\<exists>m. parse_packet (build_udp_packet ref_cksum m) =
     [L2_Ethernet [0x00,0x15,0x5d,0x0e,0x66,0x03] [0xFF,0xFF,0xFF,0xFF,0xFF,0xFF],
      L3_IPv4 [127,0,0,1] [127,0,0,1], L4_Udp 1234 5678]"
  using build_udp_parses [OF ref_cksum_laws, of "\<lparr>mbuf_id = 1, buf = (\<lambda>_. 0), data_off = 128, data_len = 0\<rparr>"] by blast

end
