(* ===== verification/Lpm.thy ===== *)
theory Lpm
  imports Burst Eal Samples
begin

text \<open>
  The routers of \<open>longest_prefix_match_lpm\<close>: \<open>simple/main.c\<close> looks up every received
  packet, \<open>ipv4table/main.c\<close> one address. The table is \<open>rte_lpm\<close>, a parameter.

  \<open>lpm_rules\<close> observes the rules of a table by prefix and depth. Documented behaviour,
  \<open>lpm_laws\<close>: \<open>rte_lpm_add\<close> returns 0 and stores the rule under the leading \<open>depth\<close>
  bits, or fails and changes nothing; \<open>rte_lpm_lookup\<close> returns the next hop of the
  longest matching prefix.
\<close>

definition prefix_of :: "nat \<Rightarrow> u32 \<Rightarrow> u32" where
  "prefix_of d ip = drop_bit (32 - d) ip"

record 'l lpm_api =
  lpm_rules :: "'l \<Rightarrow> (nat \<times> u32) \<rightharpoonup> u32"
  lpm_add :: "'l \<Rightarrow> u32 \<Rightarrow> nat \<Rightarrow> u32 \<Rightarrow> int \<times> 'l"
  lpm_lookup :: "'l \<Rightarrow> u32 \<Rightarrow> u32 option"

text \<open>Longest match: the depths are tried from 32 down.\<close>

definition longest :: "((nat \<times> u32) \<rightharpoonup> u32) \<Rightarrow> u32 \<Rightarrow> u32 option" where
  "longest rules ip =
     (case find (\<lambda>d. rules (d, prefix_of d ip) \<noteq> None) (rev [1..<33]) of
        None \<Rightarrow> None | Some d \<Rightarrow> rules (d, prefix_of d ip))"

definition lpm_laws :: "'l lpm_api \<Rightarrow> bool" where
  "lpm_laws L \<longleftrightarrow>
     (\<forall>t ip d h. fst (lpm_add L t ip d h) = 0 \<longrightarrow>
        lpm_rules L (snd (lpm_add L t ip d h)) = (lpm_rules L t)((d, prefix_of d ip) \<mapsto> h)) \<and>
     (\<forall>t ip d h. fst (lpm_add L t ip d h) \<noteq> 0 \<longrightarrow> lpm_rules L (snd (lpm_add L t ip d h)) = lpm_rules L t) \<and>
     (\<forall>t ip. lpm_lookup L t ip = longest (lpm_rules L t) ip)"

definition ref_lpm :: "nat \<Rightarrow> ((nat \<times> u32) \<times> u32) list lpm_api" where
  "ref_lpm cap = \<lparr>lpm_rules = map_of,
     lpm_add = (\<lambda>t ip d h. if length t < cap then (0, ((d, prefix_of d ip), h) # t) else (-28, t)),
     lpm_lookup = (\<lambda>t. longest (map_of t))\<rparr>"

lemma ref_lpm_laws: "lpm_laws (ref_lpm cap)"
  by (auto simp: lpm_laws_def ref_lpm_def)

text \<open>What the longest match is: the value of a matching rule such that no deeper rule matches.\<close>

lemma longest_Some:
  assumes "longest rules ip = Some h"
  shows "\<exists>d. 1 \<le> d \<and> d \<le> 32 \<and> rules (d, prefix_of d ip) = Some h \<and>
    (\<forall>d'. d < d' \<and> d' \<le> 32 \<longrightarrow> rules (d', prefix_of d' ip) = None)"
proof -
  let ?P = "\<lambda>d. rules (d, prefix_of d ip) \<noteq> None"
  from assms obtain d where f: "find ?P (rev [1..<33]) = Some d" and h: "rules (d, prefix_of d ip) = Some h"
    by (auto simp: longest_def split: option.splits)
  from f obtain i where i: "i < 32" "d = rev [1..<33] ! i" "\<And>j. j < i \<Longrightarrow> \<not> ?P (rev [1..<33] ! j)"
    by (auto simp: find_Some_iff)
  have n: "rev [1..<33] ! j = 32 - j" if "j < 32" for j using that by (simp add: rev_nth)
  have "rules (d', prefix_of d' ip) = None" if "d < d'" "d' \<le> 32" for d'
    using i(3) [of "32 - d'"] n [of "32 - d'"] n [OF i(1)] that i(1,2) by simp
  with h i n [OF i(1)] show ?thesis by (intro exI [of _ d]) simp
qed

subsection \<open>The route tables\<close>

type_synonym route = "u32 \<times> nat \<times> u32"

fun add_routes :: "'l lpm_api \<Rightarrow> 'l \<Rightarrow> route list \<Rightarrow> int list \<times> 'l" where
  "add_routes L t [] = ([], t)"
| "add_routes L t ((ip, d, h) # rs) =
     (let (r, t1) = lpm_add L t ip d h; (codes, t2) = add_routes L t1 rs in (r # codes, t2))"

definition simple_routes :: "route list" where
  "simple_routes = [(ipv4_addr 10 1 2 0, 24, 1), (ipv4_addr 10 1 0 0, 16, 2),
     (ipv4_addr 192 0 0 0, 8, 3), (ipv4_addr 172 0 0 0, 4, 4)]"

definition ipv4table_routes :: "route list" where
  "ipv4table_routes = [(ipv4_addr 10 0 0 0, 8, 1), (ipv4_addr 10 1 0 0, 16, 2), (ipv4_addr 10 1 1 0, 24, 3)]"

text \<open>\<open>init_lpm\<close>: creation is checked, the results of the four additions are not.\<close>

definition init_lpm :: "int prog" where
  "init_lpm = nonnull (Rte_lpm_create ''LPM_TABLE'' 1024 256) ''Could not create LPM table'' done_p"

definition init_lpm_table :: "'l lpm_api \<Rightarrow> 'l \<Rightarrow> 'l" where
  "init_lpm_table L t = snd (add_routes L t simple_routes)"

definition lpm_init_port :: "nat \<Rightarrow> int \<Rightarrow> unit prog" where
  "lpm_init_port port mp =
     must (Rte_eth_dev_configure port 1 1) ''Cannot configure device''
     (must (Rte_eth_rx_queue_setup port 0 1024 mp) ''RX queue setup failed''
     (must (Rte_eth_tx_queue_setup port 0 1024) ''TX queue setup failed''
     (must (Rte_eth_dev_start port) ''Device start failed''
     (call_p (Rte_eth_promiscuous_enable port) (\<lambda>_. done_p ())))))"

definition lpm_main_start :: "unit prog" where
  "lpm_main_start =
     must Rte_eal_init ''Failed to init EAL''
     (nonnull (Rte_pktmbuf_pool_create ''MBUF_POOL'' 8192 0) ''Cannot create mbuf pool'' (\<lambda>mp.
     bind_p init_lpm (\<lambda>_. lpm_init_port 0 mp)))"

subsection \<open>The loop\<close>

text \<open>
  What a packet leads to: a printed address with its next hop, or with no route; a packet
  that is not IPv4 is skipped, and then neither sent nor freed.
\<close>

definition lpm_packet :: "'l lpm_api \<Rightarrow> 'l \<Rightarrow> mbuf \<Rightarrow> (u32 \<times> u32 option) option" where
  "lpm_packet L t m =
     (if rd16 m O_ETHER_TYPE \<noteq> bswap16 RTE_ETHER_TYPE_IPV4 then None
      else (let dst_ip = bswap32 (rd32 m (ETHER_HDR + O_DST)) in Some (dst_ip, lpm_lookup L t dst_ip)))"

definition lpm_iter :: "'l lpm_api \<Rightarrow> 'l \<Rightarrow> (mbuf list \<Rightarrow> nat) \<Rightarrow> mbuf list \<Rightarrow> (u32 \<times> u32 option) list \<times> io" where
  "lpm_iter L t tx rx =
     (List.map_filter (lpm_packet L t) rx,
      \<lparr>sent = tx_each tx (filter (\<lambda>m. lpm_packet L t m \<noteq> None) rx), freed = []\<rparr>)"

definition ipv4table_main :: "'l lpm_api \<Rightarrow> 'l \<Rightarrow> u32 option" where
  "ipv4table_main L t = lpm_lookup L (snd (add_routes L t ipv4table_routes)) (ipv4_addr 10 1 1 25)"

subsection \<open>Properties\<close>

lemma add_routes_rules:
  assumes "lpm_laws L" "\<forall>c\<in>set (fst (add_routes L t rs)). c = 0"
  shows "lpm_rules L (snd (add_routes L t rs)) =
    foldl (\<lambda>m (ip, d, h). m((d, prefix_of d ip) \<mapsto> h)) (lpm_rules L t) rs"
  using assms(2)
proof (induction rs arbitrary: t)
  case (Cons r rs)
  obtain ip d h where r: "r = (ip, d, h)" by (cases r)
  obtain c t1 where a: "lpm_add L t ip d h = (c, t1)" by fastforce
  from Cons.prems have "c = 0" "\<forall>c\<in>set (fst (add_routes L t1 rs)). c = 0"
    by (auto simp: r a split: prod.splits)
  moreover from \<open>c = 0\<close> a assms(1) have "lpm_rules L t1 = (lpm_rules L t)((d, prefix_of d ip) \<mapsto> h)"
    unfolding lpm_laws_def by (metis fst_conv snd_conv)
  moreover obtain codes t2 where "add_routes L t1 rs = (codes, t2)" by fastforce
  ultimately show ?case using Cons.IH [of t1] by (simp add: r a)
qed simp

lemma prefix_of_make32:
  "prefix_of 24 (make32 d c b a) = make32 c b a 0" "prefix_of 16 (make32 d c b a) = make32 b a 0 0"
  "prefix_of 8 (make32 d c b a) = make32 a 0 0 0" "prefix_of 4 (make32 d c b a) = make32 (drop_bit 4 a) 0 0 0"
  by (rule bit_word_eqI; auto simp: prefix_of_def make32_def bit_simps dest: bit_imp_le_length)+

lemma longest_None: "longest rules ip = None \<longleftrightarrow> (\<forall>d. 1 \<le> d \<and> d \<le> 32 \<longrightarrow> rules (d, prefix_of d ip) = None)"
proof (cases "find (\<lambda>d. rules (d, prefix_of d ip) \<noteq> None) (rev [1..<33])")
  case None
  then have "\<forall>d. 1 \<le> d \<and> d \<le> 32 \<longrightarrow> rules (d, prefix_of d ip) = None" by (auto simp: find_None_iff)
  moreover from None have "longest rules ip = None" unfolding longest_def by (simp only: option.case)
  ultimately show ?thesis by blast
next
  case (Some d)
  then have "d \<in> set (rev [1..<33])" "rules (d, prefix_of d ip) \<noteq> None"
    by (auto simp: find_Some_iff simp del: set_rev set_upt)
  moreover from Some have "longest rules ip = rules (d, prefix_of d ip)" unfolding longest_def by (simp only: option.case)
  ultimately show ?thesis by auto
qed

lemma longestI:
  assumes "rules (d, prefix_of d ip) = Some h" "1 \<le> d" "d \<le> 32"
    "\<And>d'. d < d' \<Longrightarrow> d' \<le> 32 \<Longrightarrow> rules (d', prefix_of d' ip) = None"
  shows "longest rules ip = Some h"
proof (cases "longest rules ip")
  case None
  with assms show ?thesis by (simp add: longest_None)
next
  case (Some h')
  from longest_Some [OF this] obtain d' where d': "1 \<le> d'" "d' \<le> 32" "rules (d', prefix_of d' ip) = Some h'"
    "\<forall>d''. d' < d'' \<and> d'' \<le> 32 \<longrightarrow> rules (d'', prefix_of d'' ip) = None" by blast
  have "d' = d"
  proof (rule ccontr)
    assume "d' \<noteq> d"
    then consider "d' < d" | "d < d'" by linarith
    then show False using assms d' by cases auto
  qed
  with d'(3) assms(1) Some show ?thesis by simp
qed

definition simple_hop :: "u8 \<Rightarrow> u8 \<Rightarrow> u8 \<Rightarrow> u32 option" where
  "simple_hop a b c =
     (if a = 10 \<and> b = 1 \<and> c = 2 then Some 1 else if a = 10 \<and> b = 1 then Some 2
      else if a = 192 then Some 3 else if 160 \<le> a \<and> a \<le> 175 then Some 4 else None)"

lemma nibble_10: "drop_bit 4 a = (10 :: u8) \<longleftrightarrow> 160 \<le> a \<and> a \<le> 175"
proof -
  have "unat (drop_bit 4 a) = unat a div 16" by (simp add: drop_bit_eq_div unat_div_distrib)
  then have "drop_bit 4 a = (10 :: u8) \<longleftrightarrow> unat a div 16 = 10" by (simp add: word_unat_eq_iff)
  also have "\<dots> \<longleftrightarrow> 160 \<le> unat a \<and> unat a \<le> 175" by auto
  finally show ?thesis by (simp add: word_le_nat_alt)
qed

lemma longest_four_depths:
  assumes r: "\<And>n. rules (n, prefix_of n ip) = (if n = 24 then h24 else if n = 16 then h16
      else if n = 8 then h8 else if n = 4 then h4 else None)"
  shows "longest rules ip = (if h24 \<noteq> None then h24 else if h16 \<noteq> None then h16 else if h8 \<noteq> None then h8 else h4)"
proof -
  consider h where "h24 = Some h" | h where "h24 = None" "h16 = Some h" | h where "h24 = None" "h16 = None" "h8 = Some h"
    | h where "h24 = None" "h16 = None" "h8 = None" "h4 = Some h" | "h24 = None" "h16 = None" "h8 = None" "h4 = None"
    by (cases h24; cases h16; cases h8; cases h4) auto
  then show ?thesis
  proof cases
    case 1 then show ?thesis using longestI [of rules 24 ip] by (simp add: r)
  next
    case 2 then show ?thesis using longestI [of rules 16 ip] by (simp add: r)
  next
    case 3 then show ?thesis using longestI [of rules 8 ip] by (simp add: r)
  next
    case 4 then show ?thesis using longestI [of rules 4 ip] by (simp add: r)
  next
    case 5 then show ?thesis by (simp add: longest_None r)
  qed
qed

lemma simple_longest:
  "longest (foldl (\<lambda>m (ip, d, h). m((d, prefix_of d ip) \<mapsto> h)) Map.empty simple_routes) (ipv4_addr a b c d) = simple_hop a b c"
  (is "longest ?r ?ip = _")
proof -
  have r: "?r (n, prefix_of n ?ip) = (if n = 24 then (if a = 10 \<and> b = 1 \<and> c = 2 then Some 1 else None)
      else if n = 16 then (if a = 10 \<and> b = 1 then Some 2 else None)
      else if n = 8 then (if a = 192 then Some 3 else None)
      else if n = 4 then (if 160 \<le> a \<and> a \<le> 175 then Some 4 else None) else None)" for n
    by (auto simp: simple_routes_def ipv4_addr_def prefix_of_make32 nibble_10)
  show ?thesis unfolding longest_four_depths [OF r] simple_hop_def by auto
qed

text \<open>
  The router answers by longest prefix: with all four routes in the table, an IPv4 packet
  to \<open>a.b.c.d\<close> is reported with next hop 1 for 10.1.2/24, 2 for the rest of 10.1/16, 3 for
  192/8 and 4 for 160 to 175 (what the route 172.0.0.0/4 covers), and with no route otherwise.
  Packets that are not IPv4 are not reported, and are neither sent nor freed.
\<close>

lemma lpm_routes_exact:
  assumes "lpm_laws L" "lpm_rules L t = Map.empty" "\<forall>c\<in>set (fst (add_routes L t simple_routes)). c = 0"
  shows "lpm_packet L (init_lpm_table L t) m =
      (if rd8 m 12 = 0x08 \<and> rd8 m 13 = 0
       then Some (ipv4_addr (rd8 m 30) (rd8 m 31) (rd8 m 32) (rd8 m 33), simple_hop (rd8 m 30) (rd8 m 31) (rd8 m 32))
       else None) \<and>
    ((\<forall>p. tx [p] = 1) \<longrightarrow>
      sent (snd (lpm_iter L (init_lpm_table L t) tx rx)) = filter (\<lambda>m. rd8 m 12 = 0x08 \<and> rd8 m 13 = 0) rx) \<and>
    freed (snd (lpm_iter L (init_lpm_table L t) tx rx)) = []"
proof -
  have ty: "rd16 m 12 = bswap16 0x0800 \<longleftrightarrow> rd8 m 12 = 0x08 \<and> rd8 m 13 = 0" for m
  proof -
    have "bswap16 0x0800 = make16 8 0" by (simp add: bswap16_def hi16_def lo16_def)
    then show ?thesis using rd16_bytes [of m 12] by simp
  qed
  have d: "bswap32 (rd32 m 30) = ipv4_addr (rd8 m 30) (rd8 m 31) (rd8 m 32) (rd8 m 33)" for m
    using rd32_bytes [of m 30] by (simp add: bswap32_def ipv4_addr_def)
  have l: "lpm_lookup L (init_lpm_table L t) (ipv4_addr a b c d) = simple_hop a b c" for a b c d
    using assms(1) add_routes_rules [OF assms(1,3)] simple_longest [of a b c d]
    by (simp add: lpm_laws_def init_lpm_table_def assms(2))
  have p: "lpm_packet L (init_lpm_table L t) m = (if rd8 m 12 = 0x08 \<and> rd8 m 13 = 0
       then Some (ipv4_addr (rd8 m 30) (rd8 m 31) (rd8 m 32) (rd8 m 33), simple_hop (rd8 m 30) (rd8 m 31) (rd8 m 32))
       else None)" for m
    by (simp add: lpm_packet_def ty d l)
  then show ?thesis by (auto simp: lpm_iter_def tx_each_all)
qed

end
