(* ===== verification/Vxlan.thy ===== *)
theory Vxlan
  imports Rte_Mbuf Burst Eal Samples
begin

text \<open>
  The VXLAN forwarder of \<open>vxlan/main.c\<close>: encapsulation, decapsulation, the forwarding
  loop and the start-up.

  \<open>rte_pktmbuf_prepend\<close> and \<open>rte_pktmbuf_adj\<close> are the parameter \<open>pktmbuf_api\<close> of
  theory \<open>Rte_Mbuf\<close>. Encapsulation writes through the returned pointer without a check, so a \<open>NULL\<close> there is
  undefined behaviour (\<open>None\<close>).
\<close>

abbreviation (input) VXLAN_PORT :: u16 where "VXLAN_PORT \<equiv> 4789"
abbreviation (input) VXLAN_VNI :: u32 where "VXLAN_VNI \<equiv> 100"

text \<open>The outer headers: Ethernet, IPv4, UDP and VXLAN.\<close>

abbreviation (input) OUTER :: nat where "OUTER \<equiv> 50"

subsection \<open>vxlan_encap\<close>

definition outer_eth :: "mbuf \<Rightarrow> mbuf" where
  "outer_eth m =
     (let m1 = wr_mac m 0 [0x08, 0x00, 0x27, 0xab, 0xcd, 0xef]; m2 = wr_mac m1 6 [0x08, 0x00, 0x27, 0x12, 0x34, 0x56]
      in wr16 m2 O_ETHER_TYPE (bswap16 RTE_ETHER_TYPE_IPV4))"

definition outer_ip :: "u16 \<Rightarrow> mbuf \<Rightarrow> mbuf" where
  "outer_ip pkt_len m =
     (let h = ETHER_HDR;
          m1 = wr8 m (h + O_VERSION_IHL) 0x45;
          m2 = wr8 m1 (h + O_TOS) 0;
          m3 = wr16 m2 (h + O_TOTAL_LENGTH) (bswap16 (20 + 8 + 8 + pkt_len));
          m4 = wr16 m3 (h + O_PACKET_ID) 0;
          m5 = wr16 m4 (h + O_FRAGMENT) 0;
          m6 = wr8 m5 (h + O_TTL) 64;
          m7 = wr8 m6 (h + O_PROTO) IPPROTO_UDP;
          m8 = wr32 m7 (h + O_SRC) (bswap32 (ipv4_addr 10 0 0 1))
      in wr32 m8 (h + O_DST) (bswap32 (ipv4_addr 10 0 0 2)))"

definition outer_udp_vxlan :: "u16 \<Rightarrow> mbuf \<Rightarrow> mbuf" where
  "outer_udp_vxlan pkt_len m =
     (let u = ETHER_HDR + IPV4_HDR; v = u + UDP_HDR;
          m1 = wr16 m (u + O_SPORT) (bswap16 12345);
          m2 = wr16 m1 (u + O_DPORT) (bswap16 VXLAN_PORT);
          m3 = wr16 m2 (u + O_UDP_LEN) (bswap16 (8 + 8 + pkt_len));
          m4 = wr16 m3 (u + O_UDP_CKSUM) 0;
          m5 = wr32 m4 v (bswap32 0x08000000)
      in wr32 m5 (v + 4) (bswap32 (push_bit 8 VXLAN_VNI)))"

definition vxlan_encap :: "pktmbuf_api \<Rightarrow> cksum_api \<Rightarrow> mbuf \<Rightarrow> mbuf option" where
  "vxlan_encap P C m =
     (let pkt_len = of_nat (data_len m)
      in case pm_prepend P m OUTER of None \<Rightarrow> None
         | Some m0 \<Rightarrow>
             (let m1 = outer_ip pkt_len (outer_eth m0);
                  m2 = wr16 m1 (ETHER_HDR + O_HDR_CKSUM) (rte_ipv4_cksum C m1 ETHER_HDR)
              in Some (outer_udp_vxlan pkt_len m2)))"

subsection \<open>vxlan_decap\<close>

definition vxlan_decap :: "pktmbuf_api \<Rightarrow> mbuf \<Rightarrow> int \<times> mbuf" where
  "vxlan_decap P m =
     (if rd16 m O_ETHER_TYPE \<noteq> bswap16 RTE_ETHER_TYPE_IPV4 then (-1, m)
      else if rd8 m (ETHER_HDR + O_PROTO) \<noteq> IPPROTO_UDP then (-1, m)
      else if rd16 m (ETHER_HDR + IPV4_HDR + O_DPORT) \<noteq> bswap16 VXLAN_PORT then (-1, m)
      else (0, (case pm_adj P m OUTER of None \<Rightarrow> m | Some m' \<Rightarrow> m')))"

subsection \<open>The loop of main\<close>

definition vxlan_handler :: "pktmbuf_api \<Rightarrow> cksum_api \<Rightarrow> unit handler" where
  "vxlan_handler P C u m =
     (case vxlan_decap P m of (r, m1) \<Rightarrow>
        if r = 0 then Some (u, m1, True)
        else map_option (\<lambda>m2. (u, m2, True)) (vxlan_encap P C m1))"

definition vxlan_iter :: "pktmbuf_api \<Rightarrow> cksum_api \<Rightarrow> (mbuf list \<Rightarrow> nat) \<Rightarrow> mbuf list \<Rightarrow> mbuf list option" where
  "vxlan_iter P C tx rx =
     (case run_burst (vxlan_handler P C) () rx of None \<Rightarrow> None | Some (_, out, _) \<Rightarrow> Some (tx_each tx out))"

subsection \<open>Start-up\<close>

definition vxlan_port_init :: "nat \<Rightarrow> int \<Rightarrow> int prog" where
  "vxlan_port_init p mp =
     call_p (Rte_eth_dev_configure p 1 1) (\<lambda>r. if r \<noteq> 0 then done_p r else
     call_p (Rte_eth_rx_queue_setup p 0 128 mp) (\<lambda>r. if r < 0 then done_p r else
     call_p (Rte_eth_tx_queue_setup p 0 512) (\<lambda>r. if r < 0 then done_p r else
     call_p (Rte_eth_dev_start p) (\<lambda>r. if r < 0 then done_p r else
     call_p (Rte_eth_promiscuous_enable p) (\<lambda>_. done_p 0)))))"

definition vxlan_main_start :: "unit prog" where
  "vxlan_main_start =
     must Rte_eal_init ''EAL init failed''
     (nonnull (Rte_pktmbuf_pool_create ''MBUF_POOL'' (8191 * 2) 250) ''Cannot create mbuf pool''
     (\<lambda>mp. bind_p (vxlan_port_init 0 mp) (\<lambda>r. if r \<noteq> 0 then rte_exit ''Cannot init ports'' else
           bind_p (vxlan_port_init 1 mp) (\<lambda>r. if r \<noteq> 0 then rte_exit ''Cannot init ports'' else done_p ()))))"

subsection \<open>Properties\<close>

lemma wr_mac_frame [simp]:
  "data_off (wr_mac m i bs) = data_off m" "data_len (wr_mac m i bs) = data_len m" "mbuf_id (wr_mac m i bs) = mbuf_id m"
  "i + 6 \<le> j \<Longrightarrow> rd8 (wr_mac m i bs) j = rd8 m j" "i + 6 \<le> j \<Longrightarrow> rd16 (wr_mac m i bs) j = rd16 m j"
  by (simp_all add: wr_mac_def upt_rec)

lemma outer_frame [simp]:
  "data_off (outer_eth m) = data_off m" "data_len (outer_eth m) = data_len m" "mbuf_id (outer_eth m) = mbuf_id m"
  "data_off (outer_ip l m) = data_off m" "data_len (outer_ip l m) = data_len m" "mbuf_id (outer_ip l m) = mbuf_id m"
  "data_off (outer_udp_vxlan l m) = data_off m" "data_len (outer_udp_vxlan l m) = data_len m"
  "mbuf_id (outer_udp_vxlan l m) = mbuf_id m"
  by (simp_all add: outer_eth_def outer_ip_def outer_udp_vxlan_def Let_def)

lemma outer_payload [simp]:
  "50 \<le> j \<Longrightarrow> rd8 (outer_eth m) j = rd8 m j" "50 \<le> j \<Longrightarrow> rd8 (outer_ip l m) j = rd8 m j"
  "50 \<le> j \<Longrightarrow> rd8 (outer_udp_vxlan l m) j = rd8 m j"
  by (simp_all add: outer_eth_def outer_ip_def outer_udp_vxlan_def Let_def)

lemma outer_fields [simp]:
  "rd16 (outer_udp_vxlan l m) 12 = rd16 m 12" "rd8 (outer_udp_vxlan l m) 23 = rd8 m 23"
  "rd16 (outer_udp_vxlan l m) 36 = bswap16 VXLAN_PORT"
  "rd16 (outer_ip l m) 12 = rd16 m 12" "rd8 (outer_ip l m) 23 = IPPROTO_UDP" "rd8 (outer_ip l m) 14 = 0x45"
  "rd16 (outer_eth m) 12 = bswap16 RTE_ETHER_TYPE_IPV4"
  "rd16 (outer_ip l m) 24 = rd16 m 24" "rd16 (outer_eth m) 24 = rd16 m 24"
  by (simp_all add: outer_eth_def outer_ip_def outer_udp_vxlan_def Let_def)

text \<open>
  C28. Round trip. Encapsulating a packet that has 50 bytes of headroom and decapsulating the
  result gives back the same buffer with the same start, length and content; and the
  encapsulated packet is recognised as VXLAN.
\<close>

theorem vxlan_roundtrip:
  assumes "pktmbuf_laws P" "50 \<le> data_off m"
  shows "\<exists>m1 m2. vxlan_encap P C m = Some m1 \<and> data_len m1 = data_len m + 50 \<and> vxlan_decap P m1 = (0, m2) \<and>
    mbuf_id m2 = mbuf_id m \<and> data_off m2 = data_off m \<and> data_len m2 = data_len m \<and> (\<forall>i. rd8 m2 i = rd8 m i)"
proof -
  let ?m0 = "m\<lparr>data_off := data_off m - 50, data_len := data_len m + 50\<rparr>"
  have pre: "pm_prepend P m 50 = Some ?m0" using assms by (simp add: pktmbuf_laws_def)
  let ?l = "of_nat (data_len m) :: u16"
  let ?h = "outer_ip ?l (outer_eth ?m0)"
  let ?m1 = "outer_udp_vxlan ?l (wr16 ?h 24 (rte_ipv4_cksum C ?h 14))"
  let ?m2 = "?m1\<lparr>data_off := data_off ?m1 + 50, data_len := data_len ?m1 - 50\<rparr>"
  have e: "vxlan_encap P C m = Some ?m1" by (simp add: vxlan_encap_def pre Let_def)
  have adj: "pm_adj P ?m1 50 = Some ?m2" using assms(1) by (simp add: pktmbuf_laws_def)
  have d: "vxlan_decap P ?m1 = (0, ?m2)" by (simp add: vxlan_decap_def adj)
  have "rd8 ?m2 i = rd8 m i" for i
  proof -
    have "rd8 ?m2 i = rd8 ?m1 (50 + i)" by (simp add: rd8_def add.assoc)
    also have "\<dots> = rd8 ?m0 (50 + i)" by simp
    also have "\<dots> = rd8 m i" using assms(2) by (simp add: rd8_def)
    finally show ?thesis .
  qed
  with e d assms(2) show ?thesis by (intro exI [of _ ?m1] exI [of _ ?m2]) simp
qed

definition vx_pkt :: mbuf where
  "vx_pkt = (udp_packet 0 0 0 0 [10,0,0,1] [8,8,8,8] [0x30,0x39] [0,53])\<lparr>data_off := 128\<rparr>"

theorem vxlan_roundtrip_witness:
  "\<exists>m1 m2. vxlan_encap ref_pktmbuf ref_cksum vx_pkt = Some m1 \<and> vxlan_decap ref_pktmbuf m1 = (0, m2) \<and>
     (\<forall>i. rd8 m2 i = rd8 vx_pkt i)"
  using vxlan_roundtrip [OF ref_pktmbuf_laws, of vx_pkt ref_cksum] by (auto simp: vx_pkt_def)

text \<open>
  The outer IPv4 checksum is computed over a header whose checksum field still holds
  what the headroom contained. It is correct when those two bytes were zero; when they held
  any other value than 0 or 0xFFFF, helpers that sum the header as it is produce a wrong
  checksum. And when there is no headroom for the outer headers, the null pointer that
  \<open>rte_pktmbuf_prepend\<close> returns is used.
\<close>

lemma vxlan_encap_cksum:
  assumes "pktmbuf_laws P"
  shows "(50 \<le> data_off m \<longrightarrow>
      (let old = ld16 (buf m) (data_off m - 50 + 24) in
       (cksum_laws C \<and> old = 0 \<longrightarrow> (\<exists>m1. vxlan_encap P C m = Some m1 \<and> ipv4_cksum_ok m1 ETHER_HDR)) \<and>
       (old \<notin> {0, 0xFFFF} \<longrightarrow> (\<exists>m1. vxlan_encap P ref_cksum m = Some m1 \<and> \<not> ipv4_cksum_ok m1 ETHER_HDR)))) \<and>
    (data_off m < 50 \<longrightarrow> vxlan_encap P C m = None)"
proof -
  let ?m0 = "m\<lparr>data_off := data_off m - 50, data_len := data_len m + 50\<rparr>"
  let ?l = "of_nat (data_len m) :: u16"
  let ?h = "outer_ip ?l (outer_eth ?m0)"
  let ?m1 = "\<lambda>C. outer_udp_vxlan ?l (wr16 ?h 24 (rte_ipv4_cksum C ?h 14))"
  have pre: "vxlan_encap P C m = (if 50 \<le> data_off m then Some (?m1 C) else None)" for C
    using assms by (simp add: vxlan_encap_def pktmbuf_laws_def Let_def)
  have old: "rd16 ?h 24 = ld16 (buf m) (data_off m - 50 + 24)"
    by simp (simp add: rd16_def)
  have ihl: "ip_ihl ?h 14 = 5" by (simp add: ip_ihl_def)
  have keep: "ipv4_words (outer_udp_vxlan ?l x) 14 = ipv4_words x 14" if "ip_ihl x 14 = 5" for x
  proof -
    have b: "rd8 (outer_udp_vxlan ?l x) j = rd8 x j" if "j < 34" for j
      using that by (simp add: outer_udp_vxlan_def Let_def)
    have "ip_ihl (outer_udp_vxlan ?l x) 14 = 5" using that b [of 14] ip_ihl_cong [of "outer_udp_vxlan ?l x" 14 x] by simp
    moreover have "words_at (outer_udp_vxlan ?l x) 14 20 = words_at x 14 20"
      by (rule words_at_cong) (simp add: b)
    ultimately show ?thesis using that by (simp add: ipv4_words_def)
  qed
  have ihl2: "ip_ihl (wr16 ?h 24 c) 14 = 5" for c
    using ihl ip_ihl_cong [of "wr16 ?h 24 c" 14 ?h] by simp
  have ok: "ipv4_cksum_ok (?m1 C) 14 \<longleftrightarrow> ipv4_cksum_ok (wr16 ?h 24 (rte_ipv4_cksum C ?h 14)) 14" for C
    unfolding ipv4_cksum_ok_def keep [OF ihl2] ..
  have good: "ipv4_cksum_ok (?m1 C) 14" if "cksum_laws C" "rd16 ?h 24 = 0"
    unfolding ok using ipv4_cksum_store [OF that(1), of ?h 14] that(2) ihl by simp
  have bad: "\<not> ipv4_cksum_ok (?m1 ref_cksum) 14" if "rd16 ?h 24 \<notin> {0, 0xFFFF}"
    unfolding ok using stale_ipv4_cksum [of ?h 14] that ihl by (simp add: ref_cksum_def)
  show ?thesis
    using good bad unfolding old by (auto simp: pre Let_def)
qed

end
