(* ===== verification/Rte_Ring.thy ===== *)
theory Rte_Ring
  imports Dpdk
begin

text \<open>
  The rings of DPDK as a parameter. \<open>ring_items\<close> observes the objects in a ring, oldest
  first; \<open>rte_ring_enqueue\<close> returns 0 and appends, or a negative code and leaves the ring
  alone, which it does only when the ring is full; \<open>rte_ring_enqueue_burst\<close> appends as
  many objects as fit and returns their number; \<open>rte_ring_dequeue_burst\<close> removes and
  returns up to \<open>n\<close> objects from the front.

  The locale \<open>fifo\<close> is the contract the programs rely on; its lemmas account for the
  objects that pass through a ring. \<open>bounded_fifo\<close> adds that a ring with room accepts.
  \<open>ref_ring\<close> is a concrete ring of bounded capacity.
\<close>

record ('r, 'a) ring_api =
  ring_items :: "'r \<Rightarrow> 'a list"
  ring_capacity :: "'r \<Rightarrow> nat"
  ring_enqueue :: "'r \<Rightarrow> 'a \<Rightarrow> int \<times> 'r"
  ring_enqueue_burst :: "'r \<Rightarrow> 'a list \<Rightarrow> nat \<times> 'r"
  ring_dequeue_burst :: "'r \<Rightarrow> nat \<Rightarrow> 'a list \<times> 'r"

definition ring_laws :: "('r, 'a) ring_api \<Rightarrow> bool" where
  "ring_laws R \<longleftrightarrow>
     (\<forall>r x. fst (ring_enqueue R r x) = 0 \<longrightarrow> ring_items R (snd (ring_enqueue R r x)) = ring_items R r @ [x]) \<and>
     (\<forall>r x. fst (ring_enqueue R r x) \<noteq> 0 \<longrightarrow> ring_items R (snd (ring_enqueue R r x)) = ring_items R r) \<and>
     (\<forall>r n. fst (ring_dequeue_burst R r n) @ ring_items R (snd (ring_dequeue_burst R r n)) = ring_items R r \<and>
        length (fst (ring_dequeue_burst R r n)) \<le> n) \<and>
     (\<forall>r xs. fst (ring_enqueue_burst R r xs) \<le> length xs \<and>
        ring_items R (snd (ring_enqueue_burst R r xs)) = ring_items R r @ take (fst (ring_enqueue_burst R r xs)) xs) \<and>
     (\<forall>r x. length (ring_items R r) < ring_capacity R r \<longrightarrow> fst (ring_enqueue R r x) = 0) \<and>
     (\<forall>r xs. length (ring_items R r) + length xs \<le> ring_capacity R r \<longrightarrow> fst (ring_enqueue_burst R r xs) = length xs) \<and>
     (\<forall>r x. ring_capacity R (snd (ring_enqueue R r x)) = ring_capacity R r) \<and>
     (\<forall>r xs. ring_capacity R (snd (ring_enqueue_burst R r xs)) = ring_capacity R r) \<and>
     (\<forall>r n. ring_capacity R (snd (ring_dequeue_burst R r n)) = ring_capacity R r)"

locale fifo =
  fixes items :: "'q \<Rightarrow> 'a list"
    and enq :: "'q \<Rightarrow> 'a \<Rightarrow> bool \<times> 'q"
    and deq :: "'q \<Rightarrow> nat \<Rightarrow> 'a list \<times> 'q"
    and wf :: "'q \<Rightarrow> bool"
  assumes enq_ok: "wf q \<Longrightarrow> enq q x = (True, q') \<Longrightarrow> items q' = items q @ [x]"
    and enq_full: "wf q \<Longrightarrow> enq q x = (False, q') \<Longrightarrow> items q' = items q"
    and deq_front: "wf q \<Longrightarrow> deq q n = (xs, q') \<Longrightarrow> xs @ items q' = items q \<and> length xs \<le> n"
    and wf_enq: "wf q \<Longrightarrow> wf (snd (enq q x))"
    and wf_deq: "wf q \<Longrightarrow> wf (snd (deq q n))"
begin

text \<open>An offered object is in the ring or has been refused.\<close>

lemma enq_account:
  "wf q \<Longrightarrow> mset (items (snd (enq q x))) + (if fst (enq q x) then {#} else {#x#}) = mset (items q) + {#x#}"
  using enq_ok [of q x] enq_full [of q x] by (cases "enq q x") auto

lemma deq_account: "wf q \<Longrightarrow> mset (fst (deq q n)) + mset (items (snd (deq q n))) = mset (items q)"
  using deq_front [of q n] by (cases "deq q n") (auto simp flip: mset_append)

text \<open>Objects come out in the order they went in.\<close>

lemma deq_order: "wf q \<Longrightarrow> fst (deq q n) = take (length (fst (deq q n))) (items q)"
  using deq_front [of q n] by (cases "deq q n") (metis append_eq_conv_conj fst_conv)

end

locale bounded_fifo = fifo +
  fixes enqs :: "'a \<Rightarrow> 'b list \<Rightarrow> nat \<times> 'a"
    and cap :: "'a \<Rightarrow> nat"
  assumes enqs_front: "wf q \<Longrightarrow> enqs q xs = (n, q') \<Longrightarrow> n \<le> length xs \<and> items q' = items q @ take n xs"
    and enq_room: "wf q \<Longrightarrow> length (items q) < cap q \<Longrightarrow> fst (enq q x)"
    and enqs_room: "wf q \<Longrightarrow> length (items q) + length xs \<le> cap q \<Longrightarrow> fst (enqs q xs) = length xs"
    and cap_enq: "wf q \<Longrightarrow> cap (snd (enq q x)) = cap q"
    and cap_enqs: "wf q \<Longrightarrow> cap (snd (enqs q xs)) = cap q"
    and cap_deq: "wf q \<Longrightarrow> cap (snd (deq q n)) = cap q"
begin

lemma enq_fits: "wf q \<Longrightarrow> length (items q) < cap q \<Longrightarrow> enq q x = (b, q') \<Longrightarrow> b \<and> items q' = items q @ [x] \<and> cap q' = cap q"
  using enq_room [of q x] enq_ok [of q x q'] cap_enq [of q x] by auto

lemma enqs_fits:
  "wf q \<Longrightarrow> length (items q) + length xs \<le> cap q \<Longrightarrow> enqs q xs = (n, q') \<Longrightarrow>
   n = length xs \<and> items q' = items q @ xs \<and> cap q' = cap q"
  using enqs_room [of q xs] enqs_front [of q xs n q'] cap_enqs [of q xs] by auto

end

interpretation rte_ring: bounded_fifo "ring_items R" "\<lambda>r x. (fst (ring_enqueue R r x) = 0, snd (ring_enqueue R r x))"
  "ring_dequeue_burst R" "\<lambda>_. ring_laws R"
  "ring_enqueue_burst R" "ring_capacity R" for R
  by unfold_locales (auto simp: ring_laws_def, (metis fst_conv snd_conv)+)

definition ref_ring :: "nat \<Rightarrow> ('a list, 'a) ring_api" where
  "ref_ring cap = \<lparr>ring_items = id, ring_capacity = (\<lambda>_. cap),
     ring_enqueue = (\<lambda>r x. if length r < cap then (0, r @ [x]) else (-105, r)),
     ring_enqueue_burst = (\<lambda>r xs. let n = min (length xs) (cap - length r) in (n, r @ take n xs)),
     ring_dequeue_burst = (\<lambda>r n. (take n r, drop n r))\<rparr>"

lemma ref_ring_laws: "ring_laws (ref_ring cap)"
  by (auto simp: ring_laws_def ref_ring_def Let_def)

end
