(* ===== verification/Control_Data.thy ===== *)
theory Control_Data
  imports Rte_Ring Burst Eal Samples
begin

text \<open>
  Separation of control and data traffic: \<open>control_data_segregation/main.c\<close>.
  \<open>classify_packet\<close> decides by the Ethernet, VLAN, IPv4 and L4 headers, checking the data
  length before each header; the main loop puts packets into one of two rings (the
  \<open>Rte_Ring\<close> parameter) and then sends a burst from each ring. The statistics printed every
  two seconds are not modelled.
\<close>

definition is_control_tcp_port :: "u16 \<Rightarrow> bool" where
  "is_control_tcp_port dport_be = (let port = bswap16 dport_be in port = 22 \<or> port = 53 \<or> port = 179 \<or> port = 389)"

definition is_control_udp_port :: "u16 \<Rightarrow> bool" where
  "is_control_udp_port dport_be =
     (let port = bswap16 dport_be in port = 53 \<or> port = 67 \<or> port = 68 \<or> port = 123 \<or> port = 161)"

text \<open>The part after the Ethernet and VLAN headers, with the IPv4 header at \<open>off\<close>.\<close>

definition classify_ip :: "mbuf \<Rightarrow> u16 \<Rightarrow> nat \<Rightarrow> bool" where
  "classify_ip m eth_type off =
     (if eth_type \<noteq> RTE_ETHER_TYPE_IPV4 then False
      else if data_len m < off + IPV4_HDR then False
      else
        (let proto = rd8 m (off + O_PROTO); l4 = off + ip_ihl m off * 4
         in if proto = IPPROTO_ICMP then True
            else if proto = 89 then True
            else if proto = IPPROTO_UDP then
              (if data_len m < l4 + UDP_HDR then False else is_control_udp_port (rd16 m (l4 + O_DPORT)))
            else if proto = IPPROTO_TCP then
              (if data_len m < l4 + TCP_HDR then False else is_control_tcp_port (rd16 m (l4 + O_DPORT)))
            else False))"

definition classify_packet :: "mbuf \<Rightarrow> bool" where
  "classify_packet m =
     (if data_len m < ETHER_HDR then False
      else
        (let eth_type = bswap16 (rd16 m O_ETHER_TYPE)
         in if eth_type = RTE_ETHER_TYPE_VLAN then
              (if data_len m < ETHER_HDR + VLAN_HDR then False
               else classify_ip m (bswap16 (rd16 m (ETHER_HDR + 2))) (ETHER_HDR + VLAN_HDR))
            else classify_ip m eth_type ETHER_HDR))"

subsection \<open>Start-up\<close>

definition cd_init_port :: "nat \<Rightarrow> int \<Rightarrow> unit prog" where
  "cd_init_port p mp =
     must (Rte_eth_dev_configure p 1 1) ''Port configure failed''
     (must (Rte_eth_rx_queue_setup p 0 1024 mp) ''RX queue setup failed''
     (must (Rte_eth_tx_queue_setup p 0 1024) ''TX queue setup failed''
     (must (Rte_eth_dev_start p) ''Port start failed'' (done_p ()))))"

definition cd_main_start :: "unit prog" where
  "cd_main_start =
     must Rte_eal_init ''EAL init failed''
     (call_p Rte_eth_dev_count_avail (\<lambda>n. if n = 0 then rte_exit ''No Ethernet ports found'' else
     nonnull (Rte_pktmbuf_pool_create ''MBUF_POOL'' 8192 256) ''Cannot create mempool'' (\<lambda>mp.
     call_p (Rte_ring_create ''control_ring'' 2048) (\<lambda>c.
     call_p (Rte_ring_create ''data_ring'' 2048) (\<lambda>d.
       if c = 0 \<or> d = 0 then rte_exit ''Cannot create rings'' else cd_init_port 0 mp)))))"

subsection \<open>The loop\<close>

record 'r cd_state =
  control_ring :: 'r
  data_ring :: 'r
  control_count :: u64
  data_count :: u64

definition cd_packet :: "('r, mbuf) ring_api \<Rightarrow> 'r cd_state \<Rightarrow> mbuf \<Rightarrow> 'r cd_state \<times> mbuf list" where
  "cd_packet R s m =
     (if classify_packet m then
        (case ring_enqueue R (control_ring s) m of (r, q) \<Rightarrow>
           if r = 0 then (s\<lparr>control_ring := q, control_count := control_count s + 1\<rparr>, [])
           else (s\<lparr>control_ring := q\<rparr>, [m]))
      else
        (case ring_enqueue R (data_ring s) m of (r, q) \<Rightarrow>
           if r = 0 then (s\<lparr>data_ring := q, data_count := data_count s + 1\<rparr>, [])
           else (s\<lparr>data_ring := q\<rparr>, [m])))"

fun cd_packets :: "('r, mbuf) ring_api \<Rightarrow> 'r cd_state \<Rightarrow> mbuf list \<Rightarrow> 'r cd_state \<times> mbuf list" where
  "cd_packets R s [] = (s, [])"
| "cd_packets R s (m # ms) =
     (let (s1, f1) = cd_packet R s m; (s2, f2) = cd_packets R s1 ms in (s2, f1 @ f2))"

text \<open>Sending what was dequeued; the number accepted is ignored, so the rest is gone.\<close>

definition tx_ignored :: "(mbuf list \<Rightarrow> nat) \<Rightarrow> mbuf list \<Rightarrow> mbuf list" where
  "tx_ignored tx out = (if out = [] then [] else take (tx out) out)"

definition cd_iter :: "('r, mbuf) ring_api \<Rightarrow> (mbuf list \<Rightarrow> nat) \<Rightarrow> 'r cd_state \<Rightarrow> mbuf list \<Rightarrow> 'r cd_state \<times> io" where
  "cd_iter R tx s rx =
     (let (s1, fr) = cd_packets R s rx;
          (out1, q1) = ring_dequeue_burst R (control_ring s1) 32;
          (out2, q2) = ring_dequeue_burst R (data_ring s1) 32
      in (s1\<lparr>control_ring := q1, data_ring := q2\<rparr>,
          \<lparr>sent = tx_ignored tx out1 @ tx_ignored tx out2, freed = fr\<rparr>))"

subsection \<open>Properties of the classifier\<close>




definition dns_query :: mbuf where
  "dns_query = udp_packet 0 0 0 0 [10,0,0,1] [8,8,8,8] [0x30,0x39] [0,53]"


subsection \<open>Properties of the loop\<close>

definition cd_held :: "('r, mbuf) ring_api \<Rightarrow> 'r cd_state \<Rightarrow> mbuf list" where
  "cd_held R s = ring_items R (control_ring s) @ ring_items R (data_ring s)"

definition cd_sorted :: "('r, mbuf) ring_api \<Rightarrow> 'r cd_state \<Rightarrow> bool" where
  "cd_sorted R s \<longleftrightarrow> (\<forall>m \<in> set (ring_items R (control_ring s)). classify_packet m) \<and>
     (\<forall>m \<in> set (ring_items R (data_ring s)). \<not> classify_packet m)"

lemma enqueue_cases:
  assumes "ring_laws R" "ring_enqueue R q m = (r, q')"
  shows "ring_items R q' = (if r = 0 then ring_items R q @ [m] else ring_items R q)"
  using rte_ring.enq_ok [OF assms(1), of q m q'] rte_ring.enq_full [OF assms(1), of q m q'] assms(2) by auto

lemma cd_packet_step:
  assumes "ring_laws R" "cd_sorted R s" "cd_packet R s m = (s', fr)"
  shows "cd_sorted R s'" "mset (cd_held R s') + mset fr = mset (cd_held R s) + {#m#}"
  using assms enqueue_cases [OF assms(1)]
  by (auto simp: cd_packet_def cd_sorted_def cd_held_def split: if_splits prod.splits)

lemma cd_packets_step:
  assumes "ring_laws R" "cd_sorted R s" "cd_packets R s ms = (s', fr)"
  shows "cd_sorted R s' \<and> mset (cd_held R s') + mset fr = mset (cd_held R s) + mset ms"
  using assms(2,3)
proof (induction ms arbitrary: s fr)
  case (Cons m ms)
  obtain s1 f1 where 1: "cd_packet R s m = (s1, f1)" by fastforce
  obtain f2 where 2: "cd_packets R s1 ms = (s', f2)" "fr = f1 @ f2"
    using Cons.prems(2) 1 by (auto split: prod.splits)
  note a = cd_packet_step [OF assms(1) Cons.prems(1) 1]
  note b = Cons.IH [OF a(1) 2(1)]
  have "mset (cd_held R s') + mset fr = (mset (cd_held R s') + mset f2) + mset f1" by (simp add: 2(2))
  also have "\<dots> = (mset (cd_held R s1) + mset f1) + mset ms" using b by simp
  also have "\<dots> = mset (cd_held R s) + mset (m # ms)" unfolding a(2) by simp
  finally show ?case using b by blast
qed simp

text \<open>
  C31. Segregation. Every iteration keeps the two kinds of traffic apart: the control ring
  only ever holds packets classified as control, the data ring only others. No packet
  appears twice: what is in the rings, sent and freed after an iteration was in the rings or
  received before. When the NIC accepts every packet nothing is lost either; packets it
  refuses are, because the code ignores how many were accepted.
\<close>

theorem cd_iter_segregates:
  assumes "ring_laws R" "cd_sorted R s" "cd_iter R tx s rx = (s', x)"
  shows "cd_sorted R s' \<and> mset (cd_held R s') + mset (sent x) + mset (freed x) \<subseteq># mset (cd_held R s) + mset rx \<and>
    ((\<forall>ps. tx ps = length ps) \<longrightarrow>
      mset (cd_held R s') + mset (sent x) + mset (freed x) = mset (cd_held R s) + mset rx)"
proof -
  obtain s1 fr where 1: "cd_packets R s rx = (s1, fr)" by fastforce
  obtain out1 q1 where 2: "ring_dequeue_burst R (control_ring s1) 32 = (out1, q1)" by fastforce
  obtain out2 q2 where 3: "ring_dequeue_burst R (data_ring s1) 32 = (out2, q2)" by fastforce
  have s': "s' = s1\<lparr>control_ring := q1, data_ring := q2\<rparr>"
    "x = \<lparr>sent = tx_ignored tx out1 @ tx_ignored tx out2, freed = fr\<rparr>"
    using assms(3) by (simp_all add: cd_iter_def 1 2 3)
  note a = cd_packets_step [OF assms(1,2) 1]
  have c: "out1 @ ring_items R q1 = ring_items R (control_ring s1)" "out2 @ ring_items R q2 = ring_items R (data_ring s1)"
    using rte_ring.deq_front [OF assms(1) 2] rte_ring.deq_front [OF assms(1) 3] by simp_all
  have sorted: "cd_sorted R s'" using a by (auto simp: cd_sorted_def s' c [symmetric])
  have held: "mset (cd_held R s') + mset out1 + mset out2 = mset (cd_held R s1)"
    by (simp add: cd_held_def s' c [symmetric])
  have t: "mset (tx_ignored tx out) \<subseteq># mset out" for out
    by (simp add: tx_ignored_def) (metis append_take_drop_id mset_append mset_subset_eq_add_left)
  have full: "tx_ignored tx out = out" if "\<forall>ps. tx ps = length ps" for out
    using that by (simp add: tx_ignored_def)
  have "mset (cd_held R s') + mset out1 + mset out2 + mset fr = mset (cd_held R s) + mset rx"
    using a held by simp
  moreover have "mset (cd_held R s') + mset (sent x) + mset (freed x) \<subseteq>#
      mset (cd_held R s') + (mset out1 + mset out2) + mset fr"
    using t [of out1] t [of out2] by (simp add: s' subset_mset.add_mono)
  ultimately show ?thesis
    using sorted full by (simp add: s' add.assoc)
qed

theorem cd_iter_segregates_witness:
  "\<exists>s' x. cd_iter (ref_ring 4) length \<lparr>control_ring = [], data_ring = [], control_count = 0, data_count = 0\<rparr> [dns_query] = (s', x) \<and>
     cd_sorted (ref_ring 4) s' \<and> mset (cd_held (ref_ring 4) s') + mset (sent x) + mset (freed x) = {#dns_query#}"
proof -
  let ?s = "\<lparr>control_ring = [], data_ring = [], control_count = 0, data_count = 0\<rparr> :: mbuf list cd_state"
  obtain s' x where i: "cd_iter (ref_ring 4) length ?s [dns_query] = (s', x)" by fastforce
  have "cd_sorted (ref_ring 4) ?s" "cd_held (ref_ring 4) ?s = []" by (simp_all add: cd_sorted_def cd_held_def ref_ring_def)
  with cd_iter_segregates [OF ref_ring_laws _ i] i show ?thesis by simp
qed

end
