(* ===== verification/Acl.thy ===== *)
theory Acl
  imports Burst Eal Samples
begin

text \<open>
  The ACL programs: \<open>ACL/l2fwd_acl/main.c\<close> (forward what matches), \<open>ACL/real_packet_acl/main2.c\<close>
  and \<open>ACL/exp/main.c\<close> (report what matches), and the rule sets of \<open>ACL/muti_rule/main.c\<close> and \<open>ACL/dual_rule_implementation/main.c\<close>.

  \<open>rte_acl_classify\<close> is the parameter \<open>acl\<close>. Its documented behaviour, \<open>acl_laws\<close>: search
  data is read in network order, rule values are in host order; the result is the user data
  of a matching rule of the highest priority, 0 when no rule matches. A 4-byte field of type
  \<open>MASK\<close> compares as many leading bits as its mask says, a 1-byte \<open>BITMASK\<close> field the
  bits of its mask, a 2-byte \<open>RANGE\<close> field an inclusive range. All of this is promised
  only for a layout the library accepts (\<open>layout_ok\<close>): the first field is one byte, the
  others come in groups of four consecutive bytes that share an \<open>input_index\<close>.
\<close>

record pkt_key =
  proto :: u8
  src_ip :: u32
  dst_ip :: u32
  src_port :: u16
  dst_port :: u16

datatype field_type = BITMASK | MASK | RANGE

record field_def =
  ftype :: field_type
  fsize :: nat
  field_index :: nat
  input_index :: nat
  offset :: nat

definition group_ok :: "field_def list \<Rightarrow> bool" where
  "group_ok g \<longleftrightarrow> sum_list (map fsize g) = 4 \<and>
     (\<forall>x\<in>set g. offset (hd g) \<le> offset x \<and> offset x + fsize x \<le> offset (hd g) + 4)"

definition layout_ok :: "field_def list \<Rightarrow> bool" where
  "layout_ok ds \<longleftrightarrow> ds \<noteq> [] \<and> fsize (hd ds) = 1 \<and>
     (\<forall>e\<in>set (tl ds). input_index e \<noteq> input_index (hd ds) \<and>
        group_ok (filter (\<lambda>x. input_index x = input_index e) (tl ds)))"

text \<open>A rule: its data and, per field, the value and the mask or upper bound.\<close>

record acl_rule =
  priority :: int
  category_mask :: u32
  userdata :: u32
  f_proto :: "u8 \<times> u8"
  f_src :: "u32 \<times> u32"
  f_dst :: "u32 \<times> u32"
  f_sport :: "u16 \<times> u16"
  f_dport :: "u16 \<times> u16"

definition match_mask :: "u32 \<times> u32 \<Rightarrow> u32 \<Rightarrow> bool" where
  "match_mask f v \<longleftrightarrow> drop_bit (32 - unat (snd f)) v = drop_bit (32 - unat (snd f)) (fst f)"

definition match_rule :: "acl_rule \<Rightarrow> pkt_key \<Rightarrow> bool" where
  "match_rule r k \<longleftrightarrow> proto k AND snd (f_proto r) = fst (f_proto r) AND snd (f_proto r) \<and>
     match_mask (f_src r) (bswap32 (src_ip k)) \<and> match_mask (f_dst r) (bswap32 (dst_ip k)) \<and>
     fst (f_sport r) \<le> bswap16 (src_port k) \<and> bswap16 (src_port k) \<le> snd (f_sport r) \<and>
     fst (f_dport r) \<le> bswap16 (dst_port k) \<and> bswap16 (dst_port k) \<le> snd (f_dport r)"

type_synonym acl = "field_def list \<Rightarrow> acl_rule list \<Rightarrow> pkt_key \<Rightarrow> u32"

text \<open>The offsets of the members of \<open>struct pkt_key\<close>.\<close>

definition key_offsets :: "nat list" where
  "key_offsets = [0, 4, 8, 12, 14]"

definition acl_laws :: "acl \<Rightarrow> bool" where
  "acl_laws A \<longleftrightarrow> (\<forall>ds rs k. layout_ok ds \<longrightarrow> map offset ds = key_offsets \<longrightarrow>
     (if \<exists>r\<in>set rs. match_rule r k
      then \<exists>r\<in>set rs. match_rule r k \<and> (\<forall>r'\<in>set rs. match_rule r' k \<longrightarrow> priority r' \<le> priority r) \<and>
             A ds rs k = userdata r
      else A ds rs k = 0))"

definition ref_acl :: acl where
  "ref_acl ds rs k =
     (case sort_key (\<lambda>r. - priority r) (filter (\<lambda>r. match_rule r k) rs) of [] \<Rightarrow> 0 | r # _ \<Rightarrow> userdata r)"

lemma ref_acl_laws: "acl_laws ref_acl"
  unfolding acl_laws_def
proof (intro allI impI)
  fix ds rs k
  let ?ms = "filter (\<lambda>r. match_rule r k) rs"
  let ?s = "sort_key (\<lambda>r. - priority r) ?ms"
  have st: "set ?s = {r \<in> set rs. match_rule r k}" by auto
  show "if \<exists>r\<in>set rs. match_rule r k
     then \<exists>r\<in>set rs. match_rule r k \<and> (\<forall>r'\<in>set rs. match_rule r' k \<longrightarrow> priority r' \<le> priority r) \<and>
            ref_acl ds rs k = userdata r
     else ref_acl ds rs k = 0"
  proof (cases ?s)
    case Nil
    with st have "\<not> (\<exists>r\<in>set rs. match_rule r k)" by auto
    then show ?thesis using Nil by (simp add: ref_acl_def)
  next
    case (Cons r t)
    then have r: "r \<in> set rs" "match_rule r k" using st by auto
    have "sorted (map (\<lambda>r. - priority r) ?s)" by (rule sorted_sort_key)
    then have "\<forall>r'\<in>set ?s. priority r' \<le> priority r" unfolding Cons by auto
    then have "\<forall>r'\<in>set rs. match_rule r' k \<longrightarrow> priority r' \<le> priority r" using st by blast
    then show ?thesis using r Cons by (auto simp: ref_acl_def)
  qed
qed

lemma acl_single:
  assumes "acl_laws A" "layout_ok ds" "map offset ds = key_offsets"
  shows "A ds [r] k = (if match_rule r k then userdata r else 0)"
proof -
  from assms have "if \<exists>r'\<in>set [r]. match_rule r' k
      then \<exists>r'\<in>set [r]. match_rule r' k \<and> (\<forall>r''\<in>set [r]. match_rule r'' k \<longrightarrow> priority r'' \<le> priority r') \<and>
             A ds [r] k = userdata r'
      else A ds [r] k = 0"
    unfolding acl_laws_def by blast
  then show ?thesis by (simp split: if_splits)
qed

subsection \<open>l2fwd_acl/main.c\<close>

definition l2fwd_field_defs :: "field_def list" where
  "l2fwd_field_defs = [\<lparr>ftype = BITMASK, fsize = 1, field_index = 0, input_index = 0, offset = 0\<rparr>,
     \<lparr>ftype = MASK, fsize = 4, field_index = 1, input_index = 1, offset = 4\<rparr>,
     \<lparr>ftype = MASK, fsize = 4, field_index = 2, input_index = 2, offset = 8\<rparr>,
     \<lparr>ftype = RANGE, fsize = 2, field_index = 3, input_index = 3, offset = 12\<rparr>,
     \<lparr>ftype = RANGE, fsize = 2, field_index = 4, input_index = 3, offset = 14\<rparr>]"

definition l2fwd_rule :: acl_rule where
  "l2fwd_rule = \<lparr>priority = 10, category_mask = 1, userdata = 1, f_proto = (IPPROTO_TCP, 0xFF),
     f_src = (bswap32 (ipv4_addr 172 17 166 200), 32), f_dst = (0, 0), f_sport = (0, 65535), f_dport = (0, 65535)\<rparr>"

definition init_acl :: "int prog" where
  "init_acl =
     nonnull (Rte_acl_create ''acl_ctx'' 32) ''ACL create failed'' (\<lambda>ctx.
     must (Rte_acl_add_rules 1) ''ACL rule add failed''
     (call_p (Rte_acl_build 5) (\<lambda>r. if r \<noteq> 0 then rte_exit ''ACL build failed'' else done_p ctx)))"

definition l2fwd_key :: "mbuf \<Rightarrow> pkt_key" where
  "l2fwd_key m =
     (let ip = ETHER_HDR; l4 = ip + ip_ihl m ip * 4; pr = rd8 m (ip + O_PROTO);
          k = \<lparr>proto = pr, src_ip = bswap32 (rd32 m (ip + O_SRC)), dst_ip = bswap32 (rd32 m (ip + O_DST)),
               src_port = 0, dst_port = 0\<rparr>
      in if pr = IPPROTO_TCP \<or> pr = IPPROTO_UDP
         then k\<lparr>src_port := bswap16 (rd16 m (l4 + O_SPORT)), dst_port := bswap16 (rd16 m (l4 + O_DPORT))\<rparr>
         else k)"

definition l2fwd_packet :: "acl \<Rightarrow> unit handler" where
  "l2fwd_packet A u m =
     (if rd16 m O_ETHER_TYPE \<noteq> bswap16 RTE_ETHER_TYPE_IPV4 then Some (u, m, False)
      else if A l2fwd_field_defs [l2fwd_rule] (l2fwd_key m) \<noteq> 0 then Some (u, m, True)
      else Some (u, m, False))"

text \<open>One port's burst; matching packets are sent one by one and the result is ignored.\<close>

definition l2fwd_burst :: "acl \<Rightarrow> (mbuf list \<Rightarrow> nat) \<Rightarrow> mbuf list \<Rightarrow> io option" where
  "l2fwd_burst A tx rx =
     (case run_burst (l2fwd_packet A) () rx of None \<Rightarrow> None
      | Some (_, out, dropped) \<Rightarrow> Some \<lparr>sent = tx_each tx out, freed = dropped\<rparr>)"

text \<open>One round over the ports of the device list with what each received; a port outside the mask is not polled.\<close>

fun l2fwd_round :: "acl \<Rightarrow> (nat \<Rightarrow> mbuf list \<Rightarrow> nat) \<Rightarrow> u32 \<Rightarrow> (nat \<times> mbuf list) list \<Rightarrow> (nat \<times> io) list option" where
  "l2fwd_round A tx portmask [] = Some []"
| "l2fwd_round A tx portmask ((p, rx) # ps) =
     (if \<not> bit portmask p then l2fwd_round A tx portmask ps
      else if rx = [] then l2fwd_round A tx portmask ps
      else (case l2fwd_burst A (tx p) rx of None \<Rightarrow> None
        | Some out \<Rightarrow> map_option ((#) (p, out)) (l2fwd_round A tx portmask ps)))"

fun l2fwd_ports :: "u32 \<Rightarrow> int \<Rightarrow> nat list \<Rightarrow> unit prog" where
  "l2fwd_ports portmask mp [] = done_p ()"
| "l2fwd_ports portmask mp (p # ps) =
     (if \<not> bit portmask p then l2fwd_ports portmask mp ps
      else
        must (Rte_eth_dev_configure p 1 1) ''port configure failed''
        (must (Rte_eth_rx_queue_setup p 0 1024 mp) ''rx setup failed''
        (must (Rte_eth_tx_queue_setup p 0 1024) ''tx setup failed''
        (must (Rte_eth_dev_start p) ''port start failed''
        (call_p (Rte_eth_promiscuous_enable p) (\<lambda>_. l2fwd_ports portmask mp ps))))))"

definition l2fwd_main_start :: "bool \<Rightarrow> u32 \<Rightarrow> nat list \<Rightarrow> unit prog" where
  "l2fwd_main_start args_ok portmask devs =
     must Rte_eal_init ''EAL init failed''
     (if \<not> args_ok then rte_exit ''Invalid arguments''
      else bind_p init_acl (\<lambda>_.
        nonnull (Rte_pktmbuf_pool_create ''mbuf_pool'' 8192 256) ''mempool failed'' (\<lambda>mp. l2fwd_ports portmask mp devs)))"

subsection \<open>real_packet_acl/main2.c and exp/main.c\<close>

definition real_field_defs :: "field_def list" where
  "real_field_defs = [\<lparr>ftype = BITMASK, fsize = 1, field_index = 0, input_index = 0, offset = 0\<rparr>,
     \<lparr>ftype = MASK, fsize = 4, field_index = 1, input_index = 1, offset = 4\<rparr>,
     \<lparr>ftype = MASK, fsize = 4, field_index = 2, input_index = 2, offset = 8\<rparr>,
     \<lparr>ftype = RANGE, fsize = 2, field_index = 3, input_index = 3, offset = 12\<rparr>,
     \<lparr>ftype = RANGE, fsize = 2, field_index = 4, input_index = 4, offset = 14\<rparr>]"

definition exp_field_defs :: "field_def list" where
  "exp_field_defs = [\<lparr>ftype = BITMASK, fsize = 1, field_index = 0, input_index = 0, offset = 0\<rparr>,
     \<lparr>ftype = MASK, fsize = 4, field_index = 1, input_index = 1, offset = 4\<rparr>,
     \<lparr>ftype = MASK, fsize = 4, field_index = 2, input_index = 2, offset = 8\<rparr>,
     \<lparr>ftype = RANGE, fsize = 2, field_index = 3, input_index = 3, offset = 12\<rparr>,
     \<lparr>ftype = RANGE, fsize = 2, field_index = 4, input_index = 3, offset = 14\<rparr>]"

definition ssdp_rule :: acl_rule where
  "ssdp_rule = \<lparr>priority = 10, category_mask = 1, userdata = 1, f_proto = (IPPROTO_UDP, 0xFF),
     f_src = (0, 0), f_dst = (ipv4_addr 239 255 255 250, 32), f_sport = (0, 65535), f_dport = (1900, 1900)\<rparr>"

definition exp_rule :: acl_rule where
  "exp_rule = \<lparr>priority = 10, category_mask = 1, userdata = 1, f_proto = (IPPROTO_TCP, 0xFF),
     f_src = (ipv4_addr 172 17 166 200, 32), f_dst = (0, 0), f_sport = (0, 65535), f_dport = (0, 65535)\<rparr>"

text \<open>The Ethernet type (network order) and the offset of the network header, past one VLAN tag.\<close>

definition l3_start :: "mbuf \<Rightarrow> u16 \<times> nat" where
  "l3_start m =
     (let eth_type = rd16 m O_ETHER_TYPE; ptr = ETHER_HDR
      in if eth_type = bswap16 RTE_ETHER_TYPE_VLAN then (rd16 m (ptr + VLAN_HDR - 2), ptr + VLAN_HDR) else (eth_type, ptr))"

text \<open>The key, in network order as the packet has it.\<close>

definition net_key :: "mbuf \<Rightarrow> nat \<Rightarrow> pkt_key" where
  "net_key m ip =
     (let l4 = ip + ip_ihl m ip * 4; pr = rd8 m (ip + O_PROTO);
          k = \<lparr>proto = pr, src_ip = rd32 m (ip + O_SRC), dst_ip = rd32 m (ip + O_DST), src_port = 0, dst_port = 0\<rparr>
      in if pr = IPPROTO_TCP \<or> pr = IPPROTO_UDP
         then k\<lparr>src_port := rd16 m (l4 + O_SPORT), dst_port := rd16 m (l4 + O_DPORT)\<rparr>
         else k)"

text \<open>What is reported for a packet: nothing when it is not IPv4. Every packet is freed.\<close>

definition acl_report :: "acl \<Rightarrow> field_def list \<Rightarrow> acl_rule list \<Rightarrow> mbuf \<Rightarrow> bool option" where
  "acl_report A defs rules m =
     (case l3_start m of (eth_type, ip) \<Rightarrow>
        if eth_type \<noteq> bswap16 RTE_ETHER_TYPE_IPV4 then None else Some (A defs rules (net_key m ip) \<noteq> 0))"

definition real_acl_burst :: "acl \<Rightarrow> mbuf list \<Rightarrow> bool option list \<times> mbuf list" where
  "real_acl_burst A rx = (map (acl_report A real_field_defs [ssdp_rule]) rx, rx)"

definition exp_acl_burst :: "acl \<Rightarrow> mbuf list \<Rightarrow> bool option list \<times> mbuf list" where
  "exp_acl_burst A rx = (map (acl_report A exp_field_defs [exp_rule]) rx, rx)"

definition real_main_start :: "unit prog" where
  "real_main_start =
     must Rte_eal_init ''EAL init failed''
     (call_p Rte_eth_dev_count_avail (\<lambda>n. if n = 0 then rte_exit ''No ports available'' else
     must (Rte_eth_dev_info_get 0) ''Failed to get port info''
     (nonnull (Rte_pktmbuf_pool_create ''mbuf_pool'' 8192 256) ''mempool failed'' (\<lambda>mp.
     must (Rte_eth_dev_configure 0 1 1) ''port configure failed''
     (must (Rte_eth_rx_queue_setup 0 0 1024 mp) ''rx setup failed''
     (must (Rte_eth_tx_queue_setup 0 0 1024) ''tx setup failed''
     (must (Rte_eth_dev_start 0) ''port start failed''
     (call_p (Rte_eth_promiscuous_enable 0) (\<lambda>_.
     nonnull (Rte_acl_create ''acl_ctx'' 32) ''ACL create failed'' (\<lambda>_.
     must (Rte_acl_add_rules 1) ''Rule add failed''
     (call_p (Rte_acl_build 5) (\<lambda>r. if r \<noteq> 0 then rte_exit ''ACL build failed'' else done_p ()))))))))))))"

text \<open>\<open>exp/main.c\<close> does the same, but ignores the result of \<open>rte_eth_dev_info_get\<close>.\<close>

definition exp_main_start :: "unit prog" where
  "exp_main_start =
     must Rte_eal_init ''EAL init failed''
     (call_p Rte_eth_dev_count_avail (\<lambda>n. if n = 0 then rte_exit ''No ports available'' else
     call_p (Rte_eth_dev_info_get 0) (\<lambda>_.
     nonnull (Rte_pktmbuf_pool_create ''mbuf_pool'' 8192 256) ''mempool failed'' (\<lambda>mp.
     must (Rte_eth_dev_configure 0 1 1) ''port configure failed''
     (must (Rte_eth_rx_queue_setup 0 0 1024 mp) ''rx setup failed''
     (must (Rte_eth_tx_queue_setup 0 0 1024) ''tx setup failed''
     (must (Rte_eth_dev_start 0) ''port start failed''
     (call_p (Rte_eth_promiscuous_enable 0) (\<lambda>_.
     nonnull (Rte_acl_create ''acl_ctx'' 32) ''ACL create failed'' (\<lambda>_.
     must (Rte_acl_add_rules 1) ''Rule add failed''
     (call_p (Rte_acl_build 5) (\<lambda>r. if r \<noteq> 0 then rte_exit ''ACL build failed'' else done_p ()))))))))))))"

subsection \<open>muti_rule/main.c\<close>

text \<open>The offsets are those of an IPv4 header without options and the ports after it.\<close>

definition multi_field_defs :: "field_def list" where
  "multi_field_defs = [\<lparr>ftype = BITMASK, fsize = 1, field_index = 0, input_index = 0, offset = 9\<rparr>,
     \<lparr>ftype = MASK, fsize = 4, field_index = 1, input_index = 1, offset = 12\<rparr>,
     \<lparr>ftype = MASK, fsize = 4, field_index = 2, input_index = 2, offset = 16\<rparr>,
     \<lparr>ftype = RANGE, fsize = 2, field_index = 3, input_index = 3, offset = 20\<rparr>,
     \<lparr>ftype = RANGE, fsize = 2, field_index = 4, input_index = 4, offset = 22\<rparr>]"

definition add_rule :: "u8 \<Rightarrow> u32 \<Rightarrow> u32 \<Rightarrow> u32 \<Rightarrow> u32 \<Rightarrow> u16 \<Rightarrow> u16 \<Rightarrow> u16 \<Rightarrow> u16 \<Rightarrow> int \<Rightarrow> u32 \<Rightarrow> acl_rule" where
  "add_rule pr src src_mask dst dst_mask sport_low sport_high dport_low dport_high prio ud =
     \<lparr>priority = prio, category_mask = 1, userdata = ud, f_proto = (pr, 0xFF), f_src = (src, src_mask),
      f_dst = (dst, dst_mask), f_sport = (sport_low, sport_high), f_dport = (dport_low, dport_high)\<rparr>"

definition multi_rules :: "acl_rule list" where
  "multi_rules = [add_rule IPPROTO_UDP 0 0 0 0 0 65535 53 53 100 1,
     add_rule IPPROTO_TCP 0 0 0 0 0 65535 80 80 90 2, add_rule 0 0 0 0 0 0 65535 0 65535 1 0]"

definition multi_main :: "int prog" where
  "multi_main =
     call_p Rte_eal_init (\<lambda>_.
     call_p (Rte_acl_create ''ACL_CTX'' 10) (\<lambda>ctx. if ctx = 0 then done_p (-1) else
     call_p (Rte_acl_add_rules 3) (\<lambda>r. if r < 0 then done_p (-1) else
     call_p (Rte_acl_build 5) (\<lambda>r. if r \<noteq> 0 then done_p (-1) else done_p 0))))"

subsection \<open>dual_rule_implementation/main.c\<close>

definition dual_field_defs :: "field_def list" where
  "dual_field_defs = [\<lparr>ftype = BITMASK, fsize = 1, field_index = 0, input_index = 0, offset = 0\<rparr>,
     \<lparr>ftype = MASK, fsize = 4, field_index = 1, input_index = 1, offset = 4\<rparr>,
     \<lparr>ftype = MASK, fsize = 4, field_index = 2, input_index = 2, offset = 8\<rparr>,
     \<lparr>ftype = RANGE, fsize = 2, field_index = 3, input_index = 3, offset = 12\<rparr>,
     \<lparr>ftype = RANGE, fsize = 2, field_index = 4, input_index = 4, offset = 14\<rparr>]"

definition dual_rules :: "acl_rule list" where
  "dual_rules = [\<lparr>priority = 100, category_mask = 1, userdata = 777, f_proto = (IPPROTO_TCP, 0xFF),
       f_src = (ipv4_addr 140 82 112 21, 32), f_dst = (ipv4_addr 172 17 166 200, 32),
       f_sport = (443, 443), f_dport = (42960, 42960)\<rparr>,
     \<lparr>priority = 1, category_mask = 1, userdata = 0, f_proto = (0, 0), f_src = (0, 0), f_dst = (0, 0),
       f_sport = (0, 0), f_dport = (0, 0)\<rparr>]"

definition dual_pkt :: pkt_key where
  "dual_pkt = \<lparr>proto = IPPROTO_TCP, src_ip = bswap32 (ipv4_addr 140 82 112 21),
     dst_ip = bswap32 (ipv4_addr 172 17 166 200), src_port = bswap16 443, dst_port = bswap16 42960\<rparr>"

text \<open>The user data printed and whether the packet is reported as allowed.\<close>

definition dual_report :: "acl \<Rightarrow> pkt_key \<Rightarrow> u32 \<times> bool" where
  "dual_report A k = (let result = A dual_field_defs dual_rules k in (result, result = 777))"

definition dual_main_start :: "int prog" where
  "dual_main_start =
     call_p Rte_eal_init (\<lambda>r. if r < 0 then done_p (-1) else
     call_p (Rte_acl_create ''acl_ctx'' 32) (\<lambda>ctx. if ctx = 0 then done_p (-1) else
     call_p (Rte_acl_add_rules 2) (\<lambda>r. if r < 0 then done_p (-1) else
     call_p (Rte_acl_build 5) (\<lambda>r. if r \<noteq> 0 then done_p (-1) else done_p 0))))"

subsection \<open>Properties\<close>

lemma layouts:
  "layout_ok l2fwd_field_defs" "map offset l2fwd_field_defs = key_offsets"
  "layout_ok exp_field_defs" "map offset exp_field_defs = key_offsets"
  by (simp_all add: layout_ok_def group_ok_def l2fwd_field_defs_def exp_field_defs_def key_offsets_def)

lemma match_mask_32 [simp]: "match_mask (a, 32) v \<longleftrightarrow> v = a"
  by (simp add: match_mask_def)

lemma match_mask_0 [simp]: "match_mask (a, 0) v"
proof -
  have "drop_bit 32 (x :: u32) = 0" for x
    by (rule bit_word_eqI) (simp add: bit_simps)
  then show ?thesis by (simp add: match_mask_def)
qed

lemma proto_mask [simp]: "(p :: u8) AND 0xFF = p"
proof -
  have "(0xFF :: u8) = - 1" by simp
  then show ?thesis by (metis and.right_neutral)
qed

lemma u16_full [simp]: "(p :: u16) \<le> 65535"
  using unat_u16_less [of p] by (simp add: word_le_nat_alt)

lemma ether_types: "bswap16 0x0800 = make16 8 0" "bswap16 0x8100 = make16 0x81 0"
  by (simp_all add: bswap16_def hi16_def lo16_def)

lemma ether_ipv4_bytes: "rd16 m i = bswap16 0x0800 \<longleftrightarrow> rd8 m i = 0x08 \<and> rd8 m (i + 1) = 0"
  by (simp add: rd16_bytes ether_types)

lemma swap_eq: "bswap32 x = y \<longleftrightarrow> x = bswap32 y" "bswap16 p = q \<longleftrightarrow> p = bswap16 q"
  by (metis bswap32_bswap32, metis bswap16_bswap16)

lemma zero_port: "bswap16 0 = 0"
  by (simp add: bswap16_def hi16_def lo16_def make16_def)

text \<open>A TCP packet over IPv4 from 172.17.166.200, its IPv4 header at \<open>ip\<close>.\<close>

definition tcp_from_host :: "mbuf \<Rightarrow> nat \<Rightarrow> bool" where
  "tcp_from_host m ip \<longleftrightarrow> rd8 m (ip + 9) = 6 \<and> rd8 m (ip + 12) = 172 \<and> rd8 m (ip + 13) = 17 \<and>
     rd8 m (ip + 14) = 166 \<and> rd8 m (ip + 15) = 200"

lemma l2fwd_match: "match_rule l2fwd_rule (l2fwd_key m) \<longleftrightarrow> tcp_from_host m 14"
  by (auto simp: match_rule_def l2fwd_rule_def l2fwd_key_def tcp_from_host_def Let_def bswap32_ipv4_addr rd32_bytes)

lemma exp_match: "match_rule exp_rule (net_key m ip) \<longleftrightarrow> tcp_from_host m ip"
proof -
  have "bswap32 x = ipv4_addr a b c d \<longleftrightarrow> x = make32 a b c d" for x a b c d
    by (metis bswap32_bswap32 bswap32_ipv4_addr)
  then show ?thesis
    by (auto simp: match_rule_def exp_rule_def net_key_def tcp_from_host_def Let_def rd32_bytes add.assoc add.commute [of ip])
qed

definition l2fwd_pass :: "mbuf \<Rightarrow> bool" where
  "l2fwd_pass m \<longleftrightarrow> rd8 m 12 = 0x08 \<and> rd8 m 13 = 0 \<and> tcp_from_host m 14"

lemma l2fwd_packet_eq:
  assumes "acl_laws A"
  shows "l2fwd_packet A u m = Some (u, m, l2fwd_pass m)"
  using acl_single [OF assms layouts(1,2), of l2fwd_rule "l2fwd_key m"] ether_ipv4_bytes [of m 12] l2fwd_match [of m]
  by (auto simp: l2fwd_packet_def l2fwd_pass_def l2fwd_rule_def)

lemma l2fwd_run:
  assumes "acl_laws A"
  shows "run_burst (l2fwd_packet A) () rx = Some ((), filter l2fwd_pass rx, filter (\<lambda>m. \<not> l2fwd_pass m) rx)"
  by (induction rx) (simp_all add: l2fwd_packet_eq [OF assms])

lemma l2fwd_round_ports:
  assumes "acl_laws A"
  shows "l2fwd_round A tx portmask ps = Some (map (\<lambda>(p, rx). (p, \<lparr>sent = tx_each (tx p) (filter l2fwd_pass rx),
    freed = filter (\<lambda>m. \<not> l2fwd_pass m) rx\<rparr>)) (filter (\<lambda>(p, rx). bit portmask p \<and> rx \<noteq> []) ps))"
proof (induction ps)
  case (Cons x ps)
  obtain p rx where x: "x = (p, rx)" by (cases x)
  show ?case
    by (cases "bit portmask p"; cases "rx = []") (simp_all add: x Cons.IH l2fwd_burst_def l2fwd_run [OF assms])
qed simp

text \<open>
  C32. The ACL forwarder offers for transmission exactly the untagged IPv4 TCP packets from
  172.17.166.200, in order, and frees exactly the others. Rule and key are both byte swapped,
  which for a full-length mask is the comparison that was meant. A packet that passes the rule
  and that the transmit queue does not take is neither sent nor freed. A round of the loop does
  this on every port of the mask that received something, in order, on the port itself, and on no other.
\<close>

theorem l2fwd_filters:
  assumes "acl_laws A"
  shows "(\<exists>out. l2fwd_burst A tx rx = Some \<lparr>sent = out, freed = filter (\<lambda>m. \<not> l2fwd_pass m) rx\<rparr> \<and>
    ((\<forall>p. tx [p] = 1) \<longrightarrow> out = filter l2fwd_pass rx) \<and> ((\<forall>p. tx [p] = 0) \<longrightarrow> out = [])) \<and>
   l2fwd_round A txs portmask ps = Some (map (\<lambda>(p, rx). (p, \<lparr>sent = tx_each (txs p) (filter l2fwd_pass rx),
     freed = filter (\<lambda>m. \<not> l2fwd_pass m) rx\<rparr>)) (filter (\<lambda>(p, rx). bit portmask p \<and> rx \<noteq> []) ps))"
  using l2fwd_round_ports [OF assms] by (auto simp: l2fwd_burst_def l2fwd_run [OF assms] tx_each_all tx_each_none)

definition tcp_pkt :: "u8 list \<Rightarrow> mbuf" where
  "tcp_pkt ip = \<lparr>mbuf_id = 3, buf = bytes_mem ([2,0,0,0,0,1, 2,0,0,0,0,2, 0x08,0x00] @
     [0x45,0,0,40, 0,0,0,0, 64,6,0,0] @ ip @ [8,8,8,8] @ [0x30,0x39,0,80]), data_off = 0, data_len = 54\<rparr>"

theorem l2fwd_filters_witness:
  "l2fwd_burst ref_acl (\<lambda>ps. 1) [tcp_pkt [172,17,166,200], tcp_pkt [10,0,0,1]] =
     Some \<lparr>sent = [tcp_pkt [172,17,166,200]], freed = [tcp_pkt [10,0,0,1]]\<rparr>"
proof -
  have "l2fwd_pass (tcp_pkt [172,17,166,200])" "\<not> l2fwd_pass (tcp_pkt [10,0,0,1])"
    by (simp_all add: l2fwd_pass_def tcp_from_host_def tcp_pkt_def rd8_def bytes_mem_def)
  with l2fwd_filters [OF ref_acl_laws, of "\<lambda>ps. 1" "[tcp_pkt [172,17,166,200], tcp_pkt [10,0,0,1]]"]
  show ?thesis by auto
qed

text \<open>
  The reporting program of \<open>ACL/exp\<close>: a frame with up to one VLAN tag is reported
  when it carries IPv4, as a match exactly when it is TCP from 172.17.166.200; every received
  buffer is freed.
\<close>

lemma exp_acl_reports:
  assumes "acl_laws A"
  shows "snd (exp_acl_burst A rx) = rx \<and>
    (\<forall>i < length rx. let m = rx ! i; tagged = (rd8 m 12 = 0x81 \<and> rd8 m 13 = 0); ip = (if tagged then 18 else 14) in
       fst (exp_acl_burst A rx) ! i =
         (if rd8 m (ip - 2) = 0x08 \<and> rd8 m (ip - 1) = 0 then Some (tcp_from_host m ip) else None))"
proof -
  have vlan: "rd16 m 12 = bswap16 0x8100 \<longleftrightarrow> rd8 m 12 = 0x81 \<and> rd8 m 13 = 0" for m
    using rd16_bytes [of m 12] by (simp add: ether_types)
  have "acl_report A exp_field_defs [exp_rule] m =
      (let tagged = (rd8 m 12 = 0x81 \<and> rd8 m 13 = 0); ip = (if tagged then 18 else 14) in
       if rd8 m (ip - 2) = 0x08 \<and> rd8 m (ip - 1) = 0 then Some (tcp_from_host m ip) else None)" for m
    using ether_ipv4_bytes [of m 12] ether_ipv4_bytes [of m 16] exp_match [of m] vlan [of m]
    by (auto simp: acl_report_def l3_start_def acl_single [OF assms layouts(3,4)] exp_rule_def Let_def)
  then show ?thesis by (simp add: exp_acl_burst_def Let_def)
qed

text \<open>
  The rule sets of \<open>muti_rule\<close> and \<open>dual_rule_implementation\<close>. In the first, DNS
  over UDP and HTTP over TCP match their rules, but the last rule, meant as the default,
  matches nothing except IP protocol 0, as its protocol mask is 0xFF. In the second, the first
  rule matches exactly the one TCP flow it names (so the sample packet), but the rule called
  a wildcard matches only keys whose ports are both 0. And of the five programs' field
  layouts, those of \<open>muti_rule\<close>, \<open>dual_rule_implementation\<close> and
  \<open>real_packet_acl/main2.c\<close> break the grouping the library asks for, since they give the
  two port fields different input indexes.
\<close>

lemma multi_rules_default:
  "(\<exists>r\<in>set multi_rules. match_rule r k \<and> userdata r = 1) = (proto k = IPPROTO_UDP \<and> bswap16 (dst_port k) = 53) \<and>
   (\<exists>r\<in>set multi_rules. match_rule r k \<and> userdata r = 2) = (proto k = IPPROTO_TCP \<and> bswap16 (dst_port k) = 80) \<and>
   (\<exists>r\<in>set multi_rules. match_rule r k \<and> userdata r = 0) = (proto k = 0) \<and>
   match_rule (dual_rules ! 0) k = (k = dual_pkt) \<and>
   match_rule (dual_rules ! 1) k = (src_port k = 0 \<and> dst_port k = 0) \<and>
   layout_ok exp_field_defs \<and> layout_ok l2fwd_field_defs \<and> \<not> layout_ok real_field_defs \<and>
   \<not> layout_ok multi_field_defs \<and> \<not> layout_ok dual_field_defs"
proof -
  have eq: "a \<le> x \<and> x \<le> a \<longleftrightarrow> x = a" for a x :: u16 by auto
  have "match_rule (dual_rules ! 0) k = (k = dual_pkt)"
    by (cases k) (auto simp: dual_rules_def dual_pkt_def match_rule_def eq swap_eq)
  moreover have "match_rule (dual_rules ! 1) k = (src_port k = 0 \<and> dst_port k = 0)"
    by (simp add: dual_rules_def match_rule_def swap_eq zero_port)
  moreover have "\<not> layout_ok real_field_defs" "\<not> layout_ok multi_field_defs" "\<not> layout_ok dual_field_defs"
    by (simp_all add: layout_ok_def group_ok_def real_field_defs_def multi_field_defs_def dual_field_defs_def)
  ultimately show ?thesis using layouts
    by (simp add: multi_rules_def add_rule_def match_rule_def eq)
qed

end
