(* ===== verification/Nat_Sim.thy ===== *)
theory Nat_Sim
  imports Burst Eal Samples
begin

text \<open>
  The one-port NAT simulation of \<open>NAT/static_nat/main.c\<close>: a fixed pair of addresses is
  exchanged and the header checksum is recomputed. The log output is not modelled.
\<close>

definition PRIVATE_IP :: u32 where "PRIVATE_IP = ipv4_addr 172 22 116 70"
definition PUBLIC_IP :: u32 where "PUBLIC_IP = ipv4_addr 203 0 113 10"

definition simulate_nat :: "cksum_api \<Rightarrow> mbuf \<Rightarrow> mbuf" where
  "simulate_nat C m =
     (if rd16 m O_ETHER_TYPE \<noteq> bswap16 RTE_ETHER_TYPE_IPV4 then m
      else
        (let ip = ETHER_HDR;
             m1 = (if rd32 m (ip + O_SRC) = bswap32 PRIVATE_IP then wr32 m (ip + O_SRC) (bswap32 PUBLIC_IP) else m);
             m2 = (if rd32 m1 (ip + O_DST) = bswap32 PUBLIC_IP then wr32 m1 (ip + O_DST) (bswap32 PRIVATE_IP) else m1);
             m3 = wr16 m2 (ip + O_HDR_CKSUM) 0
         in wr16 m3 (ip + O_HDR_CKSUM) (rte_ipv4_cksum C m3 ip)))"

text \<open>One round of \<open>lcore_main\<close>; the number of packets sent is ignored.\<close>

definition sim_iter :: "cksum_api \<Rightarrow> (mbuf list \<Rightarrow> nat) \<Rightarrow> mbuf list \<Rightarrow> io" where
  "sim_iter C tx rx =
     (if rx = [] then \<lparr>sent = [], freed = []\<rparr>
      else (let bufs = map (simulate_nat C) rx in \<lparr>sent = take (tx bufs) bufs, freed = []\<rparr>))"

text \<open>Start-up: only the EAL and the pool are checked.\<close>

definition sim_main_start :: "unit prog" where
  "sim_main_start =
     must Rte_eal_init ''EAL init failed''
     (nonnull (Rte_pktmbuf_pool_create ''MBUF_POOL'' 8192 256) ''Cannot create mbuf pool'' (\<lambda>mp.
     call_p (Rte_eth_dev_configure 0 1 1) (\<lambda>_.
     call_p (Rte_eth_rx_queue_setup 0 0 1024 mp) (\<lambda>_.
     call_p (Rte_eth_tx_queue_setup 0 0 1024) (\<lambda>_.
     call_p (Rte_eth_dev_start 0) (\<lambda>_.
     call_p (Rte_eth_promiscuous_enable 0) (\<lambda>_. done_p ())))))))"

subsection \<open>Properties\<close>

lemma oc_fold_full_iff: "oc_fold n = 65535 \<longleftrightarrow> 0 < n \<and> n mod 65535 = 0"
proof
  assume f: "oc_fold n = 65535"
  have "oc_fold 0 = 0" by (simp add: oc_fold.simps [of 0])
  with f have "n \<noteq> 0" by (intro notI) simp
  with f oc_fold_mod [of n] show "0 < n \<and> n mod 65535 = 0" by simp
next
  assume "0 < n \<and> n mod 65535 = 0"
  then have "0 < oc_fold n" "oc_fold n mod 65535 = 0" by (simp_all add: oc_fold_pos oc_fold_mod)
  moreover have "oc_fold n \<le> 65535" using oc_fold_less [of n] by simp
  ultimately show "oc_fold n = 65535" by (metis dvd_imp_le le_antisym mod_0_imp_dvd)
qed

text \<open>The addresses after the rewriting, and that nothing else the L4 checksum covers changed.\<close>

definition addr_sum :: "mbuf \<Rightarrow> nat \<Rightarrow> nat" where
  "addr_sum m i = unat (rd16 m i) + unat (rd16 m (i + 2))"

lemma addr_sum_bytes:
  "addr_sum m i = unat (make16 (byte32 0 (rd32 m i)) (byte32 1 (rd32 m i))) +
     unat (make16 (byte32 2 (rd32 m i)) (byte32 3 (rd32 m i)))"
proof -
  have "rd16 m (i + 2) = make16 (rd8 m (i + 2)) (rd8 m (i + 3))"
    using rd16_bytes [of m "i + 2"] by (simp add: numeral_3_eq_3)
  then show ?thesis by (simp add: addr_sum_def rd16_bytes [of m i] rd32_bytes)
qed

lemma addr_sum_rd32: "rd32 m i = make32 a b c d \<Longrightarrow> addr_sum m i = unat (make16 a b) + unat (make16 c d)"
  by (simp add: addr_sum_bytes)

lemma priv_pub_bytes:
  "bswap32 PRIVATE_IP = make32 172 22 116 70" "bswap32 PUBLIC_IP = make32 203 0 113 10"
  by (simp_all add: PRIVATE_IP_def PUBLIC_IP_def bswap32_ipv4_addr)

lemma l4_sum:
  "sum_list (map unat (l4_words m 14 l4)) = addr_sum m 26 + addr_sum m 30 +
     (unat (make16 0 (rd8 m 23)) + unat (bswap16 (of_nat (l4_len m 14) :: u16)) + sum_list (map unat (words_at m l4 (l4_len m 14))))"
  by (simp add: l4_words_def pseudo_words_def addr_sum_def)

lemma sim_frame:
  assumes "34 \<le> i"
  shows "rd8 (simulate_nat C m) i = rd8 m i"
  using assms by (simp add: simulate_nat_def Let_def)

lemma sim_fields:
  "rd8 (simulate_nat C m) 23 = rd8 m 23" "rd16 (simulate_nat C m) 16 = rd16 m 16" "rd8 (simulate_nat C m) 14 = rd8 m 14"
  "mbuf_id (simulate_nat C m) = mbuf_id m"
  by (simp_all add: simulate_nat_def Let_def)

lemma sim_addrs:
  assumes "rd16 m O_ETHER_TYPE = bswap16 RTE_ETHER_TYPE_IPV4"
  shows "rd32 (simulate_nat C m) 26 = (if rd32 m 26 = bswap32 PRIVATE_IP then bswap32 PUBLIC_IP else rd32 m 26)"
    "rd32 (simulate_nat C m) 30 = (if rd32 m 30 = bswap32 PUBLIC_IP then bswap32 PRIVATE_IP else rd32 m 30)"
  using assms by (simp_all add: simulate_nat_def Let_def)

lemma sim_rest:
  assumes "34 \<le> l4"
  shows "words_at (simulate_nat C m) l4 n = words_at m l4 n" "l4_len (simulate_nat C m) 14 = l4_len m 14"
  using assms sim_frame sim_fields by (auto intro!: words_at_cong l4_len_cong)

lemma addr_sum_cong: "rd32 m i = rd32 m' i \<Longrightarrow> addr_sum m i = addr_sum m' i"
  by (simp add: addr_sum_bytes)

text \<open>Exchanging one address changes the sum by 20964, which is no multiple of 65535.\<close>

lemma shift_mod:
  "\<not> ((x + 23840) mod 65535 = 0 \<and> (x + 2876) mod 65535 = (0 :: nat))"
proof
  assume "(x + 23840) mod 65535 = 0 \<and> (x + 2876) mod 65535 = 0"
  then have "65535 dvd (x + 23840) - (x + 2876)" by (intro dvd_diff_nat mod_0_imp_dvd) simp_all
  then show False by simp
qed

lemma sim_l4:
  assumes "rd16 m O_ETHER_TYPE = bswap16 RTE_ETHER_TYPE_IPV4" and far: "34 \<le> l4" and valid: "l4_cksum_ok m ETHER_HDR l4"
  shows "l4_cksum_ok (simulate_nat C m) ETHER_HDR l4 =
    ((rd32 m 26 = bswap32 PRIVATE_IP) = (rd32 m 30 = bswap32 PUBLIC_IP))"
proof -
  let ?m = "simulate_nat C m" and ?p = "bswap32 PRIVATE_IP" and ?q = "bswap32 PUBLIC_IP"
  obtain r where s: "sum_list (map unat (l4_words m 14 l4)) = addr_sum m 26 + addr_sum m 30 + r"
    "sum_list (map unat (l4_words ?m 14 l4)) = addr_sum ?m 26 + addr_sum ?m 30 + r"
    unfolding l4_sum sim_rest [OF far] sim_fields by blast
  have src: "addr_sum m 26 = 23840 \<and> addr_sum ?m 26 = 2876" if "rd32 m 26 = ?p"
    using that sim_addrs(1) [OF assms(1), of C] addr_sum_rd32 [of m 26] addr_sum_rd32 [of ?m 26]
    by (simp add: priv_pub_bytes make16_def)
  have dst: "addr_sum m 30 = 2876 \<and> addr_sum ?m 30 = 23840" if "rd32 m 30 = ?q"
    using that sim_addrs(2) [OF assms(1), of C] addr_sum_rd32 [of m 30] addr_sum_rd32 [of ?m 30]
    by (simp add: priv_pub_bytes make16_def)
  have keep: "rd32 m 26 \<noteq> ?p \<Longrightarrow> addr_sum ?m 26 = addr_sum m 26" "rd32 m 30 \<noteq> ?q \<Longrightarrow> addr_sum ?m 30 = addr_sum m 30"
    using sim_addrs [OF assms(1), of C] by (auto intro: addr_sum_cong)
  have old: "(addr_sum m 26 + addr_sum m 30 + r) mod 65535 = 0" "0 < addr_sum m 26 + addr_sum m 30 + r"
    using valid s(1) by (simp_all add: l4_cksum_ok_def oc_fold_full_iff)
  have new: "l4_cksum_ok ?m 14 l4 \<longleftrightarrow> 0 < addr_sum ?m 26 + addr_sum ?m 30 + r \<and>
      (addr_sum ?m 26 + addr_sum ?m 30 + r) mod 65535 = 0"
    by (simp only: l4_cksum_ok_def oc_fold_full_iff s(2))
  consider "rd32 m 26 = ?p" "rd32 m 30 = ?q" | "rd32 m 26 = ?p" "rd32 m 30 \<noteq> ?q"
    | "rd32 m 26 \<noteq> ?p" "rd32 m 30 = ?q" | "rd32 m 26 \<noteq> ?p" "rd32 m 30 \<noteq> ?q" by blast
  then show ?thesis
  proof cases
    case 1
    with src dst old new show ?thesis by simp
  next
    case 2
    with src keep(2) old new shift_mod [of "addr_sum m 30 + r"] show ?thesis by (simp add: algebra_simps)
  next
    case 3
    with dst keep(1) old new shift_mod [of "addr_sum m 26 + r"] show ?thesis by (simp add: algebra_simps)
  next
    case 4
    with keep old new show ?thesis by simp
  qed
qed

text \<open>
  Address translation of the simulation: a private source becomes the public address, a
  public destination the private one, and the header checksum is right afterwards whatever it
  was before. The TCP or UDP checksum is not adjusted: a packet whose checksum was right
  arrives with a wrong one exactly when one of the two addresses was translated.
\<close>

lemma simulate_nat_correct:
  assumes "cksum_laws C" "rd16 m O_ETHER_TYPE = bswap16 RTE_ETHER_TYPE_IPV4" "5 \<le> ip_ihl m ETHER_HDR"
  shows "rd32 (simulate_nat C m) 26 = (if rd32 m 26 = bswap32 PRIVATE_IP then bswap32 PUBLIC_IP else rd32 m 26) \<and>
    rd32 (simulate_nat C m) 30 = (if rd32 m 30 = bswap32 PUBLIC_IP then bswap32 PRIVATE_IP else rd32 m 30) \<and>
    ipv4_cksum_ok (simulate_nat C m) ETHER_HDR \<and>
    (34 \<le> l4 \<and> l4_cksum_ok m ETHER_HDR l4 \<longrightarrow>
      l4_cksum_ok (simulate_nat C m) ETHER_HDR l4 = ((rd32 m 26 = bswap32 PRIVATE_IP) = (rd32 m 30 = bswap32 PUBLIC_IP)))"
proof -
  let ?m = "simulate_nat C m" and ?p = "bswap32 PRIVATE_IP" and ?q = "bswap32 PUBLIC_IP"
  have ck: "ipv4_cksum_ok ?m 14"
  proof -
    obtain m2 where e: "?m = wr16 (wr16 m2 24 0) 24 (rte_ipv4_cksum C (wr16 m2 24 0) 14)" "rd8 m2 14 = rd8 m 14"
      using assms(2) by (simp add: simulate_nat_def Let_def)
    have "ip_ihl (wr16 m2 24 0) 14 = ip_ihl m 14" by (rule ip_ihl_cong) (simp add: e(2))
    with ipv4_cksum_store [OF assms(1), of "wr16 m2 24 0" 14] assms(3) show ?thesis by (simp add: e(1))
  qed
  from sim_addrs [OF assms(2), of C] ck sim_l4 [OF assms(2)] show ?thesis by simp
qed

definition sim_pkt :: mbuf where
  "sim_pkt = udp_packet 0 0 0x9a 0xf5 [172,22,116,70] [8,8,8,8] [0x30,0x39] [0,53]"

end
