(* ===== verification/Pipeline.thy ===== *)
theory Pipeline
  imports Packet_Parsing Rte_Ring
begin

text \<open>
  The three-thread pipeline of \<open>thread_parsing/threaded_project\<close>: \<open>rx.c\<close> fills a ring,
  \<open>parser.c\<close> moves packets to a second ring, \<open>tx.c\<close> empties it. The threads run
  concurrently; the model interleaves their atomic actions: the test of \<open>force_quit\<close>, a
  receive or transmit burst, a ring operation.

  The fields \<open>received\<close>, \<open>tx_log\<close>, \<open>rx_lost\<close>, \<open>parser_freed\<close> and \<open>printed\<close> record
  what happened: packets taken from the NIC, packets that left the transmit thread (sent or
  freed, in order), packets the receive thread could not enqueue, packets the parser freed,
  and the output of \<open>parse_packet\<close>.
\<close>

datatype rx_pc = Rx_Test | Rx_Burst | Rx_Enq "mbuf list" | Rx_Check | Rx_Stop
datatype parser_pc = Pa_Test | Pa_Deq | Pa_Enq "mbuf list" | Pa_Stop
datatype tx_pc = Tx_Test | Tx_Deq | Tx_Send "mbuf list" | Tx_Stop

record 'r pipeline =
  force_quit :: bool
  rx_count :: u64
  parser_count :: u64
  tx_count :: u64
  ring_rx_to_parse :: 'r
  ring_parse_to_tx :: 'r
  rx_at :: rx_pc
  parser_at :: parser_pc
  tx_at :: tx_pc
  received :: "mbuf list"
  rx_lost :: "mbuf list"
  parser_freed :: "mbuf list"
  tx_log :: "(mbuf \<times> bool) list"
  printed :: "pline list"

definition pipeline_init :: "'r \<Rightarrow> 'r \<Rightarrow> 'r pipeline" where
  "pipeline_init r1 r2 = \<lparr>force_quit = False, rx_count = 0, parser_count = 0, tx_count = 0,
     ring_rx_to_parse = r1, ring_parse_to_tx = r2, rx_at = Rx_Test, parser_at = Pa_Test, tx_at = Tx_Test,
     received = [], rx_lost = [], parser_freed = [], tx_log = [], printed = []\<rparr>"

subsection \<open>rx.c\<close>

text \<open>\<open>ps\<close> is what \<open>rte_eth_rx_burst\<close> delivers.\<close>

definition rx_step :: "('r, mbuf) ring_api \<Rightarrow> mbuf list \<Rightarrow> 'r pipeline \<Rightarrow> 'r pipeline" where
  "rx_step R ps s =
     (case rx_at s of
        Rx_Test \<Rightarrow> s\<lparr>rx_at := if force_quit s then Rx_Stop else Rx_Burst\<rparr>
      | Rx_Burst \<Rightarrow> s\<lparr>rx_count := rx_count s + of_nat (length ps), received := received s @ ps, rx_at := Rx_Enq ps\<rparr>
      | Rx_Enq [] \<Rightarrow> s\<lparr>rx_at := Rx_Check\<rparr>
      | Rx_Enq (p # qs) \<Rightarrow>
          (case ring_enqueue R (ring_rx_to_parse s) p of (ret, r) \<Rightarrow>
             s\<lparr>ring_rx_to_parse := r, rx_lost := (if ret = 0 then rx_lost s else rx_lost s @ [p]), rx_at := Rx_Enq qs\<rparr>)
      | Rx_Check \<Rightarrow> if 10 \<le> rx_count s then s\<lparr>force_quit := True, rx_at := Rx_Stop\<rparr> else s\<lparr>rx_at := Rx_Test\<rparr>
      | Rx_Stop \<Rightarrow> s)"

subsection \<open>parser.c\<close>

definition parser_step :: "('r, mbuf) ring_api \<Rightarrow> 'r pipeline \<Rightarrow> 'r pipeline" where
  "parser_step R s =
     (case parser_at s of
        Pa_Test \<Rightarrow> s\<lparr>parser_at := if force_quit s then Pa_Stop else Pa_Deq\<rparr>
      | Pa_Deq \<Rightarrow>
          (case ring_dequeue_burst R (ring_rx_to_parse s) 32 of (pkts, r) \<Rightarrow>
             s\<lparr>ring_rx_to_parse := r, printed := printed s @ concat (map parse_packet pkts),
               parser_count := parser_count s + of_nat (length pkts),
               parser_at := if pkts = [] then Pa_Test else Pa_Enq pkts\<rparr>)
      | Pa_Enq pkts \<Rightarrow>
          (case ring_enqueue_burst R (ring_parse_to_tx s) pkts of (m, r) \<Rightarrow>
             s\<lparr>ring_parse_to_tx := r, parser_freed := parser_freed s @ free_range pkts m (length pkts), parser_at := Pa_Test\<rparr>)
      | Pa_Stop \<Rightarrow> s)"

subsection \<open>tx.c\<close>

definition tx_step :: "('r, mbuf) ring_api \<Rightarrow> (mbuf list \<Rightarrow> nat) \<Rightarrow> 'r pipeline \<Rightarrow> 'r pipeline" where
  "tx_step R tx s =
     (case tx_at s of
        Tx_Test \<Rightarrow> s\<lparr>tx_at := if force_quit s then Tx_Stop else Tx_Deq\<rparr>
      | Tx_Deq \<Rightarrow>
          (case ring_dequeue_burst R (ring_parse_to_tx s) 32 of (pkts, r) \<Rightarrow>
             s\<lparr>ring_parse_to_tx := r, tx_count := tx_count s + of_nat (length pkts),
               tx_at := if pkts = [] then Tx_Test else Tx_Send pkts\<rparr>)
      | Tx_Send pkts \<Rightarrow>
          (let n = tx pkts in
           s\<lparr>tx_log := tx_log s @ map (\<lambda>p. (p, True)) (take n pkts) @
               map (\<lambda>p. (p, False)) (free_range pkts n (length pkts)), tx_at := Tx_Test\<rparr>)
      | Tx_Stop \<Rightarrow> s)"

inductive pipeline_step :: "('r, mbuf) ring_api \<Rightarrow> 'r pipeline \<Rightarrow> 'r pipeline \<Rightarrow> bool" for R where
  rx: "length ps \<le> 32 \<Longrightarrow> pipeline_step R s (rx_step R ps s)"
| parser: "pipeline_step R s (parser_step R s)"
| tx: "tx_ok t \<Longrightarrow> pipeline_step R s (tx_step R t s)"

inductive_cases pipeline_stepE: "pipeline_step R s s'"

subsection \<open>main.c\<close>

definition pipeline_main_start :: "unit prog" where
  "pipeline_main_start =
     call_p Rte_eal_init (\<lambda>_.
     must (Rte_eth_dev_is_valid_port 0) ''Invalid port id''
     (call_p (Rte_eth_dev_info_get 0) (\<lambda>_.
     must (Rte_eth_dev_configure 0 1 1) ''Port configure failed''
     (nonnull (Rte_pktmbuf_pool_create ''MBUF_POOL'' 8192 256) ''MBUF pool create failed'' (\<lambda>mp.
     must (Rte_eth_rx_queue_setup 0 0 1024 mp) ''RX queue setup failed''
     (must (Rte_eth_tx_queue_setup 0 0 1024) ''TX queue setup failed''
     (must (Rte_eth_dev_start 0) ''Port start failed''
     (call_p (Rte_ring_create ''RING_RX_PARSE'' 1024) (\<lambda>a.
     call_p (Rte_ring_create ''RING_PARSE_TX'' 1024) (\<lambda>b.
       if a = 0 \<or> b = 0 then rte_exit ''Ring creation failed'' else done_p ()))))))))))"

subsection \<open>The invariant\<close>

definition rx_held :: "rx_pc \<Rightarrow> mbuf list" where
  "rx_held pc = (case pc of Rx_Enq ps \<Rightarrow> ps | _ \<Rightarrow> [])"

definition parser_held :: "parser_pc \<Rightarrow> mbuf list" where
  "parser_held pc = (case pc of Pa_Enq ps \<Rightarrow> ps | _ \<Rightarrow> [])"

definition tx_held :: "tx_pc \<Rightarrow> mbuf list" where
  "tx_held pc = (case pc of Tx_Send ps \<Rightarrow> ps | _ \<Rightarrow> [])"

text \<open>Everything that has passed the parser, oldest first, and everything after the NIC.\<close>

definition parsed :: "('r, mbuf) ring_api \<Rightarrow> 'r pipeline \<Rightarrow> mbuf list" where
  "parsed R s = map fst (tx_log s) @ tx_held (tx_at s) @ ring_items R (ring_parse_to_tx s) @ parser_held (parser_at s)"

definition in_order :: "('r, mbuf) ring_api \<Rightarrow> 'r pipeline \<Rightarrow> bool" where
  "in_order R s \<longleftrightarrow> received s = parsed R s @ ring_items R (ring_rx_to_parse s) @ rx_held (rx_at s)"

text \<open>
  The bound: the receive thread only asks for another burst while fewer than 10 packets have
  come in, so it never holds more than 9 + 32.
\<close>

definition rx_bound :: "'r pipeline \<Rightarrow> bool" where
  "rx_bound s \<longleftrightarrow> rx_count s = of_nat (length (received s)) \<and> length (received s) \<le> 41 \<and>
     (rx_at s \<in> {Rx_Test, Rx_Burst} \<longrightarrow> length (received s) < 10)"

definition pipeline_inv :: "('r, mbuf) ring_api \<Rightarrow> 'r pipeline \<Rightarrow> bool" where
  "pipeline_inv R s \<longleftrightarrow> in_order R s \<and> rx_bound s \<and> rx_lost s = [] \<and> parser_freed s = [] \<and>
     printed s = concat (map parse_packet (parsed R s)) \<and>
     41 \<le> ring_capacity R (ring_rx_to_parse s) \<and> 41 \<le> ring_capacity R (ring_parse_to_tx s)"

lemmas pl_defs = in_order_def parsed_def rx_held_def parser_held_def tx_held_def

lemma rx_inv:
  assumes "ring_laws R" "pipeline_inv R s" "length ps \<le> 32"
  shows "pipeline_inv R (rx_step R ps s)"
proof (cases "rx_at s")
  case (Rx_Enq qs)
  show ?thesis
  proof (cases qs)
    case (Cons p t)
    obtain ret r where e: "ring_enqueue R (ring_rx_to_parse s) p = (ret, r)" by fastforce
    have "length (ring_items R (ring_rx_to_parse s)) < ring_capacity R (ring_rx_to_parse s)"
      using assms(2) Rx_Enq Cons by (auto simp: pipeline_inv_def rx_bound_def pl_defs)
    with rte_ring.enq_fits [OF assms(1), of "ring_rx_to_parse s" p "ret = 0" r] e
    have "ret = 0" "ring_items R r = ring_items R (ring_rx_to_parse s) @ [p]"
      "ring_capacity R r = ring_capacity R (ring_rx_to_parse s)" by auto
    with assms(2) Rx_Enq Cons e show ?thesis
      by (auto simp: rx_step_def pipeline_inv_def rx_bound_def pl_defs)
  qed (use assms(2) Rx_Enq in \<open>auto simp: rx_step_def pipeline_inv_def rx_bound_def pl_defs\<close>)
next
  case Rx_Check
  have "length (received s) < 10" if "\<not> 10 \<le> rx_count s"
  proof -
    have "length (received s) < 2 ^ 64" using assms(2) by (simp add: pipeline_inv_def rx_bound_def)
    then have "unat (rx_count s) = length (received s)"
      using assms(2) by (simp add: pipeline_inv_def rx_bound_def unat_of_nat take_bit_nat_eq_self)
    with that show ?thesis by (simp add: word_le_nat_alt)
  qed
  with assms(2) Rx_Check show ?thesis
    by (auto simp: rx_step_def pipeline_inv_def rx_bound_def pl_defs)
qed (use assms(2,3) in \<open>auto simp: rx_step_def pipeline_inv_def rx_bound_def pl_defs\<close>)

lemma parser_inv:
  assumes "ring_laws R" "pipeline_inv R s"
  shows "pipeline_inv R (parser_step R s)"
proof (cases "parser_at s")
  case Pa_Deq
  obtain xs r where e: "ring_dequeue_burst R (ring_rx_to_parse s) 32 = (xs, r)" by fastforce
  have "xs @ ring_items R r = ring_items R (ring_rx_to_parse s)"
    "ring_capacity R r = ring_capacity R (ring_rx_to_parse s)"
    using rte_ring.deq_front [OF assms(1) e] rte_ring.cap_deq [OF assms(1), of "ring_rx_to_parse s" 32] e by simp_all
  with assms(2) Pa_Deq e show ?thesis
    by (auto simp: parser_step_def pipeline_inv_def rx_bound_def pl_defs)
next
  case (Pa_Enq xs)
  obtain n r where e: "ring_enqueue_burst R (ring_parse_to_tx s) xs = (n, r)" by fastforce
  have "length (ring_items R (ring_parse_to_tx s)) + length xs \<le> ring_capacity R (ring_parse_to_tx s)"
    using assms(2) Pa_Enq by (auto simp: pipeline_inv_def rx_bound_def pl_defs)
  with rte_ring.enqs_fits [OF assms(1) _ e]
  have "n = length xs" "ring_items R r = ring_items R (ring_parse_to_tx s) @ xs"
    "ring_capacity R r = ring_capacity R (ring_parse_to_tx s)" by auto
  with assms(2) Pa_Enq e show ?thesis
    by (auto simp: parser_step_def pipeline_inv_def rx_bound_def pl_defs free_range_drop)
qed (use assms(2) in \<open>auto simp: parser_step_def pipeline_inv_def rx_bound_def pl_defs\<close>)

lemma tx_inv:
  assumes "ring_laws R" "pipeline_inv R s" "tx_ok t"
  shows "pipeline_inv R (tx_step R t s)"
proof (cases "tx_at s")
  case Tx_Deq
  obtain xs r where e: "ring_dequeue_burst R (ring_parse_to_tx s) 32 = (xs, r)" by fastforce
  have "ring_items R (ring_parse_to_tx s) = xs @ ring_items R r"
    "ring_capacity R r = ring_capacity R (ring_parse_to_tx s)"
    using rte_ring.deq_front [OF assms(1) e] rte_ring.cap_deq [OF assms(1), of "ring_parse_to_tx s" 32] e by simp_all
  with assms(2) Tx_Deq e show ?thesis
    by (auto simp: tx_step_def pipeline_inv_def rx_bound_def pl_defs)
next
  case (Tx_Send xs)
  let ?l = "map (\<lambda>p. (p, True)) (take (t xs) xs) @ map (\<lambda>p. (p, False)) (free_range xs (t xs) (length xs))"
  have "map fst ?l = xs" by (simp add: free_range_drop comp_def)
  moreover have "tx_step R t s = s\<lparr>tx_log := tx_log s @ ?l, tx_at := Tx_Test\<rparr>"
    by (simp add: tx_step_def Tx_Send Let_def)
  ultimately obtain l where l: "tx_step R t s = s\<lparr>tx_log := tx_log s @ l, tx_at := Tx_Test\<rparr>" "map fst l = xs" by blast
  then have "map (parse_packet \<circ> fst) l = map parse_packet xs" by (metis map_map)
  with assms(2) Tx_Send l show ?thesis
    by (auto simp: pipeline_inv_def rx_bound_def pl_defs)
qed (use assms(2) in \<open>auto simp: tx_step_def pipeline_inv_def rx_bound_def pl_defs\<close>)

lemma pipeline_invariant:
  assumes "ring_laws R" "(pipeline_step R)\<^sup>*\<^sup>* s s'" "pipeline_inv R s"
  shows "pipeline_inv R s'"
  using assms(2,3)
proof (induction rule: rtranclp_induct)
  case (step y z)
  then have "pipeline_inv R y" by blast
  with step.hyps(2) show ?case
    by (elim pipeline_stepE) (simp_all add: rx_inv parser_inv tx_inv assms(1))
qed

text \<open>
  C36. The pipeline is a lossless FIFO under every interleaving of its three threads: the
  receive thread stops after 10 packets or more, so at most 41 are ever in flight, no ring
  overflows although the result of \<open>rte_ring_enqueue\<close> is ignored, nothing is lost or freed
  on the way, packets reach the transmit thread in the order they were received, and what was
  printed is the dissection of exactly the packets that passed the parser, in order.
\<close>

theorem pipeline_fifo:
  assumes "ring_laws R" "ring_items R r1 = []" "ring_items R r2 = []"
    "ring_capacity R r1 = 1023" "ring_capacity R r2 = 1023" "(pipeline_step R)\<^sup>*\<^sup>* (pipeline_init r1 r2) s"
  shows "rx_lost s = [] \<and> parser_freed s = [] \<and> length (received s) \<le> 41 \<and>
    unat (rx_count s) = length (received s) \<and>
    received s = parsed R s @ ring_items R (ring_rx_to_parse s) @ rx_held (rx_at s) \<and>
    printed s = concat (map parse_packet (parsed R s)) \<and>
    (\<exists>rest. received s = map fst (tx_log s) @ rest)"
proof -
  have "pipeline_inv R (pipeline_init r1 r2)"
    using assms(2-5) by (simp add: pipeline_inv_def pipeline_init_def rx_bound_def pl_defs)
  from pipeline_invariant [OF assms(1,6) this] have i: "pipeline_inv R s" .
  then have "unat (rx_count s) = length (received s)"
    by (simp add: pipeline_inv_def rx_bound_def unat_of_nat take_bit_nat_eq_self)
  with i show ?thesis by (auto simp: pipeline_inv_def rx_bound_def in_order_def parsed_def)
qed

text \<open>Reachability of the next state of each thread.\<close>

lemma pipeline_reach:
  assumes "(pipeline_step R)\<^sup>*\<^sup>* s0 s"
  shows "length ps \<le> 32 \<Longrightarrow> (pipeline_step R)\<^sup>*\<^sup>* s0 (rx_step R ps s)" "(pipeline_step R)\<^sup>*\<^sup>* s0 (parser_step R s)"
    "tx_ok t \<Longrightarrow> (pipeline_step R)\<^sup>*\<^sup>* s0 (tx_step R t s)"
  using assms by (auto intro: rtranclp.rtrancl_into_rtrancl pipeline_step.intros)

text \<open>One packet through the whole pipeline.\<close>

definition rx_run :: "mbuf \<Rightarrow> mbuf list pipeline" where
  "rx_run p = rx_step (ref_ring 1023) [] (rx_step (ref_ring 1023) [] (rx_step (ref_ring 1023) [p]
     (rx_step (ref_ring 1023) [] (pipeline_init [] []))))"

definition parser_run :: "mbuf \<Rightarrow> mbuf list pipeline" where
  "parser_run p = parser_step (ref_ring 1023) (parser_step (ref_ring 1023) (parser_step (ref_ring 1023) (rx_run p)))"

definition tx_run :: "mbuf \<Rightarrow> mbuf list pipeline" where
  "tx_run p = tx_step (ref_ring 1023) length (tx_step (ref_ring 1023) length (tx_step (ref_ring 1023) length (parser_run p)))"

lemma tx_run_reachable: "(pipeline_step (ref_ring 1023))\<^sup>*\<^sup>* (pipeline_init [] []) (tx_run p)"
  unfolding rx_run_def parser_run_def tx_run_def by (intro pipeline_reach) (simp_all add: tx_ok_def)

lemma rx_run_eq: "rx_run p = (pipeline_init [] [])\<lparr>rx_count := 1, ring_rx_to_parse := [p], rx_at := Rx_Check, received := [p]\<rparr>"
  by (simp add: rx_run_def rx_step_def ref_ring_def pipeline_init_def)

lemma parser_run_eq: "parser_run p = (rx_run p)\<lparr>ring_rx_to_parse := [], ring_parse_to_tx := [p], parser_count := 1, printed := parse_packet p\<rparr>"
  by (simp add: parser_run_def parser_step_def ref_ring_def rx_run_eq pipeline_init_def free_range_drop Let_def)

lemma tx_run_eq: "tx_run p = (parser_run p)\<lparr>ring_parse_to_tx := [], tx_count := 1, tx_log := [(p, True)]\<rparr>"
  by (simp add: tx_run_def tx_step_def ref_ring_def parser_run_eq rx_run_eq pipeline_init_def free_range_drop)

theorem pipeline_fifo_witness:
  "tx_log (tx_run tagged_icmp) = [(tagged_icmp, True)] \<and> received (tx_run tagged_icmp) = [tagged_icmp] \<and>
   rx_lost (tx_run tagged_icmp) = [] \<and>
   printed (tx_run tagged_icmp) = concat (map parse_packet (parsed (ref_ring 1023) (tx_run tagged_icmp)))"
proof -
  have e: "ring_items (ref_ring 1023) [] = []" "ring_capacity (ref_ring 1023) [] = 1023" by (simp_all add: ref_ring_def)
  have "tx_log (tx_run tagged_icmp) = [(tagged_icmp, True)]" "received (tx_run tagged_icmp) = [tagged_icmp]"
    by (simp_all add: tx_run_eq parser_run_eq rx_run_eq)
  with pipeline_fifo [OF ref_ring_laws e(1) e(1) e(2) e(2) tx_run_reachable [of tagged_icmp]]
  show ?thesis by argo
qed

end
