(* ===== verification/Metering.thy ===== *)
theory Metering
  imports Startup Burst
begin

text \<open>
  \<open>meter_dpdk/main.c\<close>: a two-rate three-colour meter (RFC 2698) attached to a flow. The
  metering itself is done by the device; the program sets up the profile, the policy, the
  meter and the flow, and frees what arrives.
\<close>

datatype color = GREEN | YELLOW | RED
datatype flow_action = ACTION_END | ACTION_DROP | ACTION_METER nat
datatype flow_item = ITEM_ETH | ITEM_IPV4 | ITEM_END

record meter_profile =
  cir :: u64
  pir :: u64
  cbs :: u64
  pbs :: u64

definition profile :: meter_profile where
  "profile = \<lparr>cir = 10 * 1000 * 1000, pir = 20 * 1000 * 1000, cbs = 64 * 1024, pbs = 128 * 1024\<rparr>"

fun policy_actions :: "color \<Rightarrow> flow_action list" where
  "policy_actions GREEN = [ACTION_END]"
| "policy_actions YELLOW = [ACTION_END]"
| "policy_actions RED = [ACTION_DROP, ACTION_END]"

text \<open>The flow: what it matches and what is done with a match.\<close>

definition flow_pattern :: "flow_item list" where
  "flow_pattern = [ITEM_ETH, ITEM_IPV4, ITEM_END]"

definition flow_actions :: "nat \<Rightarrow> flow_action list" where
  "flow_actions mtr_id = [ACTION_METER mtr_id, ACTION_END]"

definition meter_port :: "unit prog" where
  "meter_port =
     must Rte_eal_init ''EAL init failed''
     (nonnull (Rte_pktmbuf_pool_create ''MBUF_POOL'' 8192 250) ''mbuf pool create failed'' (\<lambda>mp.
     must (Rte_eth_dev_configure 0 1 1) ''port configure failed''
     (must (Rte_eth_rx_queue_setup 0 0 1024 mp) ''RX queue setup failed''
     (must (Rte_eth_tx_queue_setup 0 0 1024) ''RX queue setup failed''
     (must (Rte_eth_dev_start 0) ''port start failed'' (done_p ()))))))"

definition meter_flow :: "unit prog" where
  "meter_flow =
     must (Rte_mtr_meter_profile_add 0 1) ''profile add failed''
     (must (Rte_mtr_meter_policy_add 0 1) ''policy add failed''
     (must (Rte_mtr_create 0 1 1 1) ''meter create failed''
     (nonnull (Rte_flow_create 0 1) ''flow create failed'' (\<lambda>_. done_p ()))))"

definition meter_main_start :: "unit prog" where
  "meter_main_start = bind_p meter_port (\<lambda>_. meter_flow)"

lemmas meter_start_defs = meter_main_start_def meter_port_def meter_flow_def

definition meter_burst :: "mbuf list \<Rightarrow> mbuf list" where
  "meter_burst rx = (if rx = [] then [] else free_range rx 0 (length rx))"

text \<open>An action list as the flow API reads it: up to the end marker.\<close>

definition effective :: "flow_action list \<Rightarrow> flow_action list" where
  "effective as = takeWhile (\<lambda>a. a \<noteq> ACTION_END) as"

lemma policy_drops_red: "(ACTION_DROP \<in> set (effective (policy_actions c))) = (c = RED)"
  by (cases c) (simp_all add: effective_def)

text \<open>The conditions of RFC 2698: peak rate at least the committed rate, bursts positive.\<close>

lemma profile_rfc2698: "cir profile \<le> pir profile" "0 < cbs profile" "0 < pbs profile"
  by (simp_all add: profile_def)

lemma meter_burst_frees: "meter_burst rx = rx"
  by (simp add: meter_burst_def free_range_drop)

text \<open>
  If the program reaches its receive loop then the profile, the policy and the meter (made of
  exactly that profile and policy) were accepted in that order before the flow that refers
  to the meter was created.
\<close>

lemma meter_setup_ordered:
  assumes "meter_main_start E [] = (Done (), tr)"
  shows "ok_at E tr 6 (Rte_mtr_meter_profile_add 0 1)" "ok_at E tr 7 (Rte_mtr_meter_policy_add 0 1)"
    "ok_at E tr 8 (Rte_mtr_create 0 1 1 1)" "tr ! 9 = Rte_flow_create 0 1" "E (take 9 tr) (Rte_flow_create 0 1) \<noteq> 0"
  using assms by (auto simp: meter_start_defs monitor_simps ok_at_def split: if_splits)

lemma meter_starts: "starts_port (\<lambda>_. True) meter_main_start 0"
  by (rule starts_portI [where E = ok_env]) (auto simp: meter_start_defs monitor_simps ok_env_def split: if_splits)

end
