(* ===== verification/Rte_Graph.thy ===== *)
theory Rte_Graph
  imports Burst
begin

text \<open>
  What the graph programs use of \<open>rte_graph\<close>. A node is a function that is given the packets
  pending at it and passes them on over its numbered edges (\<open>rte_node_enqueue\<close>), hands them
  to the NIC, frees them, or forgets them (\<open>lost\<close>: neither). A walk runs nodes that have
  packets pending, each on all of its packets, until none has; the library fixes the order,
  which is left open here, so every statement holds for any order. \<open>vars\<close> are the global
  variables of the program, \<open>other\<close> what other threads may do to them between two nodes.
  A node may run into undefined behaviour (\<open>None\<close>), for instance on more packets than its
  arrays hold.

  The locale \<open>graph_nodes\<close> is the contract of a set of nodes: on at most \<open>cap\<close> packets each
  returns, accounts for every packet, and enqueues only to nodes of lower rank. Then a walk
  never fails, ends, and no packet is duplicated or made up. \<open>graph_flow\<close> adds which
  packets may be at which node.
\<close>

record node_out =
  enq :: "(nat \<times> mbuf list) list"
  n_sent :: "mbuf list"
  n_freed :: "mbuf list"
  n_lost :: "mbuf list"

record ('s, 'n) graph =
  next_node :: "'n \<Rightarrow> nat \<Rightarrow> 'n option"
  process :: "'s \<Rightarrow> 'n \<Rightarrow> mbuf list \<Rightarrow> ('s \<times> node_out) option"
  other :: "'s \<Rightarrow> 's \<Rightarrow> bool"

record ('s, 'n) walk_state =
  vars :: 's
  pend :: "'n \<Rightarrow> mbuf list"
  w_sent :: "mbuf list"
  w_freed :: "mbuf list"
  w_lost :: "mbuf list"

fun deliver :: "(nat \<Rightarrow> 'n option) \<Rightarrow> (nat \<times> mbuf list) list \<Rightarrow> ('n \<Rightarrow> mbuf list) \<Rightarrow> ('n \<Rightarrow> mbuf list) option" where
  "deliver nx [] p = Some p"
| "deliver nx ((e, ps) # es) p = (case nx e of None \<Rightarrow> None | Some n \<Rightarrow> deliver nx es (p(n := p n @ ps)))"

definition run_node :: "('s, 'n) graph \<Rightarrow> 'n \<Rightarrow> ('s, 'n) walk_state \<Rightarrow> ('s, 'n) walk_state option" where
  "run_node G n st =
     (case process G (vars st) n (pend st n) of None \<Rightarrow> None
      | Some (s, r) \<Rightarrow>
          (case deliver (next_node G n) (enq r) ((pend st)(n := [])) of None \<Rightarrow> None
           | Some p \<Rightarrow> Some \<lparr>vars = s, pend = p, w_sent = w_sent st @ n_sent r,
                       w_freed = w_freed st @ n_freed r, w_lost = w_lost st @ n_lost r\<rparr>))"

text \<open>\<open>walk G st k st'\<close>: from \<open>st\<close>, running \<open>k\<close> nodes, with other threads in between.\<close>

inductive walk :: "('s, 'n) graph \<Rightarrow> ('s, 'n) walk_state \<Rightarrow> nat \<Rightarrow> ('s, 'n) walk_state \<Rightarrow> bool"
  for G :: "('s, 'n) graph" and st :: "('s, 'n) walk_state" where
  start: "walk G st 0 st"
| node: "walk G st k st1 \<Longrightarrow> pend st1 n \<noteq> [] \<Longrightarrow> run_node G n st1 = Some st2 \<Longrightarrow> walk G st (Suc k) st2"
| thread: "walk G st k st1 \<Longrightarrow> other G (vars st1) s \<Longrightarrow> walk G st k (st1\<lparr>vars := s\<rparr>)"

inductive_cases walk_SucE: "walk G st (Suc k) st'"

definition walk_done :: "('s, 'n) walk_state \<Rightarrow> bool" where
  "walk_done st \<longleftrightarrow> pend st = (\<lambda>_. [])"

lemma walk_trans: "walk G st1 k2 st2 \<Longrightarrow> walk G st k1 st1 \<Longrightarrow> walk G st (k1 + k2) st2"
  by (induction rule: walk.induct) (auto intro: walk.intros)

abbreviation ids :: "mbuf list \<Rightarrow> nat multiset" where
  "ids ps \<equiv> mset (map mbuf_id ps)"

definition pending :: "('n :: finite \<Rightarrow> mbuf list) \<Rightarrow> nat multiset" where
  "pending p = (\<Sum>n\<in>UNIV. ids (p n))"

definition all_ids :: "('s, 'n :: finite) walk_state \<Rightarrow> nat multiset" where
  "all_ids st = pending (pend st) + ids (w_sent st) + ids (w_freed st) + ids (w_lost st)"

definition weight :: "('n \<Rightarrow> nat) \<Rightarrow> ('n :: finite \<Rightarrow> mbuf list) \<Rightarrow> nat" where
  "weight rank p = (\<Sum>n\<in>UNIV. length (p n) * Suc (rank n))"

lemma pending_append: "pending (p(n := p n @ ps)) = pending p + ids ps"
proof -
  have "(\<Sum>m\<in>UNIV. ids ((p(n := p n @ ps)) m)) = (\<Sum>m\<in>UNIV. ids (p m) + (if m = n then ids ps else {#}))"
    by (rule sum.cong) auto
  then show ?thesis by (simp add: pending_def sum.distrib)
qed

lemma pending_take: "pending p = pending (p(n := [])) + ids (p n)"
  using pending_append [of "p(n := [])" n "p n"] by simp

lemma weight_append: "weight rank (p(n := p n @ ps)) = weight rank p + length ps * Suc (rank n)"
proof -
  have "(\<Sum>m\<in>UNIV. length ((p(n := p n @ ps)) m) * Suc (rank m)) =
      (\<Sum>m\<in>UNIV. length (p m) * Suc (rank m) + (if m = n then length ps * Suc (rank n) else 0))"
    by (rule sum.cong) (auto simp: algebra_simps)
  then show ?thesis by (simp add: weight_def sum.distrib)
qed

lemma weight_take: "weight rank p = weight rank (p(n := [])) + length (p n) * Suc (rank n)"
  using weight_append [of rank "p(n := [])" n "p n"] by simp

lemma deliver_pending:
  "deliver nx es p = Some p' \<Longrightarrow> pending p' = pending p + ids (concat (map snd es))"
proof (induction nx es p rule: deliver.induct)
  case (2 nx e ps es p)
  then obtain n where "nx e = Some n" "deliver nx es (p(n := p n @ ps)) = Some p'" by (auto split: option.splits)
  from "2.IH" [OF this] show ?case unfolding pending_append by (simp add: ac_simps)
qed simp

lemma deliver_weight:
  assumes "deliver nx es p = Some p'" "\<And>e ps. (e, ps) \<in> set es \<Longrightarrow> \<exists>n. nx e = Some n \<and> rank n < k"
  shows "weight rank p' \<le> weight rank p + length (concat (map snd es)) * k"
  using assms
proof (induction nx es p rule: deliver.induct)
  case (2 nx e ps es p)
  then obtain n where n: "nx e = Some n" "rank n < k" by (metis list.set_intros(1))
  with "2.prems"(1) have d: "deliver nx es (p(n := p n @ ps)) = Some p'" by simp
  have "weight rank p' \<le> weight rank (p(n := p n @ ps)) + length (concat (map snd es)) * k"
    using "2.IH" [OF n(1) d] "2.prems"(2) by (meson list.set_intros(2))
  moreover have "length ps * Suc (rank n) \<le> length ps * k" using n(2) by (intro mult_le_mono) auto
  ultimately show ?case by (simp add: weight_append algebra_simps)
qed simp

lemma deliver_Some:
  "(\<And>x. x \<in> set es \<Longrightarrow> nx (fst x) \<noteq> None) \<Longrightarrow> deliver nx es p \<noteq> None"
proof (induction es arbitrary: p)
  case (Cons x es)
  obtain e ps where x: "x = (e, ps)" by (cases x)
  have "nx e \<noteq> None" using Cons.prems [of x] by (simp add: x)
  then obtain n where n: "nx e = Some n" by auto
  have "deliver nx es (p(n := p n @ ps)) \<noteq> None" by (rule Cons.IH) (use Cons.prems in auto)
  then show ?case unfolding x deliver.simps n option.case .
qed simp

lemma deliver_mem:
  "deliver nx es p = Some p' \<Longrightarrow> m \<in> set (p' n) \<Longrightarrow>
   m \<in> set (p n) \<or> (\<exists>e ps. (e, ps) \<in> set es \<and> nx e = Some n \<and> m \<in> set ps)"
proof (induction nx es p rule: deliver.induct)
  case (2 nx e ps es p)
  then obtain n0 where n0: "nx e = Some n0" "deliver nx es (p(n0 := p n0 @ ps)) = Some p'" by (auto split: option.splits)
  from "2.IH" [OF n0 "2.prems"(2)] n0(1) show ?case by (auto split: if_splits)
qed simp

subsection \<open>The contract\<close>

locale graph_nodes =
  fixes G :: "('s, 'n :: finite) graph" and rank :: "'n \<Rightarrow> nat" and cap :: nat
  assumes accounts: "ps \<noteq> [] \<Longrightarrow> length ps \<le> cap \<Longrightarrow>
      \<exists>s' r. process G s n ps = Some (s', r) \<and>
        ids (concat (map snd (enq r))) + ids (n_sent r) + ids (n_freed r) + ids (n_lost r) = ids ps"
    and descends: "ps \<noteq> [] \<Longrightarrow> length ps \<le> cap \<Longrightarrow> process G s n ps = Some (s', r) \<Longrightarrow> (e, qs) \<in> set (enq r) \<Longrightarrow>
      \<exists>n'. next_node G n e = Some n' \<and> rank n' < rank n"
begin

lemma length_pend: "length (p n) \<le> size (pending p)"
  using pending_take [of p n] by (metis le_add2 length_map size_mset size_union)

lemma node_step:
  assumes "pend st n \<noteq> []" "size (all_ids st) \<le> cap"
  shows "\<exists>st'. run_node G n st = Some st' \<and> all_ids st' = all_ids st \<and>
    weight rank (pend st') < weight rank (pend st)"
proof -
  let ?ps = "pend st n"
  have len: "length ?ps \<le> cap" using length_pend [of "pend st" n] assms(2) by (simp add: all_ids_def)
  obtain s' r where r: "process G (vars st) n ?ps = Some (s', r)"
    "ids (concat (map snd (enq r))) + ids (n_sent r) + ids (n_freed r) + ids (n_lost r) = ids ?ps"
    using accounts [OF assms(1) len] by blast
  note lower = descends [OF assms(1) len r(1)]
  have "deliver (next_node G n) (enq r) ((pend st)(n := [])) \<noteq> None"
    using lower by (intro deliver_Some) force
  then obtain p where p: "deliver (next_node G n) (enq r) ((pend st)(n := [])) = Some p" by auto
  let ?st = "\<lparr>vars = s', pend = p, w_sent = w_sent st @ n_sent r, w_freed = w_freed st @ n_freed r,
      w_lost = w_lost st @ n_lost r\<rparr>"
  have "all_ids ?st = all_ids st"
    using r(2) [symmetric] by (simp add: all_ids_def deliver_pending [OF p] pending_take [of "pend st" n] ac_simps)
  moreover have "weight rank p < weight rank (pend st)"
  proof -
    have "length (concat (map snd (enq r))) \<le> length ?ps"
      using arg_cong [OF r(2), of size] by (simp only: size_union size_mset length_map)
    then have "length (concat (map snd (enq r))) * rank n < length ?ps * Suc (rank n)"
      using assms(1) by (metis add_strict_increasing length_greater_0_conv mult_Suc_right mult_le_mono1)
    moreover have "weight rank p \<le> weight rank ((pend st)(n := [])) + length (concat (map snd (enq r))) * rank n"
      by (rule deliver_weight [OF p]) (rule lower)
    ultimately show ?thesis by (simp add: weight_take [of rank "pend st" n])
  qed
  ultimately show ?thesis using r(1) p by (simp add: run_node_def)
qed

lemma walk_conserves:
  assumes "walk G st k st'" "size (all_ids st) \<le> cap"
  shows "all_ids st' = all_ids st" "k + weight rank (pend st') \<le> weight rank (pend st)"
proof -
  have "all_ids st' = all_ids st \<and> k + weight rank (pend st') \<le> weight rank (pend st)"
    using assms
  proof (induction rule: walk.induct)
    case (node k st1 n st2)
    then show ?case using node_step [of st1 n] by fastforce
  qed (auto simp: all_ids_def)
  then show "all_ids st' = all_ids st" "k + weight rank (pend st') \<le> weight rank (pend st)" by blast+
qed

lemma walk_progress:
  assumes "walk G st k st'" "size (all_ids st) \<le> cap" "pend st' n \<noteq> []"
  shows "run_node G n st' \<noteq> None"
  using node_step [OF assms(3)] walk_conserves(1) [OF assms(1,2)] assms(2) by auto

lemma walk_completes:
  assumes "size (all_ids st) \<le> cap"
  shows "\<exists>k st'. walk G st k st' \<and> walk_done st'"
  using assms
proof (induction "weight rank (pend st)" arbitrary: st rule: less_induct)
  case less
  show ?case
  proof (cases "walk_done st")
    case True
    then show ?thesis using walk.start by blast
  next
    case False
    then obtain n where n: "pend st n \<noteq> []" by (auto simp: walk_done_def)
    from node_step [OF n less.prems] obtain st1 where
      st1: "run_node G n st = Some st1" "all_ids st1 = all_ids st" "weight rank (pend st1) < weight rank (pend st)" by blast
    with less.hyps [of st1] less.prems obtain k st' where "walk G st1 k st'" "walk_done st'" by auto
    moreover have "walk G st 1 st1" using walk.node [OF walk.start n st1(1)] by simp
    ultimately show ?thesis using walk_trans by blast
  qed
qed

lemma done_accounted:
  assumes "walk G st k st'" "size (all_ids st) \<le> cap" "walk_done st'"
  shows "ids (w_sent st') + ids (w_freed st') + ids (w_lost st') = all_ids st"
  using walk_conserves(1) [OF assms(1,2)] assms(3) by (simp add: all_ids_def pending_def walk_done_def)

end

text \<open>
  Which packets may be at which node, and what may become of them, as long as the variables
  satisfy \<open>good\<close>.
\<close>

locale graph_flow = graph_nodes G rank cap
  for G :: "('s, 'n :: finite) graph" and rank :: "'n \<Rightarrow> nat" and cap :: nat +
  fixes good :: "'s \<Rightarrow> bool" and at :: "'n \<Rightarrow> mbuf \<Rightarrow> bool" and sendable freeable losable :: "mbuf \<Rightarrow> bool"
  assumes routes: "process G s n ps = Some (s', r) \<Longrightarrow> good s \<Longrightarrow> (\<forall>m\<in>set ps. at n m) \<Longrightarrow>
      (\<forall>e qs n'. (e, qs) \<in> set (enq r) \<longrightarrow> next_node G n e = Some n' \<longrightarrow> (\<forall>m\<in>set qs. at n' m)) \<and>
      (\<forall>m\<in>set (n_sent r). sendable m) \<and> (\<forall>m\<in>set (n_freed r). freeable m) \<and> (\<forall>m\<in>set (n_lost r). losable m)"
    and good_node: "process G s n ps = Some (s', r) \<Longrightarrow> good s \<Longrightarrow> good s'"
    and good_other: "other G s s' \<Longrightarrow> good s \<Longrightarrow> good s'"
begin

definition placed :: "('s, 'n) walk_state \<Rightarrow> bool" where
  "placed st \<longleftrightarrow> good (vars st) \<and> (\<forall>n. \<forall>m\<in>set (pend st n). at n m) \<and> (\<forall>m\<in>set (w_sent st). sendable m) \<and>
     (\<forall>m\<in>set (w_freed st). freeable m) \<and> (\<forall>m\<in>set (w_lost st). losable m)"

lemma placed_run:
  assumes "placed st" "run_node G n st = Some st'"
  shows "placed st'"
proof -
  from assms(2) obtain s r p where r: "process G (vars st) n (pend st n) = Some (s, r)"
    and p: "deliver (next_node G n) (enq r) ((pend st)(n := [])) = Some p"
    and st': "st' = \<lparr>vars = s, pend = p, w_sent = w_sent st @ n_sent r, w_freed = w_freed st @ n_freed r,
      w_lost = w_lost st @ n_lost r\<rparr>"
    by (auto simp: run_node_def split: option.splits prod.splits)
  have rt: "(\<forall>e qs n'. (e, qs) \<in> set (enq r) \<longrightarrow> next_node G n e = Some n' \<longrightarrow> (\<forall>m\<in>set qs. at n' m)) \<and>
      (\<forall>m\<in>set (n_sent r). sendable m) \<and> (\<forall>m\<in>set (n_freed r). freeable m) \<and> (\<forall>m\<in>set (n_lost r). losable m)"
    using routes [OF r] assms(1) by (auto simp: placed_def)
  have "at n' m" if "m \<in> set (p n')" for n' m
    using deliver_mem [OF p that] rt assms(1) by (auto simp: placed_def split: if_splits)
  moreover have "good s" using good_node [OF r] assms(1) by (simp add: placed_def)
  ultimately show ?thesis using rt assms(1) by (auto simp: placed_def st')
qed

lemma placed_walk: "walk G st k st' \<Longrightarrow> placed st \<Longrightarrow> placed st'"
proof (induction rule: walk.induct)
  case (thread k st1 s)
  then have "placed st1" by simp
  then show ?case using good_other [OF thread.hyps(2)] by (simp add: placed_def)
qed (auto intro: placed_run)

end

end
