(* ===== verification/Graph_Pipeline.thy ===== *)
theory Graph_Pipeline
  imports Rte_Graph Startup Samples
begin

text \<open>
  Two graph programs: \<open>graph/pipeline/pipeline.c\<close> (receive, split by Ethernet type, transmit
  IPv4 and IPv6, drop the rest) and \<open>graph/rx_drop_sample/sample/main.c\<close> (transmit IPv4, drop
  the rest). The source node is given the burst it reads from the NIC.
\<close>

datatype gp_node = Gp_rx | Gp_l2 | Gp_ipv4 | Gp_ipv6 | Gp_tx | Gp_drop

instance gp_node :: finite
proof
  have "(UNIV :: gp_node set) = {Gp_rx, Gp_l2, Gp_ipv4, Gp_ipv6, Gp_tx, Gp_drop}"
    by (auto intro: gp_node.exhaust)
  then show "finite (UNIV :: gp_node set)" by (metis finite.emptyI finite.insertI)
qed

definition eth_type :: "mbuf \<Rightarrow> u16" where
  "eth_type m = bswap16 (rd16 m O_ETHER_TYPE)"

subsection \<open>pipeline.c\<close>

definition rx_node_process :: "mbuf list \<Rightarrow> node_out" where
  "rx_node_process pkts = \<lparr>enq = if length pkts \<noteq> 0 then [(0, pkts)] else [], n_sent = [], n_freed = [], n_lost = []\<rparr>"

text \<open>The loop over the packets fills three arrays of 32; writing past one is \<open>None\<close>.\<close>

fun l2_split :: "mbuf list \<Rightarrow> mbuf list \<Rightarrow> mbuf list \<Rightarrow> mbuf list \<Rightarrow> (mbuf list \<times> mbuf list \<times> mbuf list) option" where
  "l2_split [] ipv4 ipv6 dropped = Some (ipv4, ipv6, dropped)"
| "l2_split (m # objs) ipv4 ipv6 dropped =
     (if eth_type m = RTE_ETHER_TYPE_IPV4 then
        (if length ipv4 < 32 then l2_split objs (ipv4 @ [m]) ipv6 dropped else None)
      else if eth_type m = RTE_ETHER_TYPE_IPV6 then
        (if length ipv6 < 32 then l2_split objs ipv4 (ipv6 @ [m]) dropped else None)
      else (if length dropped < 32 then l2_split objs ipv4 ipv6 (dropped @ [m]) else None))"

definition l2_node_process :: "mbuf list \<Rightarrow> node_out option" where
  "l2_node_process objs =
     (case l2_split objs [] [] [] of None \<Rightarrow> None
      | Some (ipv4, ipv6, dropped) \<Rightarrow>
          Some \<lparr>enq = (if ipv4 \<noteq> [] then [(0, ipv4)] else []) @ (if ipv6 \<noteq> [] then [(1, ipv6)] else []) @
                       (if dropped \<noteq> [] then [(2, dropped)] else []), n_sent = [], n_freed = [], n_lost = []\<rparr>)"

definition ip_node_process :: "mbuf list \<Rightarrow> node_out" where
  "ip_node_process objs = \<lparr>enq = [(0, objs)], n_sent = [], n_freed = [], n_lost = []\<rparr>"

definition tx_node_process :: "(mbuf list \<Rightarrow> nat) \<Rightarrow> mbuf list \<Rightarrow> node_out" where
  "tx_node_process tx objs =
     (let x = tx_then_free tx objs in \<lparr>enq = [], n_sent = sent x, n_freed = freed x, n_lost = []\<rparr>)"

definition drop_node_process :: "mbuf list \<Rightarrow> node_out" where
  "drop_node_process objs = \<lparr>enq = [], n_sent = [], n_freed = free_range objs 0 (length objs), n_lost = []\<rparr>"

fun gp_process :: "(mbuf list \<Rightarrow> nat) \<Rightarrow> gp_node \<Rightarrow> mbuf list \<Rightarrow> node_out option" where
  "gp_process tx Gp_rx ps = Some (rx_node_process ps)"
| "gp_process tx Gp_l2 ps = l2_node_process ps"
| "gp_process tx Gp_ipv4 ps = Some (ip_node_process ps)"
| "gp_process tx Gp_ipv6 ps = Some (ip_node_process ps)"
| "gp_process tx Gp_tx ps = Some (tx_node_process tx ps)"
| "gp_process tx Gp_drop ps = Some (drop_node_process ps)"

fun gp_next :: "gp_node \<Rightarrow> nat \<Rightarrow> gp_node option" where
  "gp_next Gp_rx e = (if e = 0 then Some Gp_l2 else None)"
| "gp_next Gp_l2 e = (if e = 0 then Some Gp_ipv4 else if e = 1 then Some Gp_ipv6 else if e = 2 then Some Gp_drop else None)"
| "gp_next Gp_ipv4 e = (if e = 0 then Some Gp_tx else None)"
| "gp_next Gp_ipv6 e = (if e = 0 then Some Gp_tx else None)"
| "gp_next Gp_tx e = None"
| "gp_next Gp_drop e = None"

definition gp_graph :: "(mbuf list \<Rightarrow> nat) \<Rightarrow> (unit, gp_node) graph" where
  "gp_graph tx = \<lparr>next_node = gp_next, process = (\<lambda>s n ps. map_option (Pair s) (gp_process tx n ps)), other = (\<lambda>_ _. False)\<rparr>"

text \<open>A walk starts with what the source node has received.\<close>

definition walk_from :: "'s \<Rightarrow> 'n \<Rightarrow> mbuf list \<Rightarrow> ('s, 'n) walk_state" where
  "walk_from s n rx = \<lparr>vars = s, pend = (\<lambda>_. [])(n := rx), w_sent = [], w_freed = [], w_lost = []\<rparr>"

text \<open>The start-up; 65535 is \<open>RTE_GRAPH_ID_INVALID\<close>. The results of the port calls are ignored.\<close>

definition gp_main_start :: "int prog" where
  "gp_main_start =
     must Rte_eal_init ''EAL init failed''
     (nonnull (Rte_pktmbuf_pool_create ''MBUF_POOL'' 8192 256) ''mempool create failed'' (\<lambda>pool.
     call_p (Rte_eth_dev_configure 0 1 1) (\<lambda>_.
     call_p (Rte_eth_rx_queue_setup 0 0 1024 pool) (\<lambda>_.
     call_p (Rte_eth_tx_queue_setup 0 0 1024) (\<lambda>_.
     call_p (Rte_eth_dev_start 0) (\<lambda>_.
     call_p (Rte_graph_create ''pipeline_graph'') (\<lambda>id. if id = 65535 then rte_exit ''graph create failed'' else
     call_p (Rte_graph_lookup ''pipeline_graph'') done_p)))))))"

subsection \<open>rx_drop_sample/sample/main.c\<close>

datatype rd_node = Rd_rx | Rd_ipv4 | Rd_tx | Rd_drop

instance rd_node :: finite
proof
  have "(UNIV :: rd_node set) = {Rd_rx, Rd_ipv4, Rd_tx, Rd_drop}" by (auto intro: rd_node.exhaust)
  then show "finite (UNIV :: rd_node set)" by (metis finite.emptyI finite.insertI)
qed

definition rd_rx_process :: "mbuf list \<Rightarrow> node_out" where
  "rd_rx_process pkts = \<lparr>enq = if 0 < length pkts then [(0, pkts)] else [], n_sent = [], n_freed = [], n_lost = []\<rparr>"

definition rd_ipv4_process :: "mbuf list \<Rightarrow> node_out" where
  "rd_ipv4_process objs = \<lparr>enq = map (\<lambda>pkt. (if rd16 pkt O_ETHER_TYPE = bswap16 RTE_ETHER_TYPE_IPV4 then 0 else 1, [pkt])) objs,
     n_sent = [], n_freed = [], n_lost = []\<rparr>"

text \<open>The result of the send is ignored: packets it does not take are lost.\<close>

definition rd_tx_process :: "(mbuf list \<Rightarrow> nat) \<Rightarrow> mbuf list \<Rightarrow> node_out" where
  "rd_tx_process tx objs = \<lparr>enq = [], n_sent = take (tx objs) objs, n_freed = [], n_lost = drop (tx objs) objs\<rparr>"

definition rd_drop_process :: "mbuf list \<Rightarrow> node_out" where
  "rd_drop_process objs = \<lparr>enq = [], n_sent = [], n_freed = free_range objs 0 (length objs), n_lost = []\<rparr>"

fun rd_process :: "(mbuf list \<Rightarrow> nat) \<Rightarrow> rd_node \<Rightarrow> mbuf list \<Rightarrow> node_out" where
  "rd_process tx Rd_rx ps = rd_rx_process ps"
| "rd_process tx Rd_ipv4 ps = rd_ipv4_process ps"
| "rd_process tx Rd_tx ps = rd_tx_process tx ps"
| "rd_process tx Rd_drop ps = rd_drop_process ps"

fun rd_next :: "rd_node \<Rightarrow> nat \<Rightarrow> rd_node option" where
  "rd_next Rd_rx e = (if e = 0 then Some Rd_ipv4 else None)"
| "rd_next Rd_ipv4 e = (if e = 0 then Some Rd_tx else if e = 1 then Some Rd_drop else None)"
| "rd_next Rd_tx e = None"
| "rd_next Rd_drop e = None"

definition rd_graph :: "(mbuf list \<Rightarrow> nat) \<Rightarrow> (unit, rd_node) graph" where
  "rd_graph tx = \<lparr>next_node = rd_next, process = (\<lambda>s n ps. Some (s, rd_process tx n ps)), other = (\<lambda>_ _. False)\<rparr>"

definition rd_main_start :: "int prog" where
  "rd_main_start =
     must Rte_eal_init ''EAL init failed''
     (nonnull (Rte_pktmbuf_pool_create ''MBUF_POOL'' 8192 256) ''Mbuf pool creation failed'' (\<lambda>pool.
     call_p (Rte_eth_dev_configure 0 1 1) (\<lambda>_.
     call_p (Rte_eth_rx_queue_setup 0 0 1024 pool) (\<lambda>_.
     call_p (Rte_eth_tx_queue_setup 0 0 1024) (\<lambda>_.
     call_p (Rte_eth_dev_start 0) (\<lambda>_.
     call_p (Rte_graph_create ''ipv4_graph'') (\<lambda>id. if id = 65535 then rte_exit ''Graph creation failed'' else
     nonnull (Rte_graph_lookup ''ipv4_graph'') ''Graph lookup failed'' done_p)))))))"

subsection \<open>The nodes meet the contract\<close>

lemma all_ids_walk_from: "all_ids (walk_from s n rx) = ids rx"
  using pending_append [of "\<lambda>_. []" n rx] by (simp add: all_ids_def walk_from_def pending_def)

lemma l2_split_Some:
  "l2_split objs ipv4 ipv6 dr = Some x \<Longrightarrow>
     x = (ipv4 @ filter (\<lambda>m. eth_type m = 0x0800) objs,
       ipv6 @ filter (\<lambda>m. eth_type m \<noteq> 0x0800 \<and> eth_type m = 0x86DD) objs,
       dr @ filter (\<lambda>m. eth_type m \<noteq> 0x0800 \<and> eth_type m \<noteq> 0x86DD) objs)"
  by (induction objs ipv4 ipv6 dr rule: l2_split.induct) (auto split: if_splits)

lemma l2_split_total: "length ipv4 + length ipv6 + length dr + length objs \<le> 32 \<Longrightarrow> l2_split objs ipv4 ipv6 dr \<noteq> None"
  by (induction objs ipv4 ipv6 dr rule: l2_split.induct) auto

lemma l2_node_total: "length objs \<le> 32 \<Longrightarrow> l2_node_process objs \<noteq> None"
  using l2_split_total [of "[]" "[]" "[]" objs] by (auto simp: l2_node_process_def split: option.split)

lemma concat_enq:
  "concat (map snd ((if a \<noteq> [] then [(0, a)] else []) @ (if b \<noteq> [] then [(1, b)] else []) @
     (if c \<noteq> [] then [(2, c)] else []))) = a @ b @ c"
  by simp

lemma l2_node_Some:
  assumes "l2_node_process objs = Some r"
  shows "n_sent r = []" "n_freed r = []" "n_lost r = []" "ids (concat (map snd (enq r))) = ids objs"
    "(e, qs) \<in> set (enq r) \<Longrightarrow> e < 3 \<and>
       (\<forall>m\<in>set qs. (e = 0 \<longrightarrow> eth_type m = 0x0800) \<and> (e = 1 \<longrightarrow> eth_type m = 0x86DD) \<and>
          (e = 2 \<longrightarrow> eth_type m \<noteq> 0x0800 \<and> eth_type m \<noteq> 0x86DD))"
proof -
  obtain x where x: "l2_split objs [] [] [] = Some x" using assms by (auto simp: l2_node_process_def split: option.splits)
  note r = assms [unfolded l2_node_process_def x l2_split_Some [OF x]]
  show "n_sent r = []" "n_freed r = []" "n_lost r = []" using r by auto
  have "ids (filter (\<lambda>m. eth_type m = 0x0800) objs) +
      (ids (filter (\<lambda>m. eth_type m \<noteq> 0x0800 \<and> eth_type m = 0x86DD) objs) +
       ids (filter (\<lambda>m. eth_type m \<noteq> 0x0800 \<and> eth_type m \<noteq> 0x86DD) objs)) = ids objs"
    by (induction objs) auto
  moreover have "concat (map snd (enq r)) = filter (\<lambda>m. eth_type m = 0x0800) objs @
      filter (\<lambda>m. eth_type m \<noteq> 0x0800 \<and> eth_type m = 0x86DD) objs @
      filter (\<lambda>m. eth_type m \<noteq> 0x0800 \<and> eth_type m \<noteq> 0x86DD) objs"
  proof -
    have "concat (map snd (enq (the (Some r)))) = filter (\<lambda>m. eth_type m = 0x0800) objs @
      filter (\<lambda>m. eth_type m \<noteq> 0x0800 \<and> eth_type m = 0x86DD) objs @
      filter (\<lambda>m. eth_type m \<noteq> 0x0800 \<and> eth_type m \<noteq> 0x86DD) objs"
      unfolding r [symmetric] option.case prod.case option.sel node_out.select_convs append_Nil by (rule concat_enq)
    then show ?thesis by simp
  qed
  ultimately show "ids (concat (map snd (enq r))) = ids objs" by (simp only: map_append mset_append)
  show "(e, qs) \<in> set (enq r) \<Longrightarrow> e < 3 \<and>
       (\<forall>m\<in>set qs. (e = 0 \<longrightarrow> eth_type m = 0x0800) \<and> (e = 1 \<longrightarrow> eth_type m = 0x86DD) \<and>
          (e = 2 \<longrightarrow> eth_type m \<noteq> 0x0800 \<and> eth_type m \<noteq> 0x86DD))"
    using r by (auto split: if_splits)
qed

lemma tx_then_free_split: "ids (sent (tx_then_free tx ps)) + ids (freed (tx_then_free tx ps)) = ids ps"
proof -
  have "sent (tx_then_free tx ps) @ freed (tx_then_free tx ps) = ps"
    by (auto simp: tx_then_free_def free_range_drop Let_def)
  then show ?thesis by (metis map_append mset_append)
qed

lemma tx_then_free_mem: "m \<in> set (sent (tx_then_free tx ps)) \<or> m \<in> set (freed (tx_then_free tx ps)) \<Longrightarrow> m \<in> set ps"
  by (auto simp: tx_then_free_def free_range_drop Let_def split: if_splits dest: in_set_takeD in_set_dropD)

lemma tx_then_free_all:
  "\<forall>m\<in>set ps. P m \<Longrightarrow> (\<forall>m\<in>set (sent (tx_then_free tx ps)). P m) \<and> (\<forall>m\<in>set (freed (tx_then_free tx ps)). P m)"
  using tx_then_free_mem by blast

lemmas gp_node_defs = rx_node_process_def ip_node_process_def tx_node_process_def drop_node_process_def

fun gp_rank :: "gp_node \<Rightarrow> nat" where
  "gp_rank Gp_rx = 3" | "gp_rank Gp_l2 = 2" | "gp_rank Gp_ipv4 = 1" | "gp_rank Gp_ipv6 = 1"
| "gp_rank Gp_tx = 0" | "gp_rank Gp_drop = 0"

definition is_ip :: "mbuf \<Rightarrow> bool" where
  "is_ip m \<longleftrightarrow> eth_type m = 0x0800 \<or> eth_type m = 0x86DD"

fun gp_at :: "gp_node \<Rightarrow> mbuf \<Rightarrow> bool" where
  "gp_at Gp_rx m = True" | "gp_at Gp_l2 m = True" | "gp_at Gp_ipv4 m = (eth_type m = 0x0800)"
| "gp_at Gp_ipv6 m = (eth_type m = 0x86DD)" | "gp_at Gp_tx m = is_ip m" | "gp_at Gp_drop m = (\<not> is_ip m)"


interpretation gp: graph_flow "gp_graph tx" gp_rank 32 "\<lambda>_. True" gp_at is_ip "\<lambda>_. True" "\<lambda>_. False" for tx
proof
  fix ps :: "mbuf list" and s n
  assume "ps \<noteq> []" "length ps \<le> 32"
  show "\<exists>s' r. process (gp_graph tx) s n ps = Some (s', r) \<and>
      ids (concat (map snd (enq r))) + ids (n_sent r) + ids (n_freed r) + ids (n_lost r) = ids ps"
  proof (cases "n = Gp_l2")
    case True
    obtain r where "l2_node_process ps = Some r" using l2_node_total [OF \<open>length ps \<le> 32\<close>] by auto
    with l2_node_Some [OF this] True show ?thesis by (simp add: gp_graph_def)
  next
    case False
    then show ?thesis using tx_then_free_split [of tx ps]
      by (cases n) (auto simp: gp_graph_def gp_node_defs free_range_drop Let_def)
  qed
next
  fix ps s n s' r e qs
  assume "process (gp_graph tx) s n ps = Some (s', r)" "(e, qs) \<in> set (enq r)"
  then show "\<exists>n'. next_node (gp_graph tx) n e = Some n' \<and> gp_rank n' < gp_rank n"
    by (cases n) (auto simp: gp_graph_def gp_node_defs Let_def numeral_3_eq_3 less_Suc_eq split: if_splits dest: l2_node_Some(5))
next
  fix ps s n s' r
  assume p: "process (gp_graph tx) s n ps = Some (s', r)" and a: "\<forall>m\<in>set ps. gp_at n m"
  show "(\<forall>e qs n'. (e, qs) \<in> set (enq r) \<longrightarrow> next_node (gp_graph tx) n e = Some n' \<longrightarrow> (\<forall>m\<in>set qs. gp_at n' m)) \<and>
      (\<forall>m\<in>set (n_sent r). is_ip m) \<and> (\<forall>m\<in>set (n_freed r). True) \<and> (\<forall>m\<in>set (n_lost r). False)"
  proof (cases "n = Gp_l2")
    case True
    with p have r: "l2_node_process ps = Some r" by (auto simp: gp_graph_def)
    with True l2_node_Some [OF r] show ?thesis
      by (fastforce simp: gp_graph_def is_ip_def split: if_splits)
  next
    case False
    show ?thesis
    proof (cases n)
      case Gp_tx
      with p a tx_then_free_all [of ps is_ip tx] show ?thesis
        by (simp add: gp_graph_def tx_node_process_def Let_def) auto
    qed (use False p a in \<open>auto simp: gp_graph_def gp_node_defs is_ip_def split: if_splits\<close>)
  qed
qed simp_all


text \<open>
  C18. The graph pipeline. For every burst of at most 32 packets and every order in which the
  library runs the nodes: no node overruns its arrays or enqueues over an edge it does not
  have; a walk has at most four node runs per packet and can always be finished; and when it is
  finished every packet received was sent or freed exactly once, none lost, only IPv4 and IPv6
  packets having been sent.
\<close>

theorem graph_pipeline_walk:
  assumes "length rx \<le> 32" "walk (gp_graph tx) (walk_from () Gp_rx rx) k st"
  shows "(\<forall>n. pend st n \<noteq> [] \<longrightarrow> run_node (gp_graph tx) n st \<noteq> None) \<and> k \<le> 4 * length rx \<and>
    (\<exists>k' st'. walk (gp_graph tx) (walk_from () Gp_rx rx) k' st' \<and> walk_done st') \<and>
    (walk_done st \<longrightarrow> ids (w_sent st) + ids (w_freed st) = ids rx) \<and>
    w_lost st = [] \<and> (\<forall>m\<in>set (w_sent st). is_ip m)"
proof -
  have cap: "size (all_ids (walk_from () Gp_rx rx)) \<le> 32" using assms(1) by (simp add: all_ids_walk_from)
  have w: "weight gp_rank ((\<lambda>_. [])(Gp_rx := rx)) = 4 * length rx"
    using weight_append [of gp_rank "\<lambda>_. []" Gp_rx rx] by (simp add: weight_def)
  have pl: "gp.placed st"
    by (rule gp.placed_walk [OF assms(2)]) (simp add: gp.placed_def walk_from_def)
  then have lost: "w_lost st = []" "\<forall>m\<in>set (w_sent st). is_ip m" by (simp_all add: gp.placed_def)
  have "ids (w_sent st) + ids (w_freed st) = ids rx" if "walk_done st"
    using gp.done_accounted [OF assms(2) cap that] by (simp add: lost all_ids_walk_from)
  moreover have "k \<le> 4 * length rx"
    using gp.walk_conserves(2) [OF assms(2) cap] by (simp add: walk_from_def w)
  ultimately show ?thesis
    using gp.walk_progress [OF assms(2) cap] gp.walk_completes [OF cap] lost by blast
qed

theorem graph_pipeline_walk_witness:
  "\<exists>k st. walk (gp_graph (\<lambda>ps. 1)) (walk_from () Gp_rx [udp_packet 0 0 0 0 [10,0,0,1] [8,8,8,8] [0,1] [0,2]]) k st \<and>
     walk_done st \<and> ids (w_sent st) + ids (w_freed st) = {#7#}"
proof -
  let ?m = "udp_packet 0 0 0 0 [10,0,0,1] [8,8,8,8] [0,1] [0,2]"
  from graph_pipeline_walk [of "[?m]", OF _ walk.start] obtain k st where
    w: "walk (gp_graph (\<lambda>ps. 1)) (walk_from () Gp_rx [?m]) k st" "walk_done st" by fastforce
  from graph_pipeline_walk [of "[?m]", OF _ w(1)] w(2) have "ids (w_sent st) + ids (w_freed st) = ids [?m]" by simp
  with w show ?thesis by (auto simp: udp_packet_def)
qed

subsection \<open>rx_drop_sample\<close>

fun rd_rank :: "rd_node \<Rightarrow> nat" where
  "rd_rank Rd_rx = 2" | "rd_rank Rd_ipv4 = 1" | "rd_rank Rd_tx = 0" | "rd_rank Rd_drop = 0"

definition is_ipv4 :: "mbuf \<Rightarrow> bool" where
  "is_ipv4 m \<longleftrightarrow> rd16 m 12 = bswap16 0x0800"

fun rd_at :: "rd_node \<Rightarrow> mbuf \<Rightarrow> bool" where
  "rd_at Rd_rx m = True" | "rd_at Rd_ipv4 m = True" | "rd_at Rd_tx m = is_ipv4 m" | "rd_at Rd_drop m = (\<not> is_ipv4 m)"

lemmas rd_node_defs = rd_rx_process_def rd_ipv4_process_def rd_tx_process_def rd_drop_process_def

interpretation rd: graph_flow "rd_graph tx" rd_rank cap "\<lambda>_. True" rd_at is_ipv4 "\<lambda>m. \<not> is_ipv4 m" is_ipv4 for tx cap
proof
  fix ps :: "mbuf list" and s n
  have "ids (take j ps) + ids (drop j ps) = ids ps" for j
    by (metis append_take_drop_id map_append mset_append)
  then show "\<exists>s' r. process (rd_graph tx) s n ps = Some (s', r) \<and>
      ids (concat (map snd (enq r))) + ids (n_sent r) + ids (n_freed r) + ids (n_lost r) = ids ps"
    by (cases n) (auto simp: rd_graph_def rd_node_defs free_range_drop comp_def concat_map_singleton)
next
  fix ps s n s' r e qs
  assume "process (rd_graph tx) s n ps = Some (s', r)" "(e, qs) \<in> set (enq r)"
  then show "\<exists>n'. next_node (rd_graph tx) n e = Some n' \<and> rd_rank n' < rd_rank n"
    by (cases n) (auto simp: rd_graph_def rd_node_defs split: if_splits)
next
  fix ps s n s' r
  assume p: "process (rd_graph tx) s n ps = Some (s', r)" and a: "\<forall>m\<in>set ps. rd_at n m"
  show "(\<forall>e qs n'. (e, qs) \<in> set (enq r) \<longrightarrow> next_node (rd_graph tx) n e = Some n' \<longrightarrow> (\<forall>m\<in>set qs. rd_at n' m)) \<and>
      (\<forall>m\<in>set (n_sent r). is_ipv4 m) \<and> (\<forall>m\<in>set (n_freed r). \<not> is_ipv4 m) \<and> (\<forall>m\<in>set (n_lost r). is_ipv4 m)"
  proof (cases n)
    case Rd_tx
    have "\<forall>m\<in>set (take j ps). is_ipv4 m" "\<forall>m\<in>set (drop j ps). is_ipv4 m" for j
      using a Rd_tx by (auto dest: in_set_takeD in_set_dropD)
    with p Rd_tx show ?thesis by (auto simp: rd_graph_def rd_tx_process_def)
  qed (use p a in \<open>auto simp: rd_graph_def rd_node_defs is_ipv4_def free_range_drop split: if_splits\<close>)
qed simp_all

text \<open>
  A finished walk has sent or lost exactly the IPv4 packets and freed exactly the others: what
  the NIC does not take is never freed.
\<close>

lemma rd_walk_fates:
  assumes "walk (rd_graph tx) (walk_from () Rd_rx rx) k st" "walk_done st"
  shows "ids (w_sent st) + ids (w_freed st) + ids (w_lost st) = ids rx"
    "\<forall>m\<in>set (w_sent st). is_ipv4 m" "\<forall>m\<in>set (w_freed st). \<not> is_ipv4 m" "\<forall>m\<in>set (w_lost st). is_ipv4 m"
proof -
  show "ids (w_sent st) + ids (w_freed st) + ids (w_lost st) = ids rx"
    using rd.done_accounted [OF assms(1) _ assms(2), of "length rx"] by (simp add: all_ids_walk_from)
  have "rd.placed st"
    by (rule rd.placed_walk [OF assms(1)]) (simp add: rd.placed_def walk_from_def)
  then show "\<forall>m\<in>set (w_sent st). is_ipv4 m" "\<forall>m\<in>set (w_freed st). \<not> is_ipv4 m" "\<forall>m\<in>set (w_lost st). is_ipv4 m"
    by (simp_all add: rd.placed_def)
qed

end
