(* ===== verification/Graph_Fw.thy ===== *)
theory Graph_Fw
  imports Graph_Pipeline Cstdio
begin

text \<open>
  \<open>dpdk-graph-fw\<close>: a graph of four nodes whose parser sends packets through the firewall
  node or around it, as the variable \<open>firewall_enabled\<close> says, and a command line in a second
  thread (\<open>control/cli.c\<close>) that sets the variable while packets are being processed. The
  thread may run any number of commands between two nodes.
\<close>

record fw_vars =
  firewall_enabled :: bool
  app_running :: bool
  rx_count :: u64
  parser_count :: u64
  firewall_count :: u64
  tx_count :: u64

definition fw_init :: fw_vars where
  "fw_init = \<lparr>firewall_enabled = False, app_running = True, rx_count = 0, parser_count = 0,
     firewall_count = 0, tx_count = 0\<rparr>"

subsection \<open>The nodes\<close>

datatype fw_node = Fw_rx | Fw_parser | Fw_firewall | Fw_tx

instance fw_node :: finite
proof
  have "(UNIV :: fw_node set) = {Fw_rx, Fw_parser, Fw_firewall, Fw_tx}" by (auto intro: fw_node.exhaust)
  then show "finite (UNIV :: fw_node set)" by (metis finite.emptyI finite.insertI)
qed

definition fw_rx_process :: "fw_vars \<Rightarrow> mbuf list \<Rightarrow> fw_vars \<times> node_out" where
  "fw_rx_process s pkts =
     (s\<lparr>rx_count := rx_count s + of_nat (length pkts)\<rparr>,
      \<lparr>enq = if length pkts \<noteq> 0 then [(0, pkts)] else [], n_sent = [], n_freed = [], n_lost = []\<rparr>)"

definition parser_node_process :: "fw_vars \<Rightarrow> mbuf list \<Rightarrow> fw_vars \<times> node_out" where
  "parser_node_process s objs =
     (let s1 = s\<lparr>parser_count := parser_count s + of_nat (length objs)\<rparr>;
          nxt = (if firewall_enabled s1 then 0 else 1)
      in (s1, \<lparr>enq = [(nxt, objs)], n_sent = [], n_freed = [], n_lost = []\<rparr>))"

text \<open>The loop of the firewall compacts the array in place; freed packets are collected.\<close>

function fw_for :: "mbuf list \<Rightarrow> nat \<Rightarrow> nat \<Rightarrow> nat \<Rightarrow> mbuf list \<Rightarrow> mbuf list \<times> nat \<times> mbuf list" where
  "fw_for objs i nb_objs out fr =
     (if i < nb_objs then
        (let m = objs ! i
         in if data_len m < 60 then fw_for objs (i + 1) nb_objs out (fr @ [m])
            else fw_for (objs[out := m]) (i + 1) nb_objs (out + 1) fr)
      else (objs, out, fr))"
  by pat_completeness auto
termination
  by (relation "measure (\<lambda>(objs, i, nb_objs, out, fr). nb_objs - i)") auto

declare fw_for.simps [simp del]

definition firewall_node_process :: "fw_vars \<Rightarrow> mbuf list \<Rightarrow> fw_vars \<times> node_out" where
  "firewall_node_process s objs =
     (let s1 = s\<lparr>firewall_count := firewall_count s + of_nat (length objs)\<rparr>;
          (objs', out, fr) = fw_for objs 0 (length objs) 0 []
      in (s1, \<lparr>enq = if out \<noteq> 0 then [(0, take out objs')] else [], n_sent = [], n_freed = fr, n_lost = []\<rparr>))"

text \<open>The result of the send is ignored: packets it does not take are lost.\<close>

definition fw_tx_process :: "(mbuf list \<Rightarrow> nat) \<Rightarrow> fw_vars \<Rightarrow> mbuf list \<Rightarrow> fw_vars \<times> node_out" where
  "fw_tx_process tx s objs =
     (s\<lparr>tx_count := tx_count s + of_nat (length objs)\<rparr>,
      \<lparr>enq = [], n_sent = take (tx objs) objs, n_freed = [], n_lost = drop (tx objs) objs\<rparr>)"

fun fw_process :: "(mbuf list \<Rightarrow> nat) \<Rightarrow> fw_vars \<Rightarrow> fw_node \<Rightarrow> mbuf list \<Rightarrow> fw_vars \<times> node_out" where
  "fw_process tx s Fw_rx ps = fw_rx_process s ps"
| "fw_process tx s Fw_parser ps = parser_node_process s ps"
| "fw_process tx s Fw_firewall ps = firewall_node_process s ps"
| "fw_process tx s Fw_tx ps = fw_tx_process tx s ps"

fun fw_next :: "fw_node \<Rightarrow> nat \<Rightarrow> fw_node option" where
  "fw_next Fw_rx e = (if e = 0 then Some Fw_parser else None)"
| "fw_next Fw_parser e = (if e = 0 then Some Fw_firewall else if e = 1 then Some Fw_tx else None)"
| "fw_next Fw_firewall e = (if e = 0 then Some Fw_tx else None)"
| "fw_next Fw_tx e = None"

subsection \<open>control/cli.c\<close>

definition strncmp_eq :: "string \<Rightarrow> string \<Rightarrow> bool" where
  "strncmp_eq cmd word \<longleftrightarrow> take (length word) (c_str cmd) = word"

text \<open>One command; showing statistics or help changes nothing.\<close>

definition cli_command :: "string \<Rightarrow> fw_vars \<Rightarrow> fw_vars" where
  "cli_command cmd s =
     (if strncmp_eq cmd ''enable firewall'' then s\<lparr>firewall_enabled := True\<rparr>
      else if strncmp_eq cmd ''disable firewall'' then s\<lparr>firewall_enabled := False\<rparr>
      else if strncmp_eq cmd ''show stats'' then s
      else if strncmp_eq cmd ''quit'' then s\<lparr>app_running := False\<rparr>
      else s)"

text \<open>What \<open>show stats\<close> prints.\<close>

definition cli_stats :: "fw_vars \<Rightarrow> u64 list" where
  "cli_stats s = [rx_count s, parser_count s, firewall_count s, tx_count s]"

text \<open>
  \<open>fgets(cmd, 64, stdin)\<close>, its result ignored: at the end of the input the buffer keeps the
  last command. A command loop that never ends is \<open>None\<close>.
\<close>

definition fgets_into :: "nat \<Rightarrow> string \<Rightarrow> string \<Rightarrow> string \<times> string" where
  "fgets_into n cmd inp = (case fgets n inp of None \<Rightarrow> (cmd, inp) | Some (l, r) \<Rightarrow> (l, r))"

partial_function (option) run_cli :: "string \<Rightarrow> string \<Rightarrow> fw_vars \<Rightarrow> fw_vars option" where
  "run_cli cmd inp s =
     (if \<not> app_running s then Some s
      else (let (cmd, inp) = fgets_into 64 cmd inp in run_cli cmd inp (cli_command cmd s)))"

text \<open>The graph, with a command line on which the commands \<open>cmds\<close> may be typed.\<close>

definition fw_graph :: "(mbuf list \<Rightarrow> nat) \<Rightarrow> string set \<Rightarrow> (fw_vars, fw_node) graph" where
  "fw_graph tx cmds = \<lparr>next_node = fw_next, process = (\<lambda>s n ps. Some (fw_process tx s n ps)),
     other = (\<lambda>s s'. \<exists>cmd\<in>cmds. s' = cli_command cmd s)\<rparr>"

subsection \<open>main.c\<close>

definition fw_port_init :: "nat \<Rightarrow> int \<Rightarrow> 'a prog \<Rightarrow> 'a prog" where
  "fw_port_init port pool k =
     call_p (Rte_eth_dev_configure port 1 1) (\<lambda>_.
     call_p (Rte_eth_rx_queue_setup port 0 1024 pool) (\<lambda>_.
     call_p (Rte_eth_tx_queue_setup port 0 1024) (\<lambda>_.
     call_p (Rte_eth_dev_start port) (\<lambda>_. k))))"

text \<open>Nothing is checked.\<close>

definition fw_main_start :: "int prog" where
  "fw_main_start =
     call_p Rte_eal_init (\<lambda>_.
     call_p (Rte_pktmbuf_pool_create ''MBUF_POOL'' 8192 250) (\<lambda>pool.
     fw_port_init 0 pool
     (call_p (Rte_graph_create ''packet_graph'') (\<lambda>_.
     call_p (Rte_graph_lookup ''packet_graph'') done_p))))"

subsection \<open>The firewall loop\<close>

lemma fw_for_spec:
  assumes "length objs = nb" "out \<le> i" "i \<le> nb" "drop i objs = drop i orig"
    "take out objs = filter (\<lambda>m. 60 \<le> data_len m) (take i orig)" "fr = filter (\<lambda>m. data_len m < 60) (take i orig)"
    "length orig = nb"
  shows "case fw_for objs i nb out fr of (objs', out', fr') \<Rightarrow>
    take out' objs' = filter (\<lambda>m. 60 \<le> data_len m) orig \<and> fr' = filter (\<lambda>m. data_len m < 60) orig"
  using assms
proof (induction objs i nb out fr rule: fw_for.induct)
  case (1 objs i nb out fr)
  show ?case
  proof (cases "i < nb")
    case False
    with "1.prems" show ?thesis by (simp add: fw_for.simps)
  next
    case True
    let ?m = "objs ! i"
    have m: "?m = orig ! i"
      using "1.prems"(1,4,7) True by (metis Cons_nth_drop_Suc list.inject)
    have tk: "take (i + 1) orig = take i orig @ [?m]" using True "1.prems"(7) m by (simp add: take_Suc_conv_app_nth)
    have dr: "drop (i + 1) objs = drop (i + 1) orig"
      using "1.prems"(4) by (metis drop_drop add.commute)
    show ?thesis
    proof (cases "data_len ?m < 60")
      case short: True
      have "case fw_for objs (i + 1) nb out (fr @ [?m]) of (objs', out', fr') \<Rightarrow>
          take out' objs' = filter (\<lambda>m. 60 \<le> data_len m) orig \<and> fr' = filter (\<lambda>m. data_len m < 60) orig"
        using "1.IH"(1) [OF True refl short] "1.prems" True tk dr short by simp
      then show ?thesis by (simp add: fw_for.simps [of objs i] Let_def True short)
    next
      case long: False
      have "take (out + 1) (objs[out := ?m]) = take out objs @ [?m]"
        using "1.prems"(1,2) True by (simp add: take_Suc_conv_app_nth)
      moreover have "drop (i + 1) (objs[out := ?m]) = drop (i + 1) orig" using dr "1.prems"(2) by simp
      ultimately have "case fw_for (objs[out := ?m]) (i + 1) nb (out + 1) fr of (objs', out', fr') \<Rightarrow>
          take out' objs' = filter (\<lambda>m. 60 \<le> data_len m) orig \<and> fr' = filter (\<lambda>m. data_len m < 60) orig"
        using "1.IH"(2) [OF True refl long] "1.prems" True tk long by simp
      then show ?thesis by (simp add: fw_for.simps [of objs i] Let_def True long)
    qed
  qed
qed


lemma fw_for_le:
  "out \<le> i \<Longrightarrow> i \<le> nb \<Longrightarrow> length objs = nb \<Longrightarrow>
   (case fw_for objs i nb out fr of (objs', out', fr') \<Rightarrow> out' \<le> length objs')"
proof (induction objs i nb out fr rule: fw_for.induct)
  case (1 objs i nb out fr)
  then show ?case by (subst fw_for.simps) (simp add: Let_def)
qed

lemma firewall_spec:
  "firewall_node_process s objs =
     (s\<lparr>firewall_count := firewall_count s + of_nat (length objs)\<rparr>,
      \<lparr>enq = (let keep = filter (\<lambda>m. 60 \<le> data_len m) objs in if keep \<noteq> [] then [(0, keep)] else []),
       n_sent = [], n_freed = filter (\<lambda>m. data_len m < 60) objs, n_lost = []\<rparr>)"
proof -
  obtain objs' out fr where f: "fw_for objs 0 (length objs) 0 [] = (objs', out, fr)" by (cases "fw_for objs 0 (length objs) 0 []")
  with fw_for_spec [of objs "length objs" 0 0 objs "[]"]
  have k: "take out objs' = filter (\<lambda>m. 60 \<le> data_len m) objs" and fr: "fr = filter (\<lambda>m. data_len m < 60) objs" by simp_all
  have "out \<le> length objs'" using fw_for_le [of 0 0 "length objs" objs "[]"] f by simp
  then have "out \<noteq> 0 \<longleftrightarrow> take out objs' \<noteq> []" by auto
  with f k fr show ?thesis by (simp add: firewall_node_process_def Let_def)
qed

subsection \<open>Walks while commands are typed\<close>

definition always_on :: "string set \<Rightarrow> bool" where
  "always_on cmds \<longleftrightarrow> (\<forall>cmd\<in>cmds. \<not> strncmp_eq cmd ''disable firewall'')"

definition long_pkt :: "mbuf \<Rightarrow> bool" where
  "long_pkt m \<longleftrightarrow> 60 \<le> data_len m"

fun fw_rank :: "fw_node \<Rightarrow> nat" where
  "fw_rank Fw_rx = 3" | "fw_rank Fw_parser = 2" | "fw_rank Fw_firewall = 1" | "fw_rank Fw_tx = 0"

definition fw_at :: "bool \<Rightarrow> fw_node \<Rightarrow> mbuf \<Rightarrow> bool" where
  "fw_at on n m \<longleftrightarrow> (on \<and> n = Fw_tx \<longrightarrow> long_pkt m)"

lemmas fw_node_defs = fw_rx_process_def parser_node_process_def firewall_spec fw_tx_process_def Let_def

lemma fw_accounts:
  assumes "ps \<noteq> []"
  shows "\<exists>s' r. fw_process tx s n ps = (s', r) \<and>
    ids (concat (map snd (enq r))) + ids (n_sent r) + ids (n_freed r) + ids (n_lost r) = ids ps"
proof -
  have "ids (take j ps) + ids (drop j ps) = ids ps" for j
    by (metis append_take_drop_id map_append mset_append)
  moreover have "ids (filter (\<lambda>m. 60 \<le> data_len m) ps) + ids (filter (\<lambda>m. data_len m < 60) ps) = ids ps"
    by (induction ps) (auto simp: not_le)
  moreover have "concat (map snd (if k \<noteq> [] then [(0 :: nat, k)] else [])) = k" for k :: "mbuf list" by simp
  ultimately show ?thesis by (cases n) (use assms in \<open>simp_all add: fw_node_defs\<close>)
qed

lemma cli_keeps_on: "always_on cmds \<Longrightarrow> cmd \<in> cmds \<Longrightarrow> firewall_enabled s \<Longrightarrow> firewall_enabled (cli_command cmd s)"
  by (auto simp: always_on_def cli_command_def)

interpretation fw: graph_flow "fw_graph tx cmds" fw_rank cap "\<lambda>s. always_on cmds \<longrightarrow> firewall_enabled s"
    "fw_at (always_on cmds)" "\<lambda>m. always_on cmds \<longrightarrow> long_pkt m" "\<lambda>m. \<not> long_pkt m" "\<lambda>m. always_on cmds \<longrightarrow> long_pkt m"
  for tx cmds cap
proof
  fix ps :: "mbuf list" and s n
  assume "ps \<noteq> []"
  from fw_accounts [OF this] show "\<exists>s' r. process (fw_graph tx cmds) s n ps = Some (s', r) \<and>
      ids (concat (map snd (enq r))) + ids (n_sent r) + ids (n_freed r) + ids (n_lost r) = ids ps"
    by (simp add: fw_graph_def)
next
  fix ps s n s' r e qs
  assume "process (fw_graph tx cmds) s n ps = Some (s', r)" "(e, qs) \<in> set (enq r)"
  then show "\<exists>n'. next_node (fw_graph tx cmds) n e = Some n' \<and> fw_rank n' < fw_rank n"
    by (cases n) (auto simp: fw_graph_def fw_node_defs split: if_splits)
next
  fix ps s n s' r
  assume p: "process (fw_graph tx cmds) s n ps = Some (s', r)" and g: "always_on cmds \<longrightarrow> firewall_enabled s"
    and a: "\<forall>m\<in>set ps. fw_at (always_on cmds) n m"
  show "(\<forall>e qs n'. (e, qs) \<in> set (enq r) \<longrightarrow> next_node (fw_graph tx cmds) n e = Some n' \<longrightarrow>
        (\<forall>m\<in>set qs. fw_at (always_on cmds) n' m)) \<and>
      (\<forall>m\<in>set (n_sent r). always_on cmds \<longrightarrow> long_pkt m) \<and> (\<forall>m\<in>set (n_freed r). \<not> long_pkt m) \<and>
      (\<forall>m\<in>set (n_lost r). always_on cmds \<longrightarrow> long_pkt m)"
  proof (cases n)
    case Fw_tx
    have "\<forall>m\<in>set (take j ps). always_on cmds \<longrightarrow> long_pkt m" "\<forall>m\<in>set (drop j ps). always_on cmds \<longrightarrow> long_pkt m" for j
      using a Fw_tx by (auto simp: fw_at_def dest: in_set_takeD in_set_dropD)
    with p Fw_tx show ?thesis by (auto simp: fw_graph_def fw_tx_process_def)
  qed (use p a g in \<open>auto simp: fw_graph_def fw_node_defs fw_at_def long_pkt_def split: if_splits\<close>)
next
  fix ps s n s' r
  assume "process (fw_graph tx cmds) s n ps = Some (s', r)" "always_on cmds \<longrightarrow> firewall_enabled s"
  then show "always_on cmds \<longrightarrow> firewall_enabled s'"
    by (cases n) (auto simp: fw_graph_def fw_node_defs)
next
  fix s s'
  assume "other (fw_graph tx cmds) s s'" "always_on cmds \<longrightarrow> firewall_enabled s"
  then show "always_on cmds \<longrightarrow> firewall_enabled s'" using cli_keeps_on by (auto simp: fw_graph_def)
qed



lemma cli_counters [simp]:
  "rx_count (cli_command cmd s) = rx_count s" "parser_count (cli_command cmd s) = parser_count s"
  "tx_count (cli_command cmd s) = tx_count s"
  by (simp_all add: cli_command_def)






subsection \<open>The command loop\<close>

function cli_lines :: "string \<Rightarrow> string list" where
  "cli_lines inp = (case fgets 64 inp of None \<Rightarrow> [] | Some (l, r) \<Rightarrow> l # cli_lines r)"
  by pat_completeness auto
termination
  by (relation "measure length") (auto dest: fgets_shorter)

declare cli_lines.simps [simp del]

definition quits :: "string \<Rightarrow> bool" where
  "quits cmd \<longleftrightarrow> strncmp_eq cmd ''quit''"

text \<open>The commands up to and including the first \<open>quit\<close>.\<close>

fun upto_quit :: "string list \<Rightarrow> string list" where
  "upto_quit [] = []"
| "upto_quit (l # ls) = (if quits l then [l] else l # upto_quit ls)"

lemma strncmp_eq_hd: "strncmp_eq cmd (c # w) \<Longrightarrow> \<exists>r. c_str cmd = c # r"
  by (cases "c_str cmd") (auto simp: strncmp_eq_def)

lemma cli_running: "app_running (cli_command cmd s) \<longleftrightarrow> app_running s \<and> \<not> quits cmd"
  using strncmp_eq_hd [of cmd "CHR ''e''" "''nable firewall''"] strncmp_eq_hd [of cmd "CHR ''d''" "''isable firewall''"]
    strncmp_eq_hd [of cmd "CHR ''s''" "''how stats''"] strncmp_eq_hd [of cmd "CHR ''q''" "''uit''"]
  by (auto simp: cli_command_def quits_def)

lemma run_cli_stopped: "\<not> app_running s \<Longrightarrow> run_cli cmd inp s = Some s"
  by (simp add: run_cli.simps)

lemma run_cli_quits:
  "\<exists>l\<in>set (cli_lines inp). quits l \<Longrightarrow> app_running s \<Longrightarrow>
   run_cli cmd inp s = Some (fold cli_command (upto_quit (cli_lines inp)) s)"
proof (induction inp arbitrary: cmd s rule: cli_lines.induct)
  case (1 inp)
  from "1.prems"(1) obtain l r where f: "fgets 64 inp = Some (l, r)"
    by (cases "fgets 64 inp") (auto simp: cli_lines.simps [of inp])
  then have ls: "cli_lines inp = l # cli_lines r" by (simp add: cli_lines.simps [of inp])
  have step: "run_cli cmd inp s = run_cli l r (cli_command l s)"
    using "1.prems"(2) f by (simp add: run_cli.simps [of cmd inp] fgets_into_def)
  show ?case
  proof (cases "quits l")
    case True
    then show ?thesis using step ls by (simp add: run_cli_stopped cli_running)
  next
    case False
    with "1.IH" [OF f refl, of "cli_command l s" l] "1.prems" ls step show ?thesis by (simp add: cli_running)
  qed
qed

lemma run_cli_returns:
  assumes "run_cli cmd inp s = Some s'" "app_running s" "\<not> quits cmd"
  shows "\<exists>l\<in>set (cli_lines inp). quits l"
proof -
  have "app_running s \<longrightarrow> \<not> quits cmd \<longrightarrow> (\<exists>l\<in>set (cli_lines inp). quits l)"
  proof (rule run_cli.raw_induct
      [where P = "\<lambda>cmd inp s s'. app_running s \<longrightarrow> \<not> quits cmd \<longrightarrow> (\<exists>l\<in>set (cli_lines inp). quits l)", OF _ assms(1)])
    fix f cmd inp s s'
    assume IH: "\<And>cmd inp s s'. f cmd inp s = Some s' \<Longrightarrow> app_running s \<longrightarrow> \<not> quits cmd \<longrightarrow> (\<exists>l\<in>set (cli_lines inp). quits l)"
      and step: "(if \<not> app_running s then Some s
        else let (cmd, inp) = fgets_into 64 cmd inp in f cmd inp (cli_command cmd s)) = Some s'"
    show "app_running s \<longrightarrow> \<not> quits cmd \<longrightarrow> (\<exists>l\<in>set (cli_lines inp). quits l)"
    proof (cases "fgets 64 inp")
      case None
      with step IH [of cmd inp "cli_command cmd s"] show ?thesis by (auto simp: fgets_into_def cli_running split: if_splits)
    next
      case (Some x)
      obtain l r where x: "x = (l, r)" by (cases x)
      with Some step IH [of l r "cli_command l s"] show ?thesis
        by (auto simp: fgets_into_def cli_running cli_lines.simps [of inp] split: if_splits)
    qed
  qed
  with assms show ?thesis by blast
qed

text \<open>
  C20. The command line. The loop ends, having carried out the commands up to it in order,
  when a line starting with \<open>quit\<close> is entered. It does not end when the input ends: as the
  result of \<open>fgets\<close> is ignored, the last command is repeated for ever.
\<close>

theorem run_cli_termination:
  assumes "app_running s" "\<not> quits cmd"
  shows "run_cli cmd inp s =
    (if \<exists>l\<in>set (cli_lines inp). quits l then Some (fold cli_command (upto_quit (cli_lines inp)) s) else None)"
  using run_cli_quits [of inp s cmd] run_cli_returns [of cmd inp s] assms by (cases "run_cli cmd inp s") auto

theorem run_cli_termination_witness:
  "run_cli [] (''enable firewall'' @ [NL]) fw_init = None \<and>
   run_cli [] (''enable firewall'' @ NL # ''quit'' @ [NL]) fw_init =
     Some (fw_init\<lparr>firewall_enabled := True, app_running := False\<rparr>)"
proof -
  have i: "app_running fw_init" "\<not> quits []" by (simp_all add: fw_init_def quits_def strncmp_eq_def c_str_def)
  have e: "fgets 64 (''enable firewall'' @ NL # r) = Some (''enable firewall'' @ [NL], r)" for r
    using line_of_line [of "''enable firewall''" 63 r] by (simp add: fgets_def NL_def)
  have q: "fgets 64 (''quit'' @ [NL]) = Some (''quit'' @ [NL], [])"
    using line_of_line [of "''quit''" 63 "[]"] by (simp add: fgets_def NL_def)
  have n: "cli_lines [] = []" by (simp add: cli_lines.simps fgets_def)
  have 1: "cli_lines (''enable firewall'' @ [NL]) = [''enable firewall'' @ [NL]]"
    using e [of "[]"] n by (simp add: cli_lines.simps [of "''enable firewall'' @ [NL]"] del: append_Cons)
  have 2: "cli_lines (''enable firewall'' @ NL # ''quit'' @ [NL]) = [''enable firewall'' @ [NL], ''quit'' @ [NL]]"
    using e [of "''quit'' @ [NL]"] q n
    by (simp add: cli_lines.simps [of "''enable firewall'' @ NL # ''quit'' @ [NL]"] cli_lines.simps [of "''quit'' @ [NL]"] del: append_Cons)
  show ?thesis
    unfolding run_cli_termination [OF i] 1 2
    by (simp add: quits_def strncmp_eq_def c_str_def NL_def cli_command_def)
qed

end
