(* ===== verification/Startups.thy ===== *)
theory Startups
  imports Nat_Startup Nat_Flow Packet_Build Lpm Vxlan Control_Data Acl Nat_Sim Pipeline Metering Graph_Fw
begin

text \<open>
  The start-up code of the programs together: those that check every call never enter their
  packet loop with a port that is not ready; those that ignore the results of the port calls
  may.
\<close>

lemma checked_starts:
  "starts_port (\<lambda>r. r = 0) main_start 0"
  "starts_port (\<lambda>_. True) pp_main_start 0" "starts_port (\<lambda>m. m \<noteq> 0) tx_main_start 0"
  "starts_port (\<lambda>_. True) swap_main_start 0" "starts_port (\<lambda>_. True) swap_main_start 1"
  "starts_port (\<lambda>_. True) change_main_start 0" "starts_port (\<lambda>_. True) lpm_main_start 0"
  "starts_port (\<lambda>_. True) vxlan_main_start 0" "starts_port (\<lambda>_. True) vxlan_main_start 1"
  "starts_port (\<lambda>_. True) cd_main_start 0" "starts_port (\<lambda>_. True) real_main_start 0"
  "starts_port (\<lambda>_. True) exp_main_start 0" "starts_port (\<lambda>_. True) pipeline_main_start 0"
  unfolding main_start_def create_mempool_def init_port_def pp_main_start_def pp_init_eal_def pp_create_mempool_def
    pp_init_port_def tx_main_start_def tx_init_port_def swap_main_start_def swap_port_def change_main_start_def
    lpm_main_start_def init_lpm_def lpm_init_port_def vxlan_main_start_def vxlan_port_init_def cd_main_start_def
    cd_init_port_def real_main_start_def exp_main_start_def pipeline_main_start_def
  by (rule starts_portI [where E = ok_env]; auto simp: monitor_simps ok_env_def split: if_splits)+

text \<open>A device that refuses every configuration.\<close>

definition bad_device :: env where
  "bad_device tr c = (case c of Rte_eth_dev_configure _ _ _ \<Rightarrow> -22 | Rte_eth_rx_queue_setup _ _ _ _ \<Rightarrow> -22
     | Rte_eth_tx_queue_setup _ _ _ \<Rightarrow> -22 | Rte_eth_dev_start _ \<Rightarrow> -22 | _ \<Rightarrow> ok_env tr c)"

lemma bad_device_not_ready: "\<not> port_ready bad_device tr p"
  by (auto simp: port_ready_def ok_at_def bad_device_def)

lemma unchecked_runs:
  "\<exists>x tr. gp_main_start bad_device [] = (Done x, tr)" "\<exists>x tr. rd_main_start bad_device [] = (Done x, tr)"
  "\<exists>x tr. fw_main_start bad_device [] = (Done x, tr)" "\<exists>x tr. sim_main_start bad_device [] = (Done x, tr)"
  by (simp_all add: gp_main_start_def rd_main_start_def fw_main_start_def fw_port_init_def sim_main_start_def
      must_eq nonnull_eq call_p_def done_p_def rte_exit_def bad_device_def ok_env_def)

lemma not_starts: "\<exists>x tr. P bad_device [] = (Done x, tr) \<Longrightarrow> \<not> starts_port (\<lambda>_. True) P p"
  unfolding starts_port_def using bad_device_not_ready by blast

end
