(* ===== verification/Graph_Testing.thy ===== *)
theory Graph_Testing
  imports Graph_Pipeline
begin

text \<open>
  \<open>graph/testing/main.c\<close> measures the same three steps as plain function calls and as graph
  nodes, and \<open>graph/two_start_node/main.c\<close> runs two sources until ten packets were made.
\<close>

unbundle bit_operations_syntax

subsection \<open>testing/main.c\<close>

definition gt_parse :: "mbuf \<Rightarrow> mbuf" where
  "gt_parse m = wr8 m 0 (rd8 m 0 XOR 1)"

definition classify :: "mbuf \<Rightarrow> mbuf" where
  "classify m = wr8 m 1 (rd8 m 1 XOR 2)"

definition forward :: "mbuf \<Rightarrow> mbuf" where
  "forward m = wr8 m 2 (rd8 m 2 XOR 3)"

definition run_normal_pipeline :: "mbuf list \<Rightarrow> mbuf list" where
  "run_normal_pipeline pkts = map (\<lambda>m. forward (classify (gt_parse m))) pkts"

datatype gt_node = Gt_start | Gt_parse | Gt_classify | Gt_forward

instance gt_node :: finite
proof
  have "(UNIV :: gt_node set) = {Gt_start, Gt_parse, Gt_classify, Gt_forward}" by (auto intro: gt_node.exhaust)
  then show "finite (UNIV :: gt_node set)" by (metis finite.emptyI finite.insertI)
qed

text \<open>The last node keeps the packets: they stay in the program's array.\<close>

fun gt_process :: "gt_node \<Rightarrow> mbuf list \<Rightarrow> node_out" where
  "gt_process Gt_start objs = \<lparr>enq = [(0, objs)], n_sent = [], n_freed = [], n_lost = []\<rparr>"
| "gt_process Gt_parse objs = \<lparr>enq = [(0, map gt_parse objs)], n_sent = [], n_freed = [], n_lost = []\<rparr>"
| "gt_process Gt_classify objs = \<lparr>enq = [(0, map classify objs)], n_sent = [], n_freed = [], n_lost = []\<rparr>"
| "gt_process Gt_forward objs = \<lparr>enq = [], n_sent = [], n_freed = [], n_lost = map forward objs\<rparr>"

fun gt_next :: "gt_node \<Rightarrow> nat \<Rightarrow> gt_node option" where
  "gt_next Gt_start e = (if e = 0 then Some Gt_parse else None)"
| "gt_next Gt_parse e = (if e = 0 then Some Gt_classify else None)"
| "gt_next Gt_classify e = (if e = 0 then Some Gt_forward else None)"
| "gt_next Gt_forward e = None"

definition gt_graph :: "(unit, gt_node) graph" where
  "gt_graph = \<lparr>next_node = gt_next, process = (\<lambda>s n ps. Some (s, gt_process n ps)), other = (\<lambda>_ _. False)\<rparr>"

text \<open>
  The measured loop: bursts of 32 are enqueued on the first edge of the source, that is to the
  parse node, and the graph is walked to the end after each.
\<close>

inductive graph_bursts :: "mbuf list \<Rightarrow> mbuf list \<Rightarrow> bool" where
  nil: "graph_bursts [] []"
| burst: "pkts \<noteq> [] \<Longrightarrow> walk gt_graph (walk_from () Gt_parse (take 32 pkts)) k st \<Longrightarrow> walk_done st \<Longrightarrow>
    graph_bursts (drop 32 pkts) out \<Longrightarrow> graph_bursts pkts (w_lost st @ out)"

text \<open>The start-up. The results of the allocations and of the look-up are not checked.\<close>

primrec alloc_pkts :: "nat \<Rightarrow> int \<Rightarrow> 'a prog \<Rightarrow> 'a prog" where
  "alloc_pkts 0 mp k = k"
| "alloc_pkts (Suc n) mp k = call_p (Rte_pktmbuf_alloc mp) (\<lambda>_. alloc_pkts n mp k)"

definition gt_main_start :: "int prog" where
  "gt_main_start =
     call_p Rte_eal_init (\<lambda>_.
     call_p (Rte_pktmbuf_pool_create ''MBUF_POOL'' 100000 256) (\<lambda>mp. if mp = 0 then done_p (-1) else
     alloc_pkts 100000 mp
     (call_p (Rte_graph_create ''demo_graph'') (\<lambda>id. if id = 65535 then done_p (-1) else
     call_p (Rte_graph_lookup ''demo_graph'') (\<lambda>_. done_p 0)))))"

fun gt_rank :: "gt_node \<Rightarrow> nat" where
  "gt_rank Gt_start = 3" | "gt_rank Gt_parse = 2" | "gt_rank Gt_classify = 1" | "gt_rank Gt_forward = 0"

lemma step_ids [simp]: "mbuf_id (gt_parse m) = mbuf_id m" "mbuf_id (classify m) = mbuf_id m" "mbuf_id (forward m) = mbuf_id m"
  by (simp_all add: gt_parse_def classify_def forward_def)

interpretation gt: graph_nodes gt_graph gt_rank cap for cap
proof
  fix ps :: "mbuf list" and s n
  show "\<exists>s' r. process gt_graph s n ps = Some (s', r) \<and>
      ids (concat (map snd (enq r))) + ids (n_sent r) + ids (n_freed r) + ids (n_lost r) = ids ps"
    by (cases n) (simp_all add: gt_graph_def multiset.map_comp comp_def)
next
  fix ps s n s' r e qs
  assume "process gt_graph s n ps = Some (s', r)" "(e, qs) \<in> set (enq r)"
  then show "\<exists>n'. next_node gt_graph n e = Some n' \<and> gt_rank n' < gt_rank n"
    by (cases n) (auto simp: gt_graph_def)
qed

text \<open>The result still to come is determined at every point of a walk.\<close>

definition gt_result :: "(unit, gt_node) walk_state \<Rightarrow> mbuf list" where
  "gt_result st = w_lost st @ map forward (pend st Gt_forward) @ map (forward \<circ> classify) (pend st Gt_classify) @
     map (forward \<circ> classify \<circ> gt_parse) (pend st Gt_parse @ pend st Gt_start)"

lemma gt_result_run: "run_node gt_graph n st = Some st' \<Longrightarrow> gt_result st' = gt_result st"
  by (cases n) (auto simp: run_node_def gt_graph_def gt_result_def)

lemma gt_result_walk: "walk gt_graph st k st' \<Longrightarrow> gt_result st' = gt_result st"
  by (induction rule: walk.induct) (auto simp: gt_result_run, simp add: gt_graph_def)

lemma gt_burst:
  assumes "walk gt_graph (walk_from () Gt_parse pkts) k st" "walk_done st"
  shows "w_lost st = run_normal_pipeline pkts"
  using gt_result_walk [OF assms(1)] assms(2)
  by (simp add: gt_result_def walk_from_def walk_done_def run_normal_pipeline_def comp_def)

lemma graph_bursts_exists: "\<exists>out. graph_bursts pkts out"
proof (induction "length pkts" arbitrary: pkts rule: less_induct)
  case less
  show ?case
  proof (cases "pkts = []")
    case True
    then show ?thesis using graph_bursts.nil by blast
  next
    case False
    obtain k st where "walk gt_graph (walk_from () Gt_parse (take 32 pkts)) k st" "walk_done st"
      using gt.walk_completes [of "walk_from () Gt_parse (take 32 pkts)", OF order_refl] by blast
    moreover obtain out where "graph_bursts (drop 32 pkts) out" using less [of "drop 32 pkts"] False by auto
    ultimately show ?thesis using graph_bursts.burst [OF False] by blast
  qed
qed

lemma graph_bursts_eq: "graph_bursts pkts out \<Longrightarrow> out = run_normal_pipeline pkts"
proof (induction rule: graph_bursts.induct)
  case (burst pkts k st out)
  have "run_normal_pipeline (take 32 pkts) @ run_normal_pipeline (drop 32 pkts) = run_normal_pipeline pkts"
    by (simp add: run_normal_pipeline_def flip: map_append)
  with burst gt_burst [OF burst.hyps(2,3)] show ?case by simp
qed (simp add: run_normal_pipeline_def)

lemma xor_twice [simp]: "(x XOR a) XOR a = x" for x a :: u8
  by (simp add: xor.assoc)

lemma normal_twice: "map (\<lambda>m. rd8 m j) (run_normal_pipeline (run_normal_pipeline pkts)) = map (\<lambda>m. rd8 m j) pkts"
  by (cases "j = 0"; cases "j = 1"; cases "j = 2")
    (simp_all add: run_normal_pipeline_def gt_parse_def classify_def forward_def)

text \<open>
  C22. The two measured pipelines compute the same. Running the packets through the graph in
  bursts of 32, in any order of the nodes, can be finished and then leaves every packet as the
  three direct calls do, in the same order. Doing both, one after the other as the program
  does, restores every byte of every packet.
\<close>

theorem graph_equals_normal:
  "(graph_bursts pkts out \<longleftrightarrow> out = run_normal_pipeline pkts) \<and>
   (\<exists>out. graph_bursts (run_normal_pipeline pkts) out \<and> map (\<lambda>m. rd8 m j) out = map (\<lambda>m. rd8 m j) pkts)"
  using graph_bursts_exists graph_bursts_eq normal_twice [of j pkts] by metis

subsection \<open>two_start_node/main.c\<close>

text \<open>A source: the counter and the packets it enqueued, given what the allocation returns.\<close>

definition start_process :: "mbuf option \<Rightarrow> nat \<Rightarrow> nat \<times> mbuf list" where
  "start_process alloc total_prints =
     (if 10 \<le> total_prints then (total_prints, [])
      else (case alloc of None \<Rightarrow> (total_prints, []) | Some m \<Rightarrow> (total_prints + 1, [m])))"

definition worker_process :: "mbuf list \<Rightarrow> mbuf list" where
  "worker_process objs = free_range objs 0 (length objs)"

text \<open>A walk runs both sources and then the worker on what they enqueued; the loop runs until ten.\<close>

fun two_start_loop :: "(mbuf option \<times> mbuf option) list \<Rightarrow> nat \<Rightarrow> (nat \<times> mbuf list) option" where
  "two_start_loop allocs tp =
     (if 10 \<le> tp then Some (tp, [])
      else (case allocs of [] \<Rightarrow> None
        | (a1, a2) # rest \<Rightarrow>
            (case start_process a1 tp of (t1, p1) \<Rightarrow>
              (case start_process a2 t1 of (t2, p2) \<Rightarrow>
                map_option (\<lambda>(t, fr). (t, worker_process (p1 @ p2) @ fr)) (two_start_loop rest t2)))))"

definition ts_main_start :: "unit prog" where
  "ts_main_start =
     must Rte_eal_init ''EAL init failed''
     (nonnull (Rte_pktmbuf_pool_create ''MBUF_POOL'' 1024 256) ''Cannot create mbuf pool'' (\<lambda>mp.
     call_p (Rte_graph_create ''debug_graph'') (\<lambda>id. if id = 65535 then rte_exit ''Graph creation failed'' else
     nonnull (Rte_graph_lookup ''debug_graph'') ''Graph lookup failed'' (\<lambda>_. done_p ()))))"

declare two_start_loop.simps [simp del]

lemma two_start_ten:
  "tp \<le> 10 \<Longrightarrow> two_start_loop allocs tp = Some (t, fr) \<Longrightarrow> t = 10 \<and> length fr = 10 - tp"
proof (induction allocs tp arbitrary: t fr rule: two_start_loop.induct)
  case (1 allocs tp)
  show ?case
  proof (cases "10 \<le> tp")
    case True
    with "1.prems" show ?thesis by (simp add: two_start_loop.simps [of allocs])
  next
    case False
    then obtain a1 a2 rest where al: "allocs = (a1, a2) # rest"
      using "1.prems"(2) by (cases allocs) (auto simp: two_start_loop.simps [of "[]"])
    obtain t1 p1 where s1: "start_process a1 tp = (t1, p1)" by (cases "start_process a1 tp")
    obtain t2 p2 where s2: "start_process a2 t1 = (t2, p2)" by (cases "start_process a2 t1")
    from False "1.prems"(2) obtain fr' where r: "two_start_loop rest t2 = Some (t, fr')" and fr: "fr = worker_process (p1 @ p2) @ fr'"
      by (auto simp: two_start_loop.simps [of "(a1, a2) # rest"] al s1 s2)
    have len: "length p1 = t1 - tp" "tp \<le> t1" "t1 \<le> 10" "length p2 = t2 - t1" "t1 \<le> t2" "t2 \<le> 10"
      using s1 s2 False by (auto simp: start_process_def split: if_splits option.splits)
    from "1.IH" [OF False al refl s1 [symmetric] s2 [symmetric] len(6) r] len show ?thesis
      by (simp add: fr worker_process_def free_range_drop)
  qed
qed

end
