(* ===== verification/Feature_Arc.thy ===== *)
theory Feature_Arc
  imports Prelude
begin

text \<open>
  The feature arc of \<open>feature_arc/sample/main.c\<close>: a table of named nodes with links, and a list
  of features that can be switched on and off; rebuilding the arc links the start node through
  the features that are on to the end node.

  The arrays hold 16 nodes and 8 features; writing past them is \<open>None\<close>, as is a walk along
  the links that does not end. The lists are the entries in use, their length the counter.
\<close>

record node =
  name :: string
  nxt :: "string option"

record feature_arc =
  arc_start :: string
  arc_end :: string
  features :: "string list"
  enabled :: "bool list"

record arc_state =
  nodes :: "node list"
  l3_arc :: feature_arc

definition add_node :: "string \<Rightarrow> arc_state \<Rightarrow> arc_state option" where
  "add_node n st =
     (if length (nodes st) < 16 then Some (st\<lparr>nodes := nodes st @ [\<lparr>name = n, nxt = None\<rparr>]\<rparr>) else None)"

text \<open>The first node of that name; a name that is not there is ignored.\<close>

fun set_next :: "node list \<Rightarrow> string \<Rightarrow> string \<Rightarrow> node list" where
  "set_next [] from to = []"
| "set_next (x # xs) from to = (if name x = from then x\<lparr>nxt := Some to\<rparr> # xs else x # set_next xs from to)"

definition feature_arc_init :: "string \<Rightarrow> string \<Rightarrow> arc_state \<Rightarrow> arc_state" where
  "feature_arc_init s e st = st\<lparr>l3_arc := (l3_arc st)\<lparr>arc_start := s, arc_end := e, features := [], enabled := []\<rparr>\<rparr>"

definition feature_register :: "string \<Rightarrow> arc_state \<Rightarrow> arc_state option" where
  "feature_register n st =
     (if length (features (l3_arc st)) < 8
      then Some (st\<lparr>l3_arc := (l3_arc st)\<lparr>features := features (l3_arc st) @ [n], enabled := enabled (l3_arc st) @ [False]\<rparr>\<rparr>)
      else None)"

definition set_enabled :: "bool \<Rightarrow> string \<Rightarrow> feature_arc \<Rightarrow> feature_arc" where
  "set_enabled b n a = a\<lparr>enabled := map (\<lambda>(f, on). if f = n then b else on) (zip (features a) (enabled a))\<rparr>"

definition feature_enable :: "string \<Rightarrow> arc_state \<Rightarrow> arc_state" where
  "feature_enable n st = st\<lparr>l3_arc := set_enabled True n (l3_arc st)\<rparr>"

definition feature_disable :: "string \<Rightarrow> arc_state \<Rightarrow> arc_state" where
  "feature_disable n st = st\<lparr>l3_arc := set_enabled False n (l3_arc st)\<rparr>"

fun rebuild_loop :: "node list \<Rightarrow> string \<Rightarrow> (string \<times> bool) list \<Rightarrow> node list \<times> string" where
  "rebuild_loop ns prev [] = (ns, prev)"
| "rebuild_loop ns prev ((f, on) # fs) =
     (if on then rebuild_loop (set_next ns prev f) f fs else rebuild_loop ns prev fs)"

definition feature_arc_rebuild :: "arc_state \<Rightarrow> arc_state" where
  "feature_arc_rebuild st =
     (let a = l3_arc st; (ns, prev) = rebuild_loop (nodes st) (arc_start a) (zip (features a) (enabled a))
      in st\<lparr>nodes := set_next ns prev (arc_end a)\<rparr>)"

text \<open>The inner loop of the printer does not stop at a match: the last node of the name counts.\<close>

definition next_of :: "node list \<Rightarrow> string \<Rightarrow> string option" where
  "next_of ns cur = foldl (\<lambda>r x. if name x = cur then nxt x else r) None ns"

partial_function (option) dump_from :: "node list \<Rightarrow> string \<Rightarrow> string list \<Rightarrow> string list option" where
  "dump_from ns cur out =
     (case next_of ns cur of None \<Rightarrow> Some (out @ [cur])
      | Some next \<Rightarrow> dump_from ns next (out @ [cur]))"

definition dump_pipeline :: "arc_state \<Rightarrow> string list option" where
  "dump_pipeline st = dump_from (nodes st) (arc_start (l3_arc st)) []"

definition arc_zero :: arc_state where
  "arc_zero = \<lparr>nodes = [], l3_arc = \<lparr>arc_start = [], arc_end = [], features = [], enabled = []\<rparr>\<rparr>"

definition arc_setup :: "arc_state option" where
  "arc_setup =
     Option.bind (add_node ''L3'' arc_zero) (\<lambda>st.
     Option.bind (add_node ''Firewall'' st) (\<lambda>st.
     Option.bind (add_node ''NAT'' st) (\<lambda>st.
     Option.bind (add_node ''QoS'' st) (\<lambda>st.
     Option.bind (add_node ''L4'' st) (\<lambda>st.
     Option.bind (feature_register ''Firewall'' (feature_arc_init ''L3'' ''L4'' st)) (\<lambda>st.
     Option.bind (feature_register ''NAT'' st) (\<lambda>st.
     feature_register ''QoS'' st)))))))"

text \<open>The five cases of \<open>main\<close>, each printed.\<close>

definition arc_main :: "string list option list" where
  "arc_main =
     (case arc_setup of None \<Rightarrow> []
      | Some st \<Rightarrow>
          (let s1 = feature_arc_rebuild st;
               s2 = feature_arc_rebuild (feature_enable ''Firewall'' s1);
               s3 = feature_arc_rebuild (feature_enable ''NAT'' s2);
               s4 = feature_arc_rebuild (feature_enable ''QoS'' (feature_disable ''NAT'' (feature_disable ''Firewall'' s3)));
               s5 = feature_arc_rebuild (feature_enable ''NAT'' (feature_enable ''Firewall'' s4))
           in map dump_pipeline [s1, s2, s3, s4, s5]))"

subsection \<open>Links\<close>

lemma next_of_Nil [simp]: "next_of [] c = None"
  by (simp add: next_of_def)

lemma next_of_absent: "c \<notin> name ` set ns \<Longrightarrow> foldl (\<lambda>r x. if name x = c then nxt x else r) r ns = r"
  by (induction ns arbitrary: r) auto

lemma next_of_Cons:
  "name x \<notin> name ` set ns \<Longrightarrow> next_of (x # ns) c = (if name x = c then nxt x else next_of ns c)"
  by (auto simp: next_of_def next_of_absent)

lemma set_next_names [simp]: "map name (set_next ns f t) = map name ns"
  by (induction ns) auto

lemma set_next_name_set: "name ` set (set_next ns f t) = name ` set ns"
  using set_next_names [of ns f t] by (metis list.set_map)

lemma next_of_set_next:
  assumes "distinct (map name ns)" "f \<in> name ` set ns"
  shows "next_of (set_next ns f t) = (next_of ns)(f \<mapsto> t)"
  using assms
proof (induction ns)
  case (Cons x ns)
  then show ?case
    by (auto simp: fun_eq_iff next_of_Cons set_next_name_set)
qed simp

text \<open>A chain of links laid over existing ones.\<close>

fun chain :: "(string \<rightharpoonup> string) \<Rightarrow> string list \<Rightarrow> (string \<rightharpoonup> string)" where
  "chain m (a # b # xs) = chain (m(a \<mapsto> b)) (b # xs)"
| "chain m xs = m"

lemma chain_absent: "c \<notin> set (butlast xs) \<Longrightarrow> chain m xs c = m c"
  by (induction m xs rule: chain.induct) auto

lemma chain_hd: "distinct (a # b # xs) \<Longrightarrow> chain m (a # b # xs) a = Some b"
  by (subst chain.simps(1), subst chain_absent) (auto dest: in_set_butlastD)

lemma rebuild_loop_links:
  assumes "rebuild_loop ns prev fs = (ns', last')" "distinct (map name ns)"
    "prev \<in> name ` set ns" "fst ` set fs \<subseteq> name ` set ns"
  shows "next_of (set_next ns' last' e) = chain (next_of ns) (prev # map fst (filter snd fs) @ [e])"
  using assms
proof (induction ns prev fs rule: rebuild_loop.induct)
  case (1 ns prev)
  then show ?case by (simp add: next_of_set_next)
next
  case (2 ns prev f on fs)
  show ?case
  proof (cases on)
    case True
    with "2.prems" have "next_of (set_next ns' last' e) = chain (next_of (set_next ns prev f)) (f # map fst (filter snd fs) @ [e])"
      by (intro "2.IH"(1)) (simp_all add: set_next_name_set)
    also have "next_of (set_next ns prev f) = (next_of ns)(prev \<mapsto> f)" by (rule next_of_set_next [OF "2.prems"(2,3)])
    also have "chain ((next_of ns)(prev \<mapsto> f)) (f # map fst (filter snd fs) @ [e]) =
        chain (next_of ns) (prev # map fst (filter snd ((f, on) # fs)) @ [e])" using True by simp
    finally show ?thesis .
  next
    case False
    with 2 show ?thesis by simp
  qed
qed

text \<open>Following a chain of different names prints it.\<close>

lemma dump_chain:
  assumes "distinct (a # xs)" "\<And>c. c \<in> set (a # xs) \<Longrightarrow> next_of ns c = chain m (a # xs) c"
    "m (List.last (a # xs)) = None"
  shows "dump_from ns a out = Some (out @ a # xs)"
  using assms
proof (induction xs arbitrary: a m out)
  case Nil
  then show ?case by (simp add: dump_from.simps)
next
  case (Cons b xs)
  have "next_of ns a = Some b" using Cons.prems(1) Cons.prems(2) [of a] chain_hd [of a b xs m] by simp
  then have "dump_from ns a out = dump_from ns b (out @ [a])" by (simp add: dump_from.simps [of ns a])
  also have "\<dots> = Some ((out @ [a]) @ b # xs)"
  proof (rule Cons.IH)
    show "distinct (b # xs)" using Cons.prems(1) by simp
    show "next_of ns c = chain (m(a \<mapsto> b)) (b # xs) c" if "c \<in> set (b # xs)" for c
      using Cons.prems(2) [of c] that by simp
    have "List.last (b # xs) \<in> set (b # xs)" by (rule last_in_set) simp
    then have "List.last (b # xs) \<noteq> a" using Cons.prems(1) by auto
    then show "(m(a \<mapsto> b)) (List.last (b # xs)) = None" using Cons.prems(3) by (simp del: last.simps) simp
  qed
  finally show ?case by simp
qed

subsection \<open>The invariant\<close>

definition arc_ok :: "arc_state \<Rightarrow> bool" where
  "arc_ok st \<longleftrightarrow> distinct (map name (nodes st)) \<and> length (nodes st) \<le> 16 \<and> length (features (l3_arc st)) \<le> 8 \<and>
     length (enabled (l3_arc st)) = length (features (l3_arc st)) \<and>
     distinct (arc_start (l3_arc st) # features (l3_arc st) @ [arc_end (l3_arc st)]) \<and>
     set (arc_start (l3_arc st) # features (l3_arc st) @ [arc_end (l3_arc st)]) \<subseteq> name ` set (nodes st) \<and>
     next_of (nodes st) (arc_end (l3_arc st)) = None"

definition on_features :: "arc_state \<Rightarrow> string list" where
  "on_features st = map fst (filter snd (zip (features (l3_arc st)) (enabled (l3_arc st))))"

datatype arc_op = Enable string | Disable string | Rebuild

fun arc_step :: "arc_op \<Rightarrow> arc_state \<Rightarrow> arc_state" where
  "arc_step (Enable n) st = feature_enable n st"
| "arc_step (Disable n) st = feature_disable n st"
| "arc_step Rebuild st = feature_arc_rebuild st"

lemma map_filter_zip_set: "set (map fst (filter snd (zip xs ys))) \<subseteq> set xs"
  by (auto dest: set_zip_leftD)

lemma map_filter_zip_distinct: "distinct xs \<Longrightarrow> distinct (map fst (filter snd (zip xs ys)))"
proof (induction xs arbitrary: ys)
  case (Cons x xs)
  show ?case
  proof (cases ys)
    case (Cons b bs)
    have "x \<notin> set (map fst (filter snd (zip xs bs)))" using map_filter_zip_set [of xs bs] Cons.prems by auto
    then show ?thesis using Cons.IH [of bs] Cons.prems Cons by simp
  qed simp
qed simp

lemma on_features_path:
  assumes "arc_ok st"
  shows "distinct (arc_start (l3_arc st) # on_features st @ [arc_end (l3_arc st)])"
  using assms map_filter_zip_set [of "features (l3_arc st)" "enabled (l3_arc st)"]
    map_filter_zip_distinct [of "features (l3_arc st)" "enabled (l3_arc st)"]
  unfolding arc_ok_def on_features_def by auto

lemma rebuild_links:
  assumes "arc_ok st"
  shows "next_of (nodes (feature_arc_rebuild st)) =
    chain (next_of (nodes st)) (arc_start (l3_arc st) # on_features st @ [arc_end (l3_arc st)])"
proof -
  let ?a = "l3_arc st"
  obtain ns prev where r: "rebuild_loop (nodes st) (arc_start ?a) (zip (features ?a) (enabled ?a)) = (ns, prev)"
    by (cases "rebuild_loop (nodes st) (arc_start ?a) (zip (features ?a) (enabled ?a))")
  have "fst ` set (zip (features ?a) (enabled ?a)) \<subseteq> name ` set (nodes st)"
    using assms by (auto simp: arc_ok_def dest: set_zip_leftD)
  with rebuild_loop_links [OF r, of "arc_end ?a"] assms show ?thesis
    by (simp add: feature_arc_rebuild_def r on_features_def arc_ok_def)
qed

lemma rebuild_frame: "l3_arc (feature_arc_rebuild st) = l3_arc st"
  by (simp add: feature_arc_rebuild_def Let_def split: prod.split)

lemma rebuild_loop_names:
  "rebuild_loop ns prev fs = (ns', l) \<Longrightarrow> map name ns' = map name ns"
  by (induction ns prev fs rule: rebuild_loop.induct) (auto split: if_splits)

lemma rebuild_names: "map name (nodes (feature_arc_rebuild st)) = map name (nodes st)"
  by (auto simp: feature_arc_rebuild_def Let_def dest: rebuild_loop_names split: prod.split)

lemma arc_ok_rebuild:
  assumes "arc_ok st"
  shows "arc_ok (feature_arc_rebuild st)"
proof -
  let ?a = "l3_arc st" and ?s = "feature_arc_rebuild st"
  have n: "map name (nodes ?s) = map name (nodes st)" by (rule rebuild_names)
  then have "length (nodes ?s) = length (nodes st)" "name ` set (nodes ?s) = name ` set (nodes st)"
    by (metis length_map, metis list.set_map)
  moreover have "next_of (nodes ?s) (arc_end ?a) = None"
  proof -
    have "arc_end ?a \<notin> set (butlast (arc_start ?a # on_features st @ [arc_end ?a]))"
      using on_features_path [OF assms] by (auto simp: butlast_append)
    then have "next_of (nodes ?s) (arc_end ?a) = next_of (nodes st) (arc_end ?a)"
      unfolding rebuild_links [OF assms] by (rule chain_absent)
    then show ?thesis using assms by (simp add: arc_ok_def)
  qed
  ultimately show ?thesis using assms n by (simp add: arc_ok_def rebuild_frame)
qed

lemma set_enabled_frame [simp]:
  "arc_start (set_enabled b n a) = arc_start a" "arc_end (set_enabled b n a) = arc_end a"
  "features (set_enabled b n a) = features a" "length (enabled a) = length (features a) \<Longrightarrow> length (enabled (set_enabled b n a)) = length (features a)"
  by (simp_all add: set_enabled_def)

lemma arc_ok_step: "arc_ok st \<Longrightarrow> arc_ok (arc_step op st)"
proof (cases op)
  case Rebuild
  then show "arc_ok st \<Longrightarrow> arc_ok (arc_step op st)" by (simp add: arc_ok_rebuild)
qed (auto simp: arc_ok_def feature_enable_def feature_disable_def)


lemma dump_rebuilt:
  assumes "arc_ok st"
  shows "dump_pipeline (feature_arc_rebuild st) = Some (arc_start (l3_arc st) # on_features st @ [arc_end (l3_arc st)])"
proof -
  let ?a = "l3_arc st" and ?s = "feature_arc_rebuild st"
  have "dump_from (nodes ?s) (arc_start ?a) [] = Some ([] @ arc_start ?a # (on_features st @ [arc_end ?a]))"
  proof (rule dump_chain)
    show "distinct (arc_start ?a # on_features st @ [arc_end ?a])" by (rule on_features_path [OF assms])
    show "next_of (nodes ?s) c = chain (next_of (nodes st)) (arc_start ?a # on_features st @ [arc_end ?a]) c" for c
      by (simp only: rebuild_links [OF assms])
    show "next_of (nodes st) (List.last (arc_start ?a # on_features st @ [arc_end ?a])) = None"
      using assms by (simp add: arc_ok_def)
  qed
  then show ?thesis by (simp add: dump_pipeline_def rebuild_frame)
qed





definition demo_arc :: arc_state where
  "demo_arc = \<lparr>nodes = map (\<lambda>n. \<lparr>name = n, nxt = None\<rparr>) [''L3'', ''Firewall'', ''NAT'', ''QoS'', ''L4''],
     l3_arc = \<lparr>arc_start = ''L3'', arc_end = ''L4'', features = [''Firewall'', ''NAT'', ''QoS''], enabled = [False, False, False]\<rparr>\<rparr>"

lemma arc_setup_demo: "arc_setup = Some demo_arc"
  by (simp add: arc_setup_def add_node_def feature_register_def feature_arc_init_def arc_zero_def demo_arc_def)

lemma demo_arc_ok: "arc_ok demo_arc"
  by (simp add: arc_ok_def demo_arc_def next_of_def)


text \<open>What the program prints.\<close>

lemma arc_main_output:
  "arc_main = [Some [''L3'', ''L4''], Some [''L3'', ''Firewall'', ''L4''], Some [''L3'', ''Firewall'', ''NAT'', ''L4''],
     Some [''L3'', ''QoS'', ''L4''], Some [''L3'', ''Firewall'', ''NAT'', ''QoS'', ''L4'']]"
proof -
  have ok: "arc_ok st \<Longrightarrow> arc_ok (feature_enable n st)" "arc_ok st \<Longrightarrow> arc_ok (feature_disable n st)" for n st
    using arc_ok_step [of st "Enable n"] arc_ok_step [of st "Disable n"] by simp_all
  have l3: "l3_arc (feature_enable n st) = set_enabled True n (l3_arc st)"
    "l3_arc (feature_disable n st) = set_enabled False n (l3_arc st)" for n st
    by (simp_all add: feature_enable_def feature_disable_def)
  show ?thesis
    by (simp add: arc_main_def arc_setup_demo Let_def dump_rebuilt ok arc_ok_rebuild demo_arc_ok)
      (simp add: on_features_def l3 rebuild_frame set_enabled_def demo_arc_def)
qed

end
