(* ===== verification/Reorder.thy ===== *)
theory Reorder
  imports Burst Startup
begin

text \<open>
  The reordering programs: \<open>reordering/dynamic_seqno\<close> numbers the first ten packets it receives
  and exits; \<open>reordering/rx_burst\<close> (\<open>main2.c\<close>; \<open>main.c\<close> differs in sizes and in how it
  reaches the sequence number) and \<open>reordering/sample\<close> pass numbered packets through
  \<open>rte_reorder\<close>.

  \<open>rte_reorder\<close> is the parameter \<open>reorder_api\<close>. Documented behaviour, \<open>reorder_laws\<close>: a
  buffer holds packets with their numbers; an insertion adds the packet or is refused and
  changes nothing; draining removes at most as many packets as asked for and delivers them in
  ascending order. The locale \<open>reorder_buffer\<close> is that contract.
\<close>

type_synonym numbered = "u32 \<times> mbuf"

record 'r reorder_api =
  reorder_insert :: "'r \<Rightarrow> numbered \<Rightarrow> int \<times> 'r"
  reorder_drain :: "'r \<Rightarrow> nat \<Rightarrow> numbered list \<times> 'r"
  reorder_held :: "'r \<Rightarrow> numbered multiset"

definition reorder_laws :: "'r reorder_api \<Rightarrow> bool" where
  "reorder_laws R \<longleftrightarrow>
     (\<forall>b x r b'. reorder_insert R b x = (r, b') \<longrightarrow>
        reorder_held R b' = (if r < 0 then reorder_held R b else add_mset x (reorder_held R b))) \<and>
     (\<forall>b n out b'. reorder_drain R b n = (out, b') \<longrightarrow>
        length out \<le> n \<and> reorder_held R b = mset out + reorder_held R b' \<and> sorted (map fst out))"



locale reorder_buffer =
  fixes insert_b :: "'r \<Rightarrow> numbered \<Rightarrow> int \<times> 'r" and drain_b :: "'r \<Rightarrow> nat \<Rightarrow> numbered list \<times> 'r"
    and held :: "'r \<Rightarrow> numbered multiset" and ok :: bool
  assumes insert_law: "ok \<Longrightarrow> insert_b b x = (r, b') \<Longrightarrow> held b' = (if r < 0 then held b else add_mset x (held b))"
    and drain_law: "ok \<Longrightarrow> drain_b b n = (out, b') \<Longrightarrow>
      length out \<le> n \<and> held b = mset out + held b' \<and> sorted (map fst out)"
begin

text \<open>Inserting a list of packets, collecting the refused ones.\<close>

fun insert_all :: "'r \<Rightarrow> numbered list \<Rightarrow> 'r \<times> numbered list" where
  "insert_all b [] = (b, [])"
| "insert_all b (x # xs) =
     (case insert_b b x of (r, b1) \<Rightarrow> (case insert_all b1 xs of (b2, refused) \<Rightarrow>
        (b2, if r < 0 then x # refused else refused)))"

lemma insert_all_held:
  assumes "ok" "insert_all b xs = (b', refused)"
  shows "held b' + mset refused = held b + mset xs"
  using assms(2)
proof (induction xs arbitrary: b b' refused)
  case (Cons x xs)
  obtain r b1 where i: "insert_b b x = (r, b1)" by (cases "insert_b b x")
  obtain b2 ref2 where a: "insert_all b1 xs = (b2, ref2)" by (cases "insert_all b1 xs")
  from Cons.IH [OF a] insert_law [OF assms(1) i] Cons.prems i a show ?case
    by (auto split: if_splits)
qed simp

end

interpretation rte_reorder: reorder_buffer "reorder_insert R" "reorder_drain R" "reorder_held R" "reorder_laws R" for R
  by unfold_locales (auto simp: reorder_laws_def)

subsection \<open>dynamic_seqno/main.c\<close>

definition register_seqno_dynfield :: "int prog" where
  "register_seqno_dynfield =
     call_p (Rte_mbuf_dynfield_register ''example_seq_no'' 4) (\<lambda>off.
       if off < 0 then rte_exit ''Failed to register dynamic field'' else done_p off)"

definition seqno_port_init :: "nat \<Rightarrow> int \<Rightarrow> int prog" where
  "seqno_port_init port mp =
     call_p (Rte_eth_dev_is_valid_port port) (\<lambda>v. if v = 0 then done_p (-1) else
     call_p (Rte_eth_dev_configure port 1 0) (\<lambda>r. if r < 0 then done_p r else
     call_p (Rte_eth_rx_queue_setup port 0 128 mp) (\<lambda>r. if r < 0 then done_p r else
     call_p (Rte_eth_dev_start port) (\<lambda>r. if r < 0 then done_p r else done_p 0))))"

definition seqno_main_start :: "int prog" where
  "seqno_main_start =
     must Rte_eal_init ''Error with EAL init''
     (nonnull (Rte_pktmbuf_pool_create ''MBUF_POOL'' 8192 256) ''Cannot create mbuf pool'' (\<lambda>mp.
     bind_p register_seqno_dynfield (\<lambda>off.
     bind_p (seqno_port_init 0 mp) (\<lambda>r. if r \<noteq> 0 then rte_exit ''Cannot init port 0'' else done_p off))))"

text \<open>The loop over a burst: the numbers assigned, and the counter. Every packet is freed.\<close>

fun seqno_burst :: "u32 \<Rightarrow> mbuf list \<Rightarrow> u32 \<times> numbered list" where
  "seqno_burst seq [] = (seq, [])"
| "seqno_burst seq (m # pkts) =
     (if seq < 10 then (case seqno_burst (seq + 1) pkts of (s, as) \<Rightarrow> (s, (seq, m) # as))
      else seqno_burst seq pkts)"

text \<open>
  The receive loop on the bursts the NIC delivers: the numbers assigned and the packets freed
  when it exits, \<open>None\<close> when it is still waiting after the last of them.
\<close>

fun lcore_main_loop :: "u32 \<Rightarrow> mbuf list list \<Rightarrow> (numbered list \<times> mbuf list) option" where
  "lcore_main_loop seq [] = None"
| "lcore_main_loop seq (pkts # bs) =
     (if pkts = [] then lcore_main_loop seq bs
      else
        (case seqno_burst seq pkts of (seq', as) \<Rightarrow>
           if 10 \<le> seq' then Some (as, pkts)
           else map_option (\<lambda>(as', fr). (as @ as', pkts @ fr)) (lcore_main_loop seq' bs)))"

subsection \<open>rx_burst/main2.c and main.c\<close>

fun insert_burst :: "'r reorder_api \<Rightarrow> u32 \<Rightarrow> 'r \<Rightarrow> mbuf list \<Rightarrow> u32 \<times> 'r \<times> mbuf list" where
  "insert_burst R seq rbuf [] = (seq, rbuf, [])"
| "insert_burst R seq rbuf (m # rx) =
     (case reorder_insert R rbuf (seq, m) of (r, rbuf1) \<Rightarrow>
        (case insert_burst R (seq + 1) rbuf1 rx of (seq', rbuf2, fr) \<Rightarrow>
           (seq', rbuf2, if r < 0 then m # fr else fr)))"



definition reorder_init_port :: "nat \<Rightarrow> int \<Rightarrow> unit prog" where
  "reorder_init_port port mp =
     must (Rte_eth_dev_configure port 1 0) ''Port configure failed''
     (must (Rte_eth_rx_queue_setup port 0 1024 mp) ''RX queue setup failed''
     (must (Rte_eth_dev_start port) ''Port start failed'' (done_p ())))"

definition reorder_main_start :: "int prog" where
  "reorder_main_start =
     must Rte_eal_init ''EAL init failed''
     (nonnull (Rte_pktmbuf_pool_create ''MBUF_POOL'' 8192 256) ''Mempool create failed'' (\<lambda>mp.
     bind_p (reorder_init_port 0 mp) (\<lambda>_.
     nonnull (Rte_reorder_create ''reorder'' 128) ''Reorder create failed'' done_p)))"

text \<open>The port set-up of \<open>main.c\<close> configures a transmit queue and does not set it up.\<close>

definition reorder1_init_port :: "nat \<Rightarrow> int \<Rightarrow> unit prog" where
  "reorder1_init_port port mp =
     must (Rte_eth_dev_configure port 1 1) ''Port configure failed''
     (must (Rte_eth_rx_queue_setup port 0 1024 mp) ''RX queue setup failed''
     (must (Rte_eth_dev_start port) ''Port start failed'' (done_p ())))"

definition reorder1_main_start :: "int prog" where
  "reorder1_main_start =
     must Rte_eal_init ''EAL failed''
     (nonnull (Rte_pktmbuf_pool_create ''POOL'' 1024 32) ''mempool failed'' (\<lambda>mp.
     bind_p (reorder1_init_port 0 mp) (\<lambda>_.
     nonnull (Rte_reorder_create ''reorder'' 8) ''reorder create failed'' done_p)))"

definition reorder1_iter :: "'r reorder_api \<Rightarrow> u32 \<Rightarrow> 'r \<Rightarrow> mbuf list \<Rightarrow> u32 \<times> 'r \<times> u32 list \<times> mbuf list" where
  "reorder1_iter R seq_counter b rx =
     (if rx = [] then (seq_counter, b, [], [])
      else
        (case insert_burst R seq_counter b rx of (seq', b1, fr) \<Rightarrow>
           (case reorder_drain R b1 8 of (out, b2) \<Rightarrow> (seq', b2, map fst out, fr @ map snd out))))"

subsection \<open>sample/main.c\<close>

definition seq_list :: "u32 list" where
  "seq_list = [0, 2, 1, 4, 3, 6, 5, 7]"

text \<open>Eight allocated packets are inserted; what is printed, and freed. The insert result is ignored.\<close>

fun sample_insert :: "'r reorder_api \<Rightarrow> 'r \<Rightarrow> numbered list \<Rightarrow> 'r" where
  "sample_insert R b [] = b"
| "sample_insert R b (x # xs) = sample_insert R (snd (reorder_insert R b x)) xs"

definition reorder_sample :: "'r reorder_api \<Rightarrow> 'r \<Rightarrow> mbuf list \<Rightarrow> u32 list \<times> mbuf list" where
  "reorder_sample R b ms =
     (case reorder_drain R (sample_insert R b (zip seq_list ms)) 8 of (out, _) \<Rightarrow> (map fst out, map snd out))"

subsection \<open>Properties\<close>

lemma seqno_burst_spec:
  assumes "unat seq \<le> 10"
  shows "seqno_burst seq pkts =
    (of_nat (min 10 (unat seq + length pkts)), zip (map of_nat [unat seq..<10]) (take (10 - unat seq) pkts))"
  using assms
proof (induction seq pkts rule: seqno_burst.induct)
  case (1 seq)
  then show ?case by (simp add: min_def)
next
  case (2 seq m pkts)
  show ?case
  proof (cases "seq < 10")
    case True
    then have lt: "unat seq < 10" by (simp add: word_less_nat_alt)
    then have u: "unat (seq + 1) = unat seq + 1" by (simp add: unat_word_ariths)
    have "[unat seq..<10] = unat seq # [unat seq + 1..<10]" using lt by (simp add: upt_rec)
    moreover have "take (10 - unat seq) (m # pkts) = m # take (10 - (unat seq + 1)) pkts"
    proof -
      have "10 - unat seq = Suc (10 - (unat seq + 1))" using lt by simp
      then show ?thesis by (simp only: take_Suc_Cons)
    qed
    ultimately show ?thesis using "2.IH"(1) [OF True] lt True by (simp add: u)
  next
    case False
    then have "unat seq = 10" using "2.prems" by (simp add: word_less_nat_alt)
    with "2.IH"(2) [OF False "2.prems"] False show ?thesis by simp
  qed
qed


lemma zip_cut: "length xs = length ps \<Longrightarrow> zip (xs @ ys) (ps @ qs) = zip (xs @ ys) ps @ zip ys qs"
  by (simp add: zip_append1)

lemma lcore_main_loop_spec:
  assumes "unat seq < 10"
  shows "(unat seq + length (concat bs) < 10 \<longrightarrow> lcore_main_loop seq bs = None) \<and>
    (10 \<le> unat seq + length (concat bs) \<longrightarrow>
      (\<exists>j. lcore_main_loop seq bs =
         Some (zip (map of_nat [unat seq..<10]) (take (10 - unat seq) (concat bs)), concat (take j bs))))"
  using assms
proof (induction seq bs rule: lcore_main_loop.induct)
  case (1 seq)
  then show ?case by simp
next
  case (2 seq pkts bs)
  let ?n = "unat seq"
  have b: "seqno_burst seq pkts =
      (of_nat (min 10 (?n + length pkts)), zip (map of_nat [?n..<10]) (take (10 - ?n) pkts))"
    using "2.prems" by (intro seqno_burst_spec) simp
  show ?case
  proof (cases "pkts = []")
    case True
    with "2.IH"(1) [OF True "2.prems"] show ?thesis by (auto intro: exI [of _ "Suc _"])
  next
    case ne: False
    show ?thesis
    proof (cases "10 \<le> ?n + length pkts")
      case True
      then have "lcore_main_loop seq (pkts # bs) = Some (zip (map of_nat [?n..<10]) (take (10 - ?n) pkts), pkts)"
        using ne by (simp add: b min_def)
      then show ?thesis using True by (auto intro!: exI [of _ 1])
    next
      case False
      let ?s = "of_nat (?n + length pkts) :: u32"
      have s: "unat ?s = ?n + length pkts" using False by (intro unat_of_nat_u32) simp
      have m: "min 10 (?n + length pkts) = ?n + length pkts" using False by simp
      have lt: "\<not> 10 \<le> ?s" using False s by (simp add: word_le_nat_alt)
      have step: "lcore_main_loop seq (pkts # bs) =
          map_option (\<lambda>(as', fr). (zip (map of_nat [?n..<10]) pkts @ as', pkts @ fr)) (lcore_main_loop ?s bs)"
        using ne lt False by (simp add: b m)
      have z: "zip (map of_nat [?n..<10]) (take (10 - ?n) (pkts @ xs)) =
          zip (map of_nat [?n..<10]) pkts @ zip (map of_nat [?n + length pkts..<10]) (take (10 - (?n + length pkts)) xs)" for xs
      proof -
        have "take (10 - ?n) (pkts @ xs) = pkts @ take (10 - (?n + length pkts)) xs" using False by simp
        moreover have "[?n..<10] = [?n..<?n + length pkts] @ [?n + length pkts..<10]"
          using False by (metis le_add1 linorder_not_le order_less_imp_le upt_add_eq_append le_Suc_ex)
        ultimately show ?thesis by (simp only: map_append) (rule zip_cut, simp)
      qed
      from "2.IH"(2) [OF ne b [symmetric]] lt m s False
      have IH: "(unat ?s + length (concat bs) < 10 \<longrightarrow> lcore_main_loop ?s bs = None) \<and>
        (10 \<le> unat ?s + length (concat bs) \<longrightarrow>
         (\<exists>j. lcore_main_loop ?s bs =
           Some (zip (map of_nat [unat ?s..<10]) (take (10 - unat ?s) (concat bs)), concat (take j bs))))" by simp
      show ?thesis
      proof (cases "10 \<le> unat ?s + length (concat bs)")
        case True
        with IH obtain j where "lcore_main_loop ?s bs =
           Some (zip (map of_nat [unat ?s..<10]) (take (10 - unat ?s) (concat bs)), concat (take j bs))" by blast
        then have "lcore_main_loop seq (pkts # bs) =
            Some (zip (map of_nat [?n..<10]) (take (10 - ?n) (concat (pkts # bs))), concat (take (Suc j) (pkts # bs)))"
          unfolding step concat.simps take_Suc_Cons z by (simp add: s del: of_nat_add)
        then have ex: "\<exists>j. lcore_main_loop seq (pkts # bs) =
            Some (zip (map of_nat [?n..<10]) (take (10 - ?n) (concat (pkts # bs))), concat (take j (pkts # bs)))" by blast
        have "\<not> ?n + length (concat (pkts # bs)) < 10" using True s by simp
        with ex show ?thesis by blast
      next
        case False
        then have "?n + length (concat (pkts # bs)) < 10" "lcore_main_loop ?s bs = None" using IH s by simp_all
        then show ?thesis unfolding step by simp
      qed
    qed
  qed
qed

text \<open>
  Numbering packets ends: the receive loop exits exactly when ten packets have arrived, in
  whatever bursts; the first ten packets then carry the numbers 0 to 9 in the order of
  arrival, and every packet of the bursts read was freed.
\<close>

lemma seqno_loop_termination:
  "((\<exists>r. lcore_main_loop 0 bs = Some r) \<longleftrightarrow> 10 \<le> length (concat bs)) \<and>
   (10 \<le> length (concat bs) \<longrightarrow>
     (\<exists>j. lcore_main_loop 0 bs = Some (zip [0, 1, 2, 3, 4, 5, 6, 7, 8, 9] (take 10 (concat bs)), concat (take j bs))))"
proof -
  have "map of_nat [0..<10] = [0, 1, 2, 3, 4, 5, 6, 7, 8, 9 :: u32]" by (simp add: upt_rec)
  with lcore_main_loop_spec [of 0 bs] show ?thesis by (auto simp: not_le)
qed



lemma insert_burst_all:
  "insert_burst R seq b rx =
     (case rte_reorder.insert_all R b (zip (map (\<lambda>i. seq + of_nat i) [0..<length rx]) rx) of
        (b', refused) \<Rightarrow> (seq + of_nat (length rx), b', map snd refused))"
proof (induction rx arbitrary: seq b)
  case (Cons m rx)
  have z: "zip (map (\<lambda>i. seq + of_nat i) [0..<length (m # rx)]) (m # rx) =
      (seq, m) # zip (map (\<lambda>i. (seq + 1) + of_nat i) [0..<length rx]) rx"
    by (simp add: upt_conv_Cons map_Suc_upt [symmetric] comp_def add.assoc del: upt_Suc)
  show ?case unfolding z by (simp add: Cons.IH split: prod.split)
qed simp

definition held_ids :: "'r reorder_api \<Rightarrow> 'r \<Rightarrow> nat multiset" where
  "held_ids R b = image_mset (mbuf_id \<circ> snd) (reorder_held R b)"

lemma insert_burst_conserves:
  assumes "reorder_laws R" "insert_burst R seq b rx = (seq', b', fr)"
  shows "held_ids R b' + mset (map mbuf_id fr) = held_ids R b + mset (map mbuf_id rx)"
    "seq' = seq + of_nat (length rx)"
proof -
  let ?xs = "zip (map (\<lambda>i. seq + of_nat i) [0..<length rx]) rx"
  obtain refused where a: "rte_reorder.insert_all R b ?xs = (b', refused)" and f: "fr = map snd refused"
    and s: "seq' = seq + of_nat (length rx)"
    using assms(2) by (auto simp: insert_burst_all split: prod.splits)
  from rte_reorder.insert_all_held [OF assms(1) a]
  have "image_mset (mbuf_id \<circ> snd) (reorder_held R b' + mset refused) = image_mset (mbuf_id \<circ> snd) (reorder_held R b + mset ?xs)"
    by simp
  moreover have "image_mset (mbuf_id \<circ> snd) (mset ?xs) = mset (map mbuf_id rx)"
    by (simp flip: mset_map add: map_map [symmetric])
  ultimately show "held_ids R b' + mset (map mbuf_id fr) = held_ids R b + mset (map mbuf_id rx)"
    by (simp add: held_ids_def f flip: multiset.map_comp)
  show "seq' = seq + of_nat (length rx)" by (rule s)
qed

lemma drain_conserves:
  assumes "reorder_laws R" "reorder_drain R b n = (out, b')"
  shows "held_ids R b = mset (map mbuf_id (map snd out)) + held_ids R b'" "sorted (map fst out)" "length out \<le> n"
  using rte_reorder.drain_law [OF assms] by (auto simp: held_ids_def simp flip: multiset.map_comp)




lemma reorder1_iter_conserves:
  assumes "reorder_laws R" "reorder1_iter R seq b rx = (seq', b', printed, fr)"
  shows "held_ids R b' + mset (map mbuf_id fr) = held_ids R b + mset (map mbuf_id rx) \<and> sorted printed"
proof (cases "rx = []")
  case False
  obtain b1 fr1 out where i: "insert_burst R seq b rx = (seq', b1, fr1)" and d: "reorder_drain R b1 8 = (out, b')"
    and f: "fr = fr1 @ map snd out" "printed = map fst out"
    using assms(2) False by (auto simp: reorder1_iter_def split: prod.splits)
  from insert_burst_conserves [OF assms(1) i] drain_conserves [OF assms(1) d] show ?thesis
    by (simp add: f ac_simps)
qed (use assms in \<open>simp add: reorder1_iter_def\<close>)

lemma reorder_sample_sorted: "reorder_laws R \<Longrightarrow> sorted (fst (reorder_sample R b ms)) \<and> length (fst (reorder_sample R b ms)) \<le> 8"
  by (auto simp: reorder_sample_def dest: drain_conserves(2,3) split: prod.split)

lemma seqno_starts:
  "seqno_main_start E [] = (Done off, tr) \<Longrightarrow> port_ready E tr 0 \<and> 0 \<le> off"
  "reorder_main_start E [] = (Done b, tr) \<Longrightarrow> port_ready E tr 0"
  "reorder1_main_start E [] = (Done b, tr) \<Longrightarrow> port_ready E tr 0"
  by (intro conjI monitor_ready(1); auto simp: seqno_main_start_def register_seqno_dynfield_def seqno_port_init_def
      reorder_main_start_def reorder_init_port_def reorder1_main_start_def reorder1_init_port_def monitor_simps split: if_splits)+

end
