(* ===== verification/Rss.thy ===== *)
theory Rss
  imports Startup Burst
begin

text \<open>
  \<open>rss_dpdk/af_packet_rss/main.c\<close>: as many receive queues as there are worker cores and the
  device allows, each polled by one core. The number of cores and the device's limit are
  arguments; cores are named by numbers, the main core is not among the workers.
\<close>

definition used_rx_queues :: "u16 \<Rightarrow> u16 \<Rightarrow> u16" where
  "used_rx_queues lcore_count max_rx_queues =
     (let desired = lcore_count - 1;
          desired = (if desired = 0 then 1 else desired);
          used = (if desired < max_rx_queues then desired else max_rx_queues)
      in if used = 0 then 1 else used)"

definition rss_enabled :: "u16 \<Rightarrow> bool" where
  "rss_enabled used \<longleftrightarrow> 1 < used"

text \<open>\<open>for (q = 0; q < used_rx_queues; q++)\<close>: one checked set-up per queue.\<close>

function setup_queues :: "nat \<Rightarrow> nat \<Rightarrow> int \<Rightarrow> unit prog \<Rightarrow> unit prog" where
  "setup_queues q used mp k =
     (if q < used then must (Rte_eth_rx_queue_setup 0 q 1024 mp) ''RX queue setup failed'' (setup_queues (q + 1) used mp k) else k)"
  by pat_completeness auto
termination
  by (relation "measure (\<lambda>(q, used, mp, k). used - q)") auto

declare setup_queues.simps [simp del]

definition rss_main_start :: "u16 \<Rightarrow> u16 \<Rightarrow> unit prog" where
  "rss_main_start lcore_count max_rx_queues =
     (let used = unat (used_rx_queues lcore_count max_rx_queues)
      in must Rte_eal_init ''EAL init failed''
         (call_p Rte_eth_dev_count_avail (\<lambda>n. if n = 0 then rte_exit ''No Ethernet ports found'' else
          nonnull (Rte_pktmbuf_pool_create ''MBUF_POOL'' 8191 256) ''Cannot create mbuf pool'' (\<lambda>mp.
          call_p (Rte_eth_dev_info_get 0) (\<lambda>_.
          must (Rte_eth_dev_configure 0 used 0) ''Port configure failed''
          (setup_queues 0 used mp
          (must (Rte_eth_dev_start 0) ''Port start failed'' (done_p ()))))))))"

text \<open>The loop over the workers: which core polls which queue, and the next queue.\<close>

fun launch_workers :: "nat list \<Rightarrow> u16 \<Rightarrow> u16 \<Rightarrow> (nat \<times> u16) list \<times> u16" where
  "launch_workers [] q used = ([], q)"
| "launch_workers (c # cs) q used =
     (if used \<le> q then ([], q) else (case launch_workers cs (q + 1) used of (l, q') \<Rightarrow> ((c, q) # l, q')))"

definition rss_polling :: "nat \<Rightarrow> nat list \<Rightarrow> u16 \<Rightarrow> (nat \<times> u16) list" where
  "rss_polling main_core workers used =
     (case launch_workers workers 0 used of (l, q) \<Rightarrow> if q < used then l @ [(main_core, q)] else l)"

definition lcore_rx :: "mbuf list \<Rightarrow> mbuf list" where
  "lcore_rx bufs = (if bufs = [] then [] else free_range bufs 0 (length bufs))"

subsection \<open>Every queue has its core\<close>

lemma used_rx_queues_bounds:
  "1 \<le> unat (used_rx_queues n mx)" "unat (used_rx_queues n mx) \<le> max 1 (unat mx)"
  "1 \<le> unat n \<Longrightarrow> unat (used_rx_queues n mx) \<le> max 1 (unat n - 1)"
proof -
  have pos: "1 \<le> unat x" if "x \<noteq> 0" for x :: u16 using that by (simp add: unat_gt_0 Suc_le_eq)
  show "1 \<le> unat (used_rx_queues n mx)" by (rule pos) (simp add: used_rx_queues_def Let_def)
  show "unat (used_rx_queues n mx) \<le> max 1 (unat mx)"
    by (auto simp: used_rx_queues_def Let_def word_less_nat_alt max_def pos)
  show "unat (used_rx_queues n mx) \<le> max 1 (unat n - 1)" if "1 \<le> unat n"
  proof -
    have "unat (n - 1) = unat n - 1" using that by (simp add: unat_sub word_le_nat_alt)
    then show ?thesis by (auto simp: used_rx_queues_def Let_def word_less_nat_alt max_def unat_eq_0)
  qed
qed

lemma launch_workers_spec:
  assumes "unat q \<le> unat used"
  shows "launch_workers cs q used =
    (zip cs (map of_nat [unat q..<unat used]), of_nat (min (unat used) (unat q + length cs)))"
  using assms
proof (induction cs q used rule: launch_workers.induct)
  case (1 q used)
  then show ?case by (simp add: min_def)
next
  case (2 c cs q used)
  show ?case
  proof (cases "used \<le> q")
    case True
    with "2.prems" have "unat q = unat used" by (simp add: word_le_nat_alt)
    with True show ?thesis by (simp add: word_unat_eq_iff)
  next
    case False
    then have lt: "unat q < unat used" by (simp add: word_le_nat_alt)
    have "unat q + 1 < 65536" using lt unat_u16_less [of used] by linarith
    then have u: "unat (q + 1) = unat q + 1" by (simp add: unat_word_ariths)
    have "[unat q..<unat used] = unat q # [unat q + 1..<unat used]" using lt by (simp add: upt_rec)
    with "2.IH" [OF False] lt False show ?thesis by (simp add: u)
  qed
qed

text \<open>
  Every receive queue is polled by exactly one core. With one main core and the other
  cores as workers, the program configures at least one queue, not more than the device
  allows (or one), and the cores it launches poll the queues 0 to n-1, one each and all on
  different cores.
\<close>

lemma rss_queues_covered:
  assumes "unat lcore_count = Suc (length workers)" "distinct (main_core # workers)"
  shows "let used = used_rx_queues lcore_count max_rx; polls = rss_polling main_core workers used in
    1 \<le> unat used \<and> unat used \<le> max 1 (unat max_rx) \<and>
    map snd polls = map of_nat [0..<unat used] \<and> distinct (map fst polls)"
proof -
  define used where "used = used_rx_queues lcore_count max_rx"
  have le: "unat used \<le> max 1 (length workers)"
    using used_rx_queues_bounds(3) [of lcore_count max_rx] assms(1) by (simp add: used_def)
  have ge: "1 \<le> unat used" "unat used \<le> max 1 (unat max_rx)" using used_rx_queues_bounds by (simp_all add: used_def)
  have l: "launch_workers workers 0 used =
      (zip workers (map of_nat [0..<unat used]), of_nat (min (unat used) (length workers)))"
    using launch_workers_spec [of 0 used workers] by simp
  have "map snd (rss_polling main_core workers used) = map of_nat [0..<unat used] \<and>
      distinct (map fst (rss_polling main_core workers used))"
  proof (cases "workers = []")
    case True
    with le ge have u: "unat used = 1" by simp
    then have "used = 1" by (metis unat_1 word_unat_eq_iff)
    with True l show ?thesis by (simp add: rss_polling_def)
  next
    case False
    then have n: "unat used \<le> length workers" using le by (cases workers) auto
    then have "(of_nat (min (unat used) (length workers)) :: u16) = used" by simp
    with l n assms(2) show ?thesis by (simp add: rss_polling_def map_fst_zip_take map_snd_zip_take min_def)
  qed
  with ge show ?thesis by (simp add: used_def Let_def)
qed

lemma lcore_rx_frees: "lcore_rx bufs = bufs"
  by (simp add: lcore_rx_def free_range_drop)

end
