(* ===== verification/Ring_Ipc.thy ===== *)
theory Ring_Ipc
  imports Rte_Ring "HOL-Library.Sublist"
begin

text \<open>
  The programs in which two threads or two processes exchange messages over rings:
  \<open>inter_process_comm/single_ring_full_duplex\<close> (requests and answers over one ring),
  \<open>ring_full_duplex\<close> (one ring for each direction), \<open>Multi_Process_Messaging\<close> (a
  handshake of the \<open>rte_mp\<close> library before the data) and \<open>rings/sample\<close> (a producer that
  frees what does not fit).

  Each side is a function from the state to the state after its next ring operation, the step
  relation lets either side move at any time. Ring operations are atomic, as \<open>rte_ring\<close>
  promises; \<open>rte_malloc\<close> is taken to succeed, its result is not checked by the code. What a
  side drops or cannot enqueue without noticing is collected in \<open>lost\<close>.

  \<open>ring_serves\<close> adds to the laws of theory \<open>Rte_Ring\<close> that a ring which holds objects
  delivers at least one.
\<close>

definition ring_serves :: "('r, 'a) ring_api \<Rightarrow> bool" where
  "ring_serves R \<longleftrightarrow> (\<forall>r n. ring_items R r \<noteq> [] \<longrightarrow> 0 < n \<longrightarrow> fst (ring_dequeue_burst R r n) \<noteq> [])"

text \<open>\<open>rte_ring_dequeue\<close>; \<open>None\<close> is a negative result.\<close>

definition ring_dequeue :: "('r, 'a) ring_api \<Rightarrow> 'r \<Rightarrow> 'a option \<times> 'r" where
  "ring_dequeue R r =
     (case ring_dequeue_burst R r 1 of (xs, r') \<Rightarrow> (case xs of [] \<Rightarrow> (None, r') | x # _ \<Rightarrow> (Some x, r')))"

locale served_fifo = bounded_fifo +
  assumes serves: "wf q \<Longrightarrow> items q \<noteq> [] \<Longrightarrow> 0 < n \<Longrightarrow> fst (deq q n) \<noteq> []"
begin

lemma deq_one:
  assumes "wf q" "deq q 1 = (xs, q')"
  shows "(items q = [] \<and> xs = [] \<and> items q' = [] \<or> (\<exists>x. xs = [x] \<and> items q = x # items q')) \<and> cap q' = cap q"
  using deq_front [OF assms] serves [OF assms(1), of 1] cap_deq [OF assms(1), of 1] assms(2)
  by (cases xs) auto

end

interpretation served_ring: served_fifo "ring_items R" "\<lambda>r x. (fst (ring_enqueue R r x) = 0, snd (ring_enqueue R r x))"
  "ring_dequeue_burst R" "\<lambda>_. ring_laws R \<and> ring_serves R" "ring_enqueue_burst R" "ring_capacity R" for R
  by unfold_locales (auto simp: ring_laws_def ring_serves_def, (metis fst_conv snd_conv)+)

lemma ring_dequeue_cases:
  assumes "ring_laws R" "ring_serves R" "ring_dequeue R r = (x, r')"
  shows "ring_capacity R r' = ring_capacity R r"
    and "x = None \<and> ring_items R r = [] \<and> ring_items R r' = [] \<or> (\<exists>y. x = Some y \<and> ring_items R r = y # ring_items R r')"
  using served_ring.deq_one [of R r] assms by (auto simp: ring_dequeue_def split: prod.splits list.splits)

lemma ring_enqueue_room:
  assumes "ring_laws R" "length (ring_items R r) < ring_capacity R r" "ring_enqueue R r x = (c, r')"
  shows "c = 0" "ring_items R r' = ring_items R r @ [x]" "ring_capacity R r' = ring_capacity R r"
  using rte_ring.enq_fits [of R r x "c = 0" r'] assms by auto

lemma ring_enqueue_account:
  assumes "ring_laws R" "ring_enqueue R r x = (c, r')"
  shows "ring_items R r' = (if c = 0 then ring_items R r @ [x] else ring_items R r)" "ring_capacity R r' = ring_capacity R r"
  using assms by (auto simp: ring_laws_def) (metis fst_conv snd_conv)+

lemma ref_ring_serves: "ring_serves (ref_ring cap)"
  by (simp add: ring_serves_def ref_ring_def)

subsection \<open>single_ring_full_duplex: data\<close>

datatype msg_type = MSG_REQ | MSG_RESP | MSG_EXIT

record ipc_msg =
  src_id :: int
  dst_id :: int
  mtype :: msg_type
  mvalue :: int

definition PROC_A :: int where "PROC_A = 1"
definition PROC_B :: int where "PROC_B = 2"

definition req :: "nat \<Rightarrow> ipc_msg" where
  "req i = \<lparr>src_id = PROC_A, dst_id = PROC_B, mtype = MSG_REQ, mvalue = int i\<rparr>"

definition exit_msg :: ipc_msg where
  "exit_msg = \<lparr>src_id = PROC_A, dst_id = PROC_B, mtype = MSG_EXIT, mvalue = 0\<rparr>"

definition respond :: "ipc_msg \<Rightarrow> ipc_msg" where
  "respond m = \<lparr>src_id = PROC_B, dst_id = PROC_A, mtype = MSG_RESP, mvalue = mvalue m * 10\<rparr>"

text \<open>Where a side stands: the ring operation it performs next, with what it holds.\<close>

datatype pri = Pri_send nat | Pri_wait nat | Pri_back nat ipc_msg | Pri_exit | Pri_done
datatype sec = Sec_lookup | Sec_poll | Sec_back ipc_msg | Sec_reply ipc_msg | Sec_exit

record 'r duplex =
  ring :: 'r
  pri :: pri
  sec :: sec
  got :: "int list"
  lost :: "ipc_msg list"

definition duplex_init :: "'r \<Rightarrow> 'r duplex" where
  "duplex_init r = \<lparr>ring = r, pri = Pri_send 0, sec = Sec_lookup, got = [], lost = []\<rparr>"

subsection \<open>single_ring_full_duplex: the two loops\<close>

text \<open>A message of the primary's own that it takes out is put back, the result unchecked.\<close>

definition pri_step :: "('r, ipc_msg) ring_api \<Rightarrow> 'r duplex \<Rightarrow> 'r duplex" where
  "pri_step R s = (case pri s of
     Pri_send i \<Rightarrow> (case ring_enqueue R (ring s) (req i) of
        (c, q) \<Rightarrow> s\<lparr>ring := q, pri := if c < 0 then Pri_send i else Pri_wait i\<rparr>)
   | Pri_wait i \<Rightarrow> (case ring_dequeue R (ring s) of
        (None, q) \<Rightarrow> s\<lparr>ring := q\<rparr>
      | (Some r, q) \<Rightarrow>
          if dst_id r \<noteq> PROC_A then s\<lparr>ring := q, pri := Pri_back i r\<rparr>
          else if mtype r = MSG_RESP
            then s\<lparr>ring := q, got := got s @ [mvalue r], pri := if i + 1 < 10 then Pri_send (i + 1) else Pri_exit\<rparr>
            else s\<lparr>ring := q, lost := lost s @ [r]\<rparr>)
   | Pri_back i r \<Rightarrow> (case ring_enqueue R (ring s) r of
        (c, q) \<Rightarrow> s\<lparr>ring := q, pri := Pri_wait i, lost := if c = 0 then lost s else lost s @ [r]\<rparr>)
   | Pri_exit \<Rightarrow> (case ring_enqueue R (ring s) exit_msg of
        (c, q) \<Rightarrow> s\<lparr>ring := q, pri := Pri_done, lost := if c = 0 then lost s else lost s @ [exit_msg]\<rparr>)
   | Pri_done \<Rightarrow> s)"

definition sec_step :: "('r, ipc_msg) ring_api \<Rightarrow> 'r duplex \<Rightarrow> 'r duplex" where
  "sec_step R s = (case sec s of
     Sec_lookup \<Rightarrow> s\<lparr>sec := Sec_poll\<rparr>
   | Sec_poll \<Rightarrow> (case ring_dequeue R (ring s) of
        (None, q) \<Rightarrow> s\<lparr>ring := q\<rparr>
      | (Some m, q) \<Rightarrow>
          if dst_id m \<noteq> PROC_B then s\<lparr>ring := q, sec := Sec_back m\<rparr>
          else if mtype m = MSG_EXIT then s\<lparr>ring := q, sec := Sec_exit\<rparr>
          else if mtype m = MSG_REQ then s\<lparr>ring := q, sec := Sec_reply (respond m)\<rparr>
          else s\<lparr>ring := q, lost := lost s @ [m]\<rparr>)
   | Sec_back m \<Rightarrow> (case ring_enqueue R (ring s) m of
        (c, q) \<Rightarrow> s\<lparr>ring := q, sec := Sec_poll, lost := if c = 0 then lost s else lost s @ [m]\<rparr>)
   | Sec_reply m \<Rightarrow> (case ring_enqueue R (ring s) m of
        (c, q) \<Rightarrow> s\<lparr>ring := q, sec := if c < 0 then Sec_reply m else Sec_poll\<rparr>)
   | Sec_exit \<Rightarrow> s)"

inductive duplex_step :: "('r, ipc_msg) ring_api \<Rightarrow> 'r duplex \<Rightarrow> 'r duplex \<Rightarrow> bool" for R where
  primary: "duplex_step R s (pri_step R s)"
| secondary: "duplex_step R s (sec_step R s)"

subsection \<open>single_ring_full_duplex: correctness\<close>

text \<open>There is one message at a time, in the ring or held by one side.\<close>

fun phase :: "pri \<Rightarrow> sec \<Rightarrow> ipc_msg list \<Rightarrow> bool" where
  "phase (Pri_send i) c its \<longleftrightarrow> i < 10 \<and> c \<in> {Sec_lookup, Sec_poll} \<and> its = []"
| "phase (Pri_wait i) c its \<longleftrightarrow> i < 10 \<and>
     (c \<in> {Sec_lookup, Sec_poll} \<and> its \<in> {[req i], [respond (req i)]} \<or>
      c \<in> {Sec_reply (respond (req i)), Sec_back (respond (req i))} \<and> its = [])"
| "phase (Pri_back i m) c its \<longleftrightarrow> i < 10 \<and> m = req i \<and> c \<in> {Sec_lookup, Sec_poll} \<and> its = []"
| "phase Pri_exit c its \<longleftrightarrow> c \<in> {Sec_lookup, Sec_poll} \<and> its = []"
| "phase Pri_done c its \<longleftrightarrow> c \<in> {Sec_lookup, Sec_poll} \<and> its = [exit_msg] \<or> c = Sec_exit \<and> its = []"

fun answered :: "pri \<Rightarrow> nat" where
  "answered (Pri_send i) = i" | "answered (Pri_wait i) = i" | "answered (Pri_back i m) = i"
| "answered Pri_exit = 10" | "answered Pri_done = 10"

definition duplex_inv :: "('r, ipc_msg) ring_api \<Rightarrow> 'r duplex \<Rightarrow> bool" where
  "duplex_inv R s \<longleftrightarrow> 1 \<le> ring_capacity R (ring s) \<and> phase (pri s) (sec s) (ring_items R (ring s)) \<and>
     got s = map (\<lambda>i. 10 * int i) [0..<answered (pri s)] \<and> lost s = []"

text \<open>How far there is still to go.\<close>

fun togo :: "pri \<Rightarrow> sec \<Rightarrow> ipc_msg list \<Rightarrow> nat" where
  "togo p c its =
     (case p of Pri_send i \<Rightarrow> 10 * (10 - i) + 8 | Pri_back i m \<Rightarrow> 10 * (10 - i) + 7
      | Pri_wait i \<Rightarrow> 10 * (10 - i) + (if its = [req i] then 5 else if its = [] then 4 else 3)
      | Pri_exit \<Rightarrow> 4 | Pri_done \<Rightarrow> (if its = [] then 0 else 2)) + (if c = Sec_lookup then 1 else 0)"

lemmas msg_simps = req_def exit_msg_def respond_def PROC_A_def PROC_B_def

lemma answers_snoc: "map (\<lambda>i. 10 * int i) [0..<i] @ [int i * 10] = map (\<lambda>i. 10 * int i) [0..<Suc i]"
  by simp

lemma answers_last:
  "i < 10 \<Longrightarrow> \<not> i < 9 \<Longrightarrow> map (\<lambda>i. 10 * int i) [0..<Suc i] = map (\<lambda>i. 10 * int i) [0..<10]"
  by (cases "i = 9") (simp_all del: upt_Suc)

lemma pri_step_inv:
  assumes "ring_laws R" "ring_serves R" "duplex_inv R s"
  shows "duplex_inv R (pri_step R s)"
proof (cases "pri s")
  case (Pri_wait i)
  obtain x q where d: "ring_dequeue R (ring s) = (x, q)" by fastforce
  from ring_dequeue_cases [OF assms(1,2) d] assms(3) Pri_wait d show ?thesis
    by (auto simp: duplex_inv_def pri_step_def msg_simps answers_snoc answers_last simp del: upt_Suc)
next
  case (Pri_send i)
  obtain x q where d: "ring_enqueue R (ring s) (req i) = (x, q)" by fastforce
  from ring_enqueue_room [OF assms(1) _ d] assms(3) Pri_send d show ?thesis
    by (auto simp: duplex_inv_def pri_step_def)
next
  case (Pri_back i m)
  obtain x q where d: "ring_enqueue R (ring s) m = (x, q)" by fastforce
  from ring_enqueue_room [OF assms(1) _ d] assms(3) Pri_back d show ?thesis
    by (auto simp: duplex_inv_def pri_step_def)
next
  case Pri_exit
  obtain x q where d: "ring_enqueue R (ring s) exit_msg = (x, q)" by fastforce
  from ring_enqueue_room [OF assms(1) _ d] assms(3) Pri_exit d show ?thesis
    by (auto simp: duplex_inv_def pri_step_def)
qed (use assms(3) in \<open>simp_all add: duplex_inv_def pri_step_def\<close>)

lemma sec_step_inv:
  assumes "ring_laws R" "ring_serves R" "duplex_inv R s"
  shows "duplex_inv R (sec_step R s)"
proof (cases "sec s")
  case Sec_poll
  obtain x q where d: "ring_dequeue R (ring s) = (x, q)" by fastforce
  from ring_dequeue_cases [OF assms(1,2) d] assms(3) Sec_poll d show ?thesis
    by (cases "pri s") (auto simp: duplex_inv_def sec_step_def msg_simps)
next
  case (Sec_back m)
  obtain x q where d: "ring_enqueue R (ring s) m = (x, q)" by fastforce
  from ring_enqueue_room [OF assms(1) _ d] assms(3) Sec_back d show ?thesis
    by (cases "pri s") (auto simp: duplex_inv_def sec_step_def)
next
  case (Sec_reply m)
  obtain x q where d: "ring_enqueue R (ring s) m = (x, q)" by fastforce
  from ring_enqueue_room [OF assms(1) _ d] assms(3) Sec_reply d show ?thesis
    by (cases "pri s") (auto simp: duplex_inv_def sec_step_def)
next
  case Sec_lookup
  with assms(3) show ?thesis by (cases "pri s") (auto simp: duplex_inv_def sec_step_def)
qed (use assms(3) in \<open>simp_all add: duplex_inv_def sec_step_def\<close>)

lemma duplex_reach_inv:
  assumes "ring_laws R" "ring_serves R" "(duplex_step R)\<^sup>*\<^sup>* s s'" "duplex_inv R s"
  shows "duplex_inv R s'"
  using assms(3,4) by (induction rule: rtranclp_induct) (auto elim!: duplex_step.cases intro: pri_step_inv sec_step_inv assms(1,2))

lemma duplex_progress:
  assumes R: "ring_laws R" "ring_serves R" and inv: "duplex_inv R s"
    and open_: "\<not> (pri s = Pri_done \<and> sec s = Sec_exit)"
  shows "\<exists>s'. duplex_step R s s' \<and>
    togo (pri s') (sec s') (ring_items R (ring s')) < togo (pri s) (sec s) (ring_items R (ring s))"
proof -
  obtain x q where d: "ring_dequeue R (ring s) = (x, q)" by fastforce
  note dq = ring_dequeue_cases [OF R d]
  let ?sec = "sec s = Sec_lookup \<or> ring_items R (ring s) \<in> {[exit_msg], [req (answered (pri s))]} \<or>
      (\<exists>m. sec s = Sec_reply m) \<or> (\<exists>m. sec s = Sec_back m)"
  have sec_moves: ?thesis if ?sec
  proof -
    have "togo (pri (sec_step R s)) (sec (sec_step R s)) (ring_items R (ring (sec_step R s)))
        < togo (pri s) (sec s) (ring_items R (ring s))"
    proof (cases "sec s")
      case Sec_poll
      with that inv dq d show ?thesis
        by (cases "pri s") (auto simp: duplex_inv_def sec_step_def msg_simps)
    next
      case (Sec_back m)
      obtain c q' where e: "ring_enqueue R (ring s) m = (c, q')" by fastforce
      from ring_enqueue_room [OF R(1) _ e] Sec_back inv e show ?thesis
        by (cases "pri s") (auto simp: duplex_inv_def sec_step_def msg_simps)
    next
      case (Sec_reply m)
      obtain c q' where e: "ring_enqueue R (ring s) m = (c, q')" by fastforce
      from ring_enqueue_room [OF R(1) _ e] Sec_reply inv e show ?thesis
        by (cases "pri s") (auto simp: duplex_inv_def sec_step_def msg_simps)
    qed (use that inv open_ in \<open>cases "pri s"; auto simp: duplex_inv_def sec_step_def\<close>)+
    then show ?thesis using duplex_step.secondary by blast
  qed
  have pri_moves: ?thesis if "sec s = Sec_poll" "ring_items R (ring s) \<notin> {[exit_msg], [req (answered (pri s))]}"
  proof -
    have "togo (pri (pri_step R s)) (sec (pri_step R s)) (ring_items R (ring (pri_step R s)))
        < togo (pri s) (sec s) (ring_items R (ring s))"
    proof (cases "pri s")
      case (Pri_wait i)
      with that inv dq d show ?thesis
        by (auto simp: duplex_inv_def pri_step_def msg_simps)
    next
      case (Pri_send i)
      obtain c q' where e: "ring_enqueue R (ring s) (req i) = (c, q')" by fastforce
      from ring_enqueue_room [OF R(1) _ e] Pri_send inv that e show ?thesis
        by (auto simp: duplex_inv_def pri_step_def)
    next
      case (Pri_back i m)
      obtain c q' where e: "ring_enqueue R (ring s) m = (c, q')" by fastforce
      from ring_enqueue_room [OF R(1) _ e] Pri_back inv that e show ?thesis
        by (auto simp: duplex_inv_def pri_step_def)
    next
      case Pri_exit
      obtain c q' where e: "ring_enqueue R (ring s) exit_msg = (c, q')" by fastforce
      from ring_enqueue_room [OF R(1) _ e] Pri_exit inv that e show ?thesis
        by (auto simp: duplex_inv_def pri_step_def)
    qed (use that inv in \<open>auto simp: duplex_inv_def\<close>)
    then show ?thesis using duplex_step.primary by blast
  qed
  have "sec s = Sec_poll" if "\<not> ?sec"
    using that inv open_ by (cases "sec s"; cases "pri s"; simp add: duplex_inv_def)
  then show ?thesis using sec_moves pri_moves by blast
qed

lemma duplex_completes:
  assumes "ring_laws R" "ring_serves R" "duplex_inv R s"
  shows "\<exists>s'. (duplex_step R)\<^sup>*\<^sup>* s s' \<and> pri s' = Pri_done \<and> sec s' = Sec_exit"
  using assms(3)
proof (induction "togo (pri s) (sec s) (ring_items R (ring s))" arbitrary: s rule: less_induct)
  case less
  show ?case
  proof (cases "pri s = Pri_done \<and> sec s = Sec_exit")
    case False
    with duplex_progress [OF assms(1,2) less.prems] obtain s1 where s1: "duplex_step R s s1"
      "togo (pri s1) (sec s1) (ring_items R (ring s1)) < togo (pri s) (sec s) (ring_items R (ring s))" by blast
    have "duplex_inv R s1" using duplex_reach_inv [OF assms(1,2) r_into_rtranclp less.prems] s1(1) by blast
    with less.hyps [OF s1(2)] s1(1) show ?thesis by (meson converse_rtranclp_into_rtranclp)
  qed blast
qed

text \<open>
  C25. Two processes, one ring. However primary and secondary interleave, no message is lost,
  the ring never holds more than one, the answers the primary prints are ten times its
  requests, in order, and all ten of them when it is done; the secondary stops only after
  that. From every state that can be reached both can still come to their ends.
\<close>

theorem duplex_protocol:
  assumes "ring_laws R" "ring_serves R" "ring_items R r = []" "1 \<le> ring_capacity R r"
    and "(duplex_step R)\<^sup>*\<^sup>* (duplex_init r) s"
  shows "lost s = [] \<and> length (ring_items R (ring s)) \<le> 1 \<and>
    (\<exists>n\<le>10. got s = map (\<lambda>i. 10 * int i) [0..<n]) \<and>
    (pri s = Pri_done \<longrightarrow> got s = [0, 10, 20, 30, 40, 50, 60, 70, 80, 90]) \<and>
    (sec s = Sec_exit \<longrightarrow> pri s = Pri_done \<and> ring_items R (ring s) = []) \<and>
    (\<exists>s'. (duplex_step R)\<^sup>*\<^sup>* s s' \<and> pri s' = Pri_done \<and> sec s' = Sec_exit)"
proof -
  have "duplex_inv R (duplex_init r)" using assms(3,4) by (simp add: duplex_inv_def duplex_init_def)
  then have inv: "duplex_inv R s" using duplex_reach_inv [OF assms(1,2,5)] by blast
  then have "lost s = []" "length (ring_items R (ring s)) \<le> 1" "answered (pri s) \<le> 10"
    "got s = map (\<lambda>i. 10 * int i) [0..<answered (pri s)]"
    "sec s = Sec_exit \<longrightarrow> pri s = Pri_done \<and> ring_items R (ring s) = []"
    by (cases "pri s"; auto simp: duplex_inv_def)+
  moreover have "map (\<lambda>i. 10 * int i) [0..<10] = [0, 10, 20, 30, 40, 50, 60, 70, 80, 90]" by (simp add: upt_rec)
  ultimately show ?thesis using duplex_completes [OF assms(1,2) inv] by auto
qed

theorem duplex_protocol_witness:
  "\<exists>s. (duplex_step (ref_ring 1023))\<^sup>*\<^sup>* (duplex_init []) s \<and> pri s = Pri_done \<and> sec s = Sec_exit"
proof -
  have "ring_items (ref_ring 1023) [] = []" "1 \<le> ring_capacity (ref_ring 1023) ([] :: ipc_msg list)"
    by (simp_all add: ref_ring_def)
  from duplex_protocol [OF ref_ring_laws ref_ring_serves this rtranclp.rtrancl_refl] show ?thesis by simp
qed

subsection \<open>ring_full_duplex: one ring for each direction\<close>

datatype fd_pri = Fd_send nat | Fd_wait nat | Fd_stop | Fd_done
datatype fd_sec = Fd_lookup | Fd_take | Fd_reply int | Fd_exit

record 'r fd_state =
  a_to_b :: 'r
  b_to_a :: 'r
  fd_pri :: fd_pri
  fd_sec :: fd_sec
  replies :: "int list"
  unsent :: "int list"

definition fd_pri_step :: "('r, int) ring_api \<Rightarrow> 'r fd_state \<Rightarrow> 'r fd_state" where
  "fd_pri_step R s = (case fd_pri s of
     Fd_send i \<Rightarrow> (case ring_enqueue R (a_to_b s) (int i) of
        (c, q) \<Rightarrow> s\<lparr>a_to_b := q, fd_pri := if c < 0 then Fd_send i else Fd_wait i\<rparr>)
   | Fd_wait i \<Rightarrow> (case ring_dequeue R (b_to_a s) of
        (None, q) \<Rightarrow> s\<lparr>b_to_a := q\<rparr>
      | (Some v, q) \<Rightarrow> s\<lparr>b_to_a := q, replies := replies s @ [v], fd_pri := if i + 1 < 10 then Fd_send (i + 1) else Fd_stop\<rparr>)
   | Fd_stop \<Rightarrow> (case ring_enqueue R (a_to_b s) (-1) of
        (c, q) \<Rightarrow> s\<lparr>a_to_b := q, fd_pri := Fd_done, unsent := if c = 0 then unsent s else unsent s @ [-1]\<rparr>)
   | Fd_done \<Rightarrow> s)"

definition fd_sec_step :: "('r, int) ring_api \<Rightarrow> 'r fd_state \<Rightarrow> 'r fd_state" where
  "fd_sec_step R s = (case fd_sec s of
     Fd_lookup \<Rightarrow> s\<lparr>fd_sec := Fd_take\<rparr>
   | Fd_take \<Rightarrow> (case ring_dequeue R (a_to_b s) of
        (None, q) \<Rightarrow> s\<lparr>a_to_b := q\<rparr>
      | (Some v, q) \<Rightarrow> s\<lparr>a_to_b := q, fd_sec := if v = -1 then Fd_exit else Fd_reply (v * 10)\<rparr>)
   | Fd_reply v \<Rightarrow> (case ring_enqueue R (b_to_a s) v of
        (c, q) \<Rightarrow> s\<lparr>b_to_a := q, fd_sec := if c < 0 then Fd_reply v else Fd_take\<rparr>)
   | Fd_exit \<Rightarrow> s)"

inductive fd_step :: "('r, int) ring_api \<Rightarrow> 'r fd_state \<Rightarrow> 'r fd_state \<Rightarrow> bool" for R where
  fd_primary: "fd_step R s (fd_pri_step R s)"
| fd_secondary: "fd_step R s (fd_sec_step R s)"

definition fd_init :: "'r \<Rightarrow> 'r \<Rightarrow> 'r fd_state" where
  "fd_init a b = \<lparr>a_to_b = a, b_to_a = b, fd_pri = Fd_send 0, fd_sec = Fd_lookup, replies = [], unsent = []\<rparr>"

fun fd_phase :: "fd_pri \<Rightarrow> fd_sec \<Rightarrow> int list \<Rightarrow> int list \<Rightarrow> bool" where
  "fd_phase (Fd_send i) c a b \<longleftrightarrow> i < 10 \<and> c \<in> {Fd_lookup, Fd_take} \<and> a = [] \<and> b = []"
| "fd_phase (Fd_wait i) c a b \<longleftrightarrow> i < 10 \<and>
     (c \<in> {Fd_lookup, Fd_take} \<and> (a = [int i] \<and> b = [] \<or> a = [] \<and> b = [int i * 10]) \<or>
      c = Fd_reply (int i * 10) \<and> a = [] \<and> b = [])"
| "fd_phase Fd_stop c a b \<longleftrightarrow> c \<in> {Fd_lookup, Fd_take} \<and> a = [] \<and> b = []"
| "fd_phase Fd_done c a b \<longleftrightarrow> b = [] \<and> (c \<in> {Fd_lookup, Fd_take} \<and> a = [-1] \<or> c = Fd_exit \<and> a = [])"

fun fd_answered :: "fd_pri \<Rightarrow> nat" where
  "fd_answered (Fd_send i) = i" | "fd_answered (Fd_wait i) = i" | "fd_answered Fd_stop = 10" | "fd_answered Fd_done = 10"

definition fd_inv :: "('r, int) ring_api \<Rightarrow> 'r fd_state \<Rightarrow> bool" where
  "fd_inv R s \<longleftrightarrow> 1 \<le> ring_capacity R (a_to_b s) \<and> 1 \<le> ring_capacity R (b_to_a s) \<and>
     fd_phase (fd_pri s) (fd_sec s) (ring_items R (a_to_b s)) (ring_items R (b_to_a s)) \<and>
     replies s = map (\<lambda>i. 10 * int i) [0..<fd_answered (fd_pri s)] \<and> unsent s = []"

lemma fd_pri_inv:
  assumes R: "ring_laws R" "ring_serves R" and inv: "fd_inv R s"
  shows "fd_inv R (fd_pri_step R s)"
proof (cases "fd_pri s")
  case (Fd_send i)
  obtain c q where e: "ring_enqueue R (a_to_b s) (int i) = (c, q)" by fastforce
  from ring_enqueue_room [OF R(1) _ e] inv Fd_send e show ?thesis by (auto simp: fd_inv_def fd_pri_step_def)
next
  case (Fd_wait i)
  obtain x q where d: "ring_dequeue R (b_to_a s) = (x, q)" by fastforce
  from ring_dequeue_cases [OF R d] inv Fd_wait d show ?thesis
    by (auto simp: fd_inv_def fd_pri_step_def answers_snoc answers_last simp del: upt_Suc)
next
  case Fd_stop
  obtain c q where e: "ring_enqueue R (a_to_b s) (-1) = (c, q)" by fastforce
  from ring_enqueue_room [OF R(1) _ e] inv Fd_stop e show ?thesis by (auto simp: fd_inv_def fd_pri_step_def)
qed (use inv in \<open>simp_all add: fd_inv_def fd_pri_step_def\<close>)

lemma fd_sec_inv:
  assumes R: "ring_laws R" "ring_serves R" and inv: "fd_inv R s"
  shows "fd_inv R (fd_sec_step R s)"
proof (cases "fd_sec s")
  case Fd_take
  obtain x q where d: "ring_dequeue R (a_to_b s) = (x, q)" by fastforce
  from ring_dequeue_cases [OF R d] inv Fd_take d show ?thesis
    by (cases "fd_pri s") (auto simp: fd_inv_def fd_sec_step_def)
next
  case (Fd_reply v)
  obtain c q where e: "ring_enqueue R (b_to_a s) v = (c, q)" by fastforce
  from ring_enqueue_room [OF R(1) _ e] inv Fd_reply e show ?thesis
    by (cases "fd_pri s") (auto simp: fd_inv_def fd_sec_step_def)
qed (use inv in \<open>cases "fd_pri s"; auto simp: fd_inv_def fd_sec_step_def\<close>)+

text \<open>The same answers as over one ring; the primary's next reply is never -1.\<close>

lemma full_duplex_answers:
  assumes R: "ring_laws R" "ring_serves R" and "ring_items R a = []" "ring_items R b = []" "1 \<le> ring_capacity R a" "1 \<le> ring_capacity R b"
    and run: "(fd_step R)\<^sup>*\<^sup>* (fd_init a b) s"
  shows "(\<exists>n\<le>10. replies s = map (\<lambda>i. 10 * int i) [0..<n]) \<and> unsent s = [] \<and>
    (fd_sec s = Fd_exit \<longrightarrow> fd_pri s = Fd_done \<and> length (replies s) = 10)"
proof -
  have "fd_inv R (fd_init a b)" using assms(3-6) by (simp add: fd_inv_def fd_init_def)
  with run have "fd_inv R s"
    by (induction rule: rtranclp_induct) (auto elim!: fd_step.cases intro: fd_pri_inv fd_sec_inv R)
  then have "fd_answered (fd_pri s) \<le> 10" "replies s = map (\<lambda>i. 10 * int i) [0..<fd_answered (fd_pri s)]" "unsent s = []"
    "fd_sec s = Fd_exit \<longrightarrow> fd_pri s = Fd_done"
    by (cases "fd_pri s"; auto simp: fd_inv_def)+
  then show ?thesis by auto
qed

subsection \<open>rings/sample/simple_ring.c\<close>

text \<open>A producer that counts; a value the ring does not take is freed. Memory holds the value.\<close>

record 'r prod_cons =
  sr_ring :: 'r
  counter :: u64
  dropped :: "u64 list"
  consumed :: "u64 list"

definition producer_step :: "('r, u64) ring_api \<Rightarrow> 'r prod_cons \<Rightarrow> 'r prod_cons" where
  "producer_step R s = (case ring_enqueue R (sr_ring s) (counter s) of
     (ret, q) \<Rightarrow> s\<lparr>sr_ring := q, counter := counter s + 1,
        dropped := if ret = 0 then dropped s else dropped s @ [counter s]\<rparr>)"

definition consumer_step :: "('r, u64) ring_api \<Rightarrow> 'r prod_cons \<Rightarrow> 'r prod_cons" where
  "consumer_step R s = (case ring_dequeue R (sr_ring s) of
     (None, q) \<Rightarrow> s\<lparr>sr_ring := q\<rparr> | (Some v, q) \<Rightarrow> s\<lparr>sr_ring := q, consumed := consumed s @ [v]\<rparr>)"

inductive prod_cons_step :: "('r, u64) ring_api \<Rightarrow> 'r prod_cons \<Rightarrow> 'r prod_cons \<Rightarrow> bool" for R where
  produce: "prod_cons_step R s (producer_step R s)"
| consume: "prod_cons_step R s (consumer_step R s)"

text \<open>
  Every value produced was consumed, freed or is in the ring, exactly once, and what leaves
  the ring is in the order of production.
\<close>

definition produced :: "('r, u64) ring_api \<Rightarrow> 'r prod_cons \<Rightarrow> nat \<Rightarrow> bool" where
  "produced R s n \<longleftrightarrow> counter s = of_nat n \<and>
     mset (consumed s @ ring_items R (sr_ring s) @ dropped s) = mset (map of_nat [0..<n]) \<and>
     subseq (consumed s @ ring_items R (sr_ring s)) (map of_nat [0..<n])"

lemma produced_step:
  assumes R: "ring_laws R" "ring_serves R" and "produced R s n" "prod_cons_step R s s'"
  shows "\<exists>n'. produced R s' n'"
  using assms(4)
proof cases
  case produce
  obtain c q where e: "ring_enqueue R (sr_ring s) (counter s) = (c, q)" by fastforce
  have "subseq xs ys \<Longrightarrow> subseq (xs @ [v]) (ys @ [v])" "subseq xs ys \<Longrightarrow> subseq xs (ys @ [v])" for xs ys and v :: u64
    using list_emb_append_mono [of "(=)" xs ys "[v]" "[v]"] list_emb_append_mono [of "(=)" xs ys "[]" "[v]"] by simp_all
  note this [of "consumed s @ ring_items R (sr_ring s)" "map of_nat [0..<n]" "of_nat n"]
  with ring_enqueue_account [OF R(1) e] assms(3) e have "produced R s' (Suc n)"
    by (auto simp: produced_def produce producer_step_def)
  then show ?thesis ..
next
  case consume
  obtain x q where d: "ring_dequeue R (sr_ring s) = (x, q)" by fastforce
  from ring_dequeue_cases [OF R d] assms(3) d have "produced R s' n"
    by (auto simp: produced_def consume consumer_step_def)
  then show ?thesis ..
qed

lemma simple_ring_conserves:
  assumes "ring_laws R" "ring_serves R" "(prod_cons_step R)\<^sup>*\<^sup>* s s'" "produced R s n"
  shows "\<exists>n'. produced R s' n'"
  using assms(3,4) by (induction rule: rtranclp_induct) (blast intro: produced_step [OF assms(1,2)])+

subsection \<open>Multi_Process_Messaging\<close>

text \<open>
  The \<open>rte_mp\<close> messages in flight are counted; the library runs a callback for a message the
  other process has registered for and drops the others. The integers are enqueued once,
  without a check.
\<close>

datatype mp_pri = Mp_check | Mp_put nat | Mp_done
datatype mp_sec = Mp_start | Mp_lookup | Mp_receive

record 'r mp_state =
  data_ring :: 'r
  secondary_ready :: bool
  checks :: nat
  ready_replies :: nat
  mp_pri :: mp_pri
  mp_sec :: mp_sec
  received :: "int list"

definition mp_pri_step :: "('r, int) ring_api \<Rightarrow> 'r mp_state \<Rightarrow> 'r mp_state" where
  "mp_pri_step R s = (case mp_pri s of
     Mp_check \<Rightarrow> if secondary_ready s then s\<lparr>mp_pri := Mp_put 0\<rparr>
       else if mp_sec s = Mp_start then s else s\<lparr>checks := checks s + 1\<rparr>
   | Mp_put i \<Rightarrow> s\<lparr>data_ring := snd (ring_enqueue R (data_ring s) (int i)), mp_pri := if i + 1 < 5 then Mp_put (i + 1) else Mp_done\<rparr>
   | Mp_done \<Rightarrow> s)"

definition check_cb :: "'r mp_state \<Rightarrow> 'r mp_state" where
  "check_cb s = s\<lparr>checks := checks s - 1, ready_replies := ready_replies s + 1\<rparr>"

definition ready_cb :: "'r mp_state \<Rightarrow> 'r mp_state" where
  "ready_cb s = s\<lparr>ready_replies := ready_replies s - 1, secondary_ready := True\<rparr>"

definition mp_sec_step :: "('r, int) ring_api \<Rightarrow> 'r mp_state \<Rightarrow> 'r mp_state" where
  "mp_sec_step R s = (case mp_sec s of
     Mp_start \<Rightarrow> s\<lparr>mp_sec := Mp_lookup\<rparr>
   | Mp_lookup \<Rightarrow> s\<lparr>mp_sec := Mp_receive\<rparr>
   | Mp_receive \<Rightarrow> (case ring_dequeue R (data_ring s) of
        (None, q) \<Rightarrow> s\<lparr>data_ring := q\<rparr> | (Some v, q) \<Rightarrow> s\<lparr>data_ring := q, received := received s @ [v]\<rparr>))"

inductive mp_step :: "('r, int) ring_api \<Rightarrow> 'r mp_state \<Rightarrow> 'r mp_state \<Rightarrow> bool" for R where
  "mp_step R s (mp_pri_step R s)"
| "mp_step R s (mp_sec_step R s)"
| "0 < checks s \<Longrightarrow> mp_step R s (check_cb s)"
| "0 < ready_replies s \<Longrightarrow> mp_step R s (ready_cb s)"

definition mp_init :: "'r \<Rightarrow> 'r mp_state" where
  "mp_init r = \<lparr>data_ring = r, secondary_ready = False, checks = 0, ready_replies = 0,
     mp_pri = Mp_check, mp_sec = Mp_start, received = []\<rparr>"

fun n_put :: "mp_pri \<Rightarrow> nat" where
  "n_put Mp_check = 0" | "n_put (Mp_put i) = i" | "n_put Mp_done = 5"

definition mp_inv :: "('r, int) ring_api \<Rightarrow> 'r mp_state \<Rightarrow> bool" where
  "mp_inv R s \<longleftrightarrow> 5 \<le> ring_capacity R (data_ring s) \<and> n_put (mp_pri s) \<le> 5 \<and>
     received s @ ring_items R (data_ring s) = map int [0..<n_put (mp_pri s)] \<and>
     (mp_pri s \<noteq> Mp_check \<longrightarrow> secondary_ready s) \<and> (\<forall>i. mp_pri s = Mp_put i \<longrightarrow> i < 5) \<and>
     (secondary_ready s \<or> 0 < checks s \<or> 0 < ready_replies s \<longrightarrow> mp_sec s \<noteq> Mp_start)"

lemma mp_step_inv:
  assumes R: "ring_laws R" "ring_serves R" and inv: "mp_inv R s" and "mp_step R s s'"
  shows "mp_inv R s'"
  using assms(4)
proof cases
  case 1
  show ?thesis
  proof (cases "mp_pri s")
    case (Mp_put i)
    obtain c q where e: "ring_enqueue R (data_ring s) (int i) = (c, q)" by fastforce
    have its: "received s @ ring_items R (data_ring s) = map int [0..<i]" "i < 5" "5 \<le> ring_capacity R (data_ring s)"
      using inv Mp_put by (auto simp: mp_inv_def)
    have "length (ring_items R (data_ring s)) \<le> i"
      using arg_cong [OF its(1), of length] by simp
    then have "length (ring_items R (data_ring s)) < ring_capacity R (data_ring s)" using its(2,3) by simp
    note e' = ring_enqueue_room [OF R(1) this e]
    have "map int [0..<5] = map int [0..<4] @ [4]" by (simp add: upt_rec)
    with e' inv Mp_put its(2) e
    have "mp_inv R s'" if "i < 4 \<or> i = 4"
      using that unfolding 1 by (auto simp: mp_inv_def mp_pri_step_def simp flip: append_assoc)
    then show ?thesis using its(2) by linarith
  qed (use inv in \<open>auto simp: 1 mp_inv_def mp_pri_step_def\<close>)
next
  case 2
  obtain x q where d: "ring_dequeue R (data_ring s) = (x, q)" by fastforce
  from ring_dequeue_cases [OF R d] inv d show ?thesis
    unfolding 2 by (cases "mp_sec s") (auto simp: mp_inv_def mp_sec_step_def)
qed (use inv in \<open>auto simp: mp_inv_def check_cb_def ready_cb_def\<close>)

text \<open>
  The handshake: nothing is sent before the secondary has registered, and what it has received
  and still finds in the ring is everything sent, in order, also when it looks the ring up late.
\<close>

lemma messaging_in_order:
  assumes "ring_laws R" "ring_serves R" "ring_items R r = []" "5 \<le> ring_capacity R r" "(mp_step R)\<^sup>*\<^sup>* (mp_init r) s"
  shows "received s @ ring_items R (data_ring s) = map int [0..<n_put (mp_pri s)] \<and>
    (mp_pri s \<noteq> Mp_check \<longrightarrow> mp_sec s \<noteq> Mp_start)"
proof -
  have "mp_inv R (mp_init r)" using assms(3,4) by (simp add: mp_inv_def mp_init_def)
  with assms(5) have "mp_inv R s"
    by (induction rule: rtranclp_induct) (blast intro: mp_step_inv [OF assms(1,2)])+
  then show ?thesis by (auto simp: mp_inv_def)
qed

end
