(* ===== verification/Event_Dev.thy ===== *)
theory Event_Dev
  imports Eal Dpdk
begin

text \<open>
  The programs over an event device (\<open>eventdev\<close>). The device is a parameter: \<open>ev_held\<close>
  observes the events it holds in the order they were enqueued, \<open>ev_links\<close> the queues a port
  is linked to. Enqueuing one event returns 1, or 0 and changes nothing, which it does only at
  the limit of the configuration. Dequeuing returns an event of a linked queue, for which
  there is none before it of the same queue and flow (the queues are atomic), or nothing; a
  device that holds something for the port cannot do the latter for ever, \<open>ev_wait\<close> bounds it.

  The locale \<open>scheduler\<close> is this contract; \<open>ref_dev\<close> is a device that satisfies it.
\<close>

record 'p event =
  queue_id :: nat
  flow_id :: nat
  ev_data :: 'p

record ('d, 'p) event_api =
  ev_held :: "'d \<Rightarrow> 'p event list"
  ev_links :: "'d \<Rightarrow> nat \<Rightarrow> nat set"
  ev_limit :: "'d \<Rightarrow> nat"
  ev_wait :: "'d \<Rightarrow> nat"
  ev_enqueue :: "'d \<Rightarrow> nat \<Rightarrow> 'p event \<Rightarrow> nat \<times> 'd"
  ev_dequeue :: "'d \<Rightarrow> nat \<Rightarrow> 'p event option \<times> 'd"

definition takes :: "'p event \<Rightarrow> 'p event list \<Rightarrow> 'p event list \<Rightarrow> bool" where
  "takes e xs ys \<longleftrightarrow> (\<exists>a b. xs = a @ e # b \<and> ys = a @ b \<and>
     (\<forall>x\<in>set a. queue_id x \<noteq> queue_id e \<or> flow_id x \<noteq> flow_id e))"

definition event_laws :: "('d, 'p) event_api \<Rightarrow> bool" where
  "event_laws D \<longleftrightarrow>
     (\<forall>d p e n d'. ev_enqueue D d p e = (n, d') \<longrightarrow>
        (n = 1 \<and> ev_held D d' = ev_held D d @ [e] \<or> n = 0 \<and> ev_held D d' = ev_held D d) \<and>
        (length (ev_held D d) < ev_limit D d \<longrightarrow> n = 1) \<and> ev_links D d' = ev_links D d \<and> ev_limit D d' = ev_limit D d) \<and>
     (\<forall>d p d'. ev_dequeue D d p = (None, d') \<longrightarrow> ev_held D d' = ev_held D d \<and>
        ev_links D d' = ev_links D d \<and> ev_limit D d' = ev_limit D d \<and>
        ((\<exists>e\<in>set (ev_held D d). queue_id e \<in> ev_links D d p) \<longrightarrow> ev_wait D d' < ev_wait D d)) \<and>
     (\<forall>d p e d'. ev_dequeue D d p = (Some e, d') \<longrightarrow> takes e (ev_held D d) (ev_held D d') \<and>
        queue_id e \<in> ev_links D d p \<and> ev_links D d' = ev_links D d \<and> ev_limit D d' = ev_limit D d)"

locale scheduler =
  fixes held :: "'q \<Rightarrow> 'p event list"
    and links :: "'q \<Rightarrow> nat \<Rightarrow> nat set"
    and limit :: "'q \<Rightarrow> nat"
    and patience :: "'q \<Rightarrow> nat"
    and enq :: "'q \<Rightarrow> nat \<Rightarrow> 'p event \<Rightarrow> nat \<times> 'q"
    and deq :: "'q \<Rightarrow> nat \<Rightarrow> 'p event option \<times> 'q"
    and wf :: bool
  assumes enq_room: "wf \<Longrightarrow> length (held q) < limit q \<Longrightarrow> enq q p e = (n, q') \<Longrightarrow>
      n = 1 \<and> held q' = held q @ [e] \<and> links q' = links q \<and> limit q' = limit q"
    and deq_none: "wf \<Longrightarrow> deq q p = (None, q') \<Longrightarrow> held q' = held q \<and> links q' = links q \<and> limit q' = limit q"
    and deq_patience: "wf \<Longrightarrow> deq q p = (None, q') \<Longrightarrow> e \<in> set (held q) \<Longrightarrow> queue_id e \<in> links q p \<Longrightarrow>
      patience q' < patience q"
    and deq_some: "wf \<Longrightarrow> deq q p = (Some e, q') \<Longrightarrow> takes e (held q) (held q') \<and> queue_id e \<in> links q p \<and>
      links q' = links q \<and> limit q' = limit q"
begin

text \<open>On one queue, what a flow still has to receive is what it had less the event delivered.\<close>

lemma deq_flow:
  assumes "wf" "deq q p = (Some e, q')" "\<forall>x\<in>set (held q). queue_id x = k"
  shows "filter (\<lambda>x. flow_id x = f) (held q) = (if flow_id e = f then [e] else []) @ filter (\<lambda>x. flow_id x = f) (held q')"
    and "\<forall>x\<in>set (held q'). queue_id x = k" and "length (held q) = Suc (length (held q'))"
  using deq_some [OF assms(1,2)] assms(3) by (auto simp: takes_def filter_empty_conv)

end

interpretation event_dev: scheduler "ev_held D" "ev_links D" "ev_limit D" "ev_wait D" "ev_enqueue D" "ev_dequeue D" "event_laws D" for D
proof
  fix d p e n d'
  assume D: "event_laws D"
  show "length (ev_held D d) < ev_limit D d \<Longrightarrow> ev_enqueue D d p e = (n, d') \<Longrightarrow>
      n = 1 \<and> ev_held D d' = ev_held D d @ [e] \<and> ev_links D d' = ev_links D d \<and> ev_limit D d' = ev_limit D d"
    using D unfolding event_laws_def by (metis zero_neq_one)
  show "ev_dequeue D d p = (None, d') \<Longrightarrow> ev_held D d' = ev_held D d \<and> ev_links D d' = ev_links D d \<and> ev_limit D d' = ev_limit D d"
    using D unfolding event_laws_def by blast
  show "ev_dequeue D d p = (None, d') \<Longrightarrow> e \<in> set (ev_held D d) \<Longrightarrow> queue_id e \<in> ev_links D d p \<Longrightarrow> ev_wait D d' < ev_wait D d"
    using D unfolding event_laws_def by blast
  show "ev_dequeue D d p = (Some e, d') \<Longrightarrow> takes e (ev_held D d) (ev_held D d') \<and> queue_id e \<in> ev_links D d p \<and>
      ev_links D d' = ev_links D d \<and> ev_limit D d' = ev_limit D d"
    using D unfolding event_laws_def by blast
qed





subsection \<open>Enqueuing and waiting\<close>

text \<open>\<open>while (rte_event_enqueue_burst(dev, port, &ev, 1) != 1) rte_pause();\<close>\<close>

partial_function (option) enqueue_retry :: "('d, 'p) event_api \<Rightarrow> 'd \<Rightarrow> nat \<Rightarrow> 'p event \<Rightarrow> 'd option" where
  "enqueue_retry D d p e = (case ev_enqueue D d p e of (n, d') \<Rightarrow> if n \<noteq> 1 then enqueue_retry D d' p e else Some d')"

text \<open>The loops that poll until an event arrives.\<close>

partial_function (option) wait_event :: "('d, 'p) event_api \<Rightarrow> 'd \<Rightarrow> nat \<Rightarrow> ('p event \<times> 'd) option" where
  "wait_event D d p = (case ev_dequeue D d p of (r, d') \<Rightarrow>
     (case r of None \<Rightarrow> wait_event D d' p | Some e \<Rightarrow> Some (e, d')))"

lemma enqueue_retry_room:
  assumes "event_laws D" "length (ev_held D d) < ev_limit D d"
  shows "\<exists>d'. enqueue_retry D d p e = Some d' \<and> ev_held D d' = ev_held D d @ [e] \<and>
    ev_links D d' = ev_links D d \<and> ev_limit D d' = ev_limit D d"
proof -
  obtain n d' where e: "ev_enqueue D d p e = (n, d')" by fastforce
  from event_dev.enq_room [OF assms e] e show ?thesis by (subst enqueue_retry.simps) simp
qed

lemma wait_event_returns:
  assumes D: "event_laws D" and "x \<in> set (ev_held D d)" "queue_id x \<in> ev_links D d p"
  shows "\<exists>e d'. wait_event D d p = Some (e, d') \<and> takes e (ev_held D d) (ev_held D d')"
  using assms(2,3)
proof (induction "ev_wait D d" arbitrary: d rule: less_induct)
  case less
  obtain r d1 where d: "ev_dequeue D d p = (r, d1)" by fastforce
  show ?case
  proof (cases r)
    case None
    with d have dn: "ev_dequeue D d p = (None, d1)" by simp
    from less.hyps [of d1] event_dev.deq_none [OF D dn] event_dev.deq_patience [OF D dn less.prems] less.prems d None
    show ?thesis by (subst wait_event.simps) simp
  next
    case (Some e)
    with d event_dev.deq_some [OF D, of d p e d1] show ?thesis by (subst wait_event.simps) simp
  qed
qed

subsection \<open>01project, practice and 02practice\<close>

definition project_event :: "u64 event" where
  "project_event = \<lparr>queue_id = 0, flow_id = 1, ev_data = 12345\<rparr>"

definition project_main :: "('d, u64) event_api \<Rightarrow> 'd \<Rightarrow> u64 option" where
  "project_main D d = Option.bind (enqueue_retry D d 0 project_event) (\<lambda>d. map_option (ev_data \<circ> fst) (wait_event D d 1))"

text \<open>The worker polls port 0 while the main core enqueues; what it polls before that is nothing.\<close>

definition practice_event :: "u64 event" where
  "practice_event = \<lparr>queue_id = 0, flow_id = 1, ev_data = 42\<rparr>"

definition practice_main :: "('d, u64) event_api \<Rightarrow> 'd \<Rightarrow> u64 option" where
  "practice_main D d = Option.bind (enqueue_retry D d 0 practice_event) (\<lambda>d. map_option (ev_data \<circ> fst) (wait_event D d 0))"






lemma event_delivered:
  assumes D: "event_laws D" and "ev_held D d = []" "0 < ev_limit D d"
  shows "0 \<in> ev_links D d 1 \<Longrightarrow> project_main D d = Some 12345" and "0 \<in> ev_links D d 0 \<Longrightarrow> practice_main D d = Some 42"
proof -
  have "\<exists>d'. Option.bind (enqueue_retry D d 0 x) (\<lambda>d. wait_event D d p) = Some (x, d')"
    if l: "queue_id x = 0" "0 \<in> ev_links D d p" for x p
  proof -
    from enqueue_retry_room [OF D, of d 0 x] assms(2,3) obtain d1 where
      d1: "enqueue_retry D d 0 x = Some d1" "ev_held D d1 = [x]" "ev_links D d1 = ev_links D d" by auto
    from wait_event_returns [OF D, of x d1 p] l d1 obtain e d' where
      "wait_event D d1 p = Some (e, d')" "takes e [x] (ev_held D d')" by auto
    then show ?thesis using d1(1) by (auto simp: takes_def Cons_eq_append_conv)
  qed
  note this [of project_event 1] this [of practice_event 0]
  then show "0 \<in> ev_links D d 1 \<Longrightarrow> project_main D d = Some 12345" "0 \<in> ev_links D d 0 \<Longrightarrow> practice_main D d = Some 42"
    by (auto simp: project_main_def practice_main_def project_event_def practice_event_def bind_eq_Some_conv)
qed

subsection \<open>Two consumers\<close>



abbreviation flow :: "nat \<Rightarrow> 'p event list \<Rightarrow> 'p event list" where
  "flow f \<equiv> filter (\<lambda>x. flow_id x = f)"






subsection \<open>parsing_event\<close>

text \<open>
  One pass of the worker: the event it handled with what it printed of the packet, and the
  packets lost because the result of the enqueue is not checked.
\<close>

definition parsed_ipv4 :: "mbuf \<Rightarrow> (u32 \<times> u32) option" where
  "parsed_ipv4 m =
     (if rd16 m O_ETHER_TYPE = bswap16 RTE_ETHER_TYPE_IPV4
      then Some (bswap32 (rd32 m (ETHER_HDR + O_SRC)), bswap32 (rd32 m (ETHER_HDR + O_DST))) else None)"

definition worker_iter :: "('d, mbuf) event_api \<Rightarrow> 'd \<Rightarrow> (mbuf \<times> (u32 \<times> u32) option) list \<times> mbuf list \<times> 'd" where
  "worker_iter D d = (case ev_dequeue D d 0 of
     (None, d1) \<Rightarrow> ([], [], d1)
   | (Some ev, d1) \<Rightarrow> (case ev_enqueue D d1 0 (ev\<lparr>queue_id := 1\<rparr>) of
        (n, d2) \<Rightarrow> ([(ev_data ev, parsed_ipv4 (ev_data ev))], if n = 1 then [] else [ev_data ev], d2)))"

fun event_worker :: "('d, mbuf) event_api \<Rightarrow> nat \<Rightarrow> 'd \<Rightarrow> (mbuf \<times> (u32 \<times> u32) option) list \<times> mbuf list \<times> 'd" where
  "event_worker D 0 d = ([], [], d)"
| "event_worker D (Suc k) d = (case worker_iter D d of (h, l, d1) \<Rightarrow>
     (case event_worker D k d1 of (h', l', d2) \<Rightarrow> (h @ h', l @ l', d2)))"

text \<open>
  The worker's port is linked to both queues, so it takes back what it has enqueued for
  transmission: as long as nobody else takes the packet, it handles it again and again.
\<close>

definition bounces :: "('d, mbuf) event_api \<Rightarrow> mbuf \<Rightarrow> 'd \<Rightarrow> bool" where
  "bounces D m d \<longleftrightarrow> (\<exists>e. ev_held D d = [e] \<and> ev_data e = m \<and> queue_id e \<in> {0, 1}) \<and> {0, 1} \<subseteq> ev_links D d 0 \<and> 1 \<le> ev_limit D d"

lemma worker_iter_bounces:
  assumes D: "event_laws D" and "bounces D m d" "worker_iter D d = (h, l, d')"
  shows "bounces D m d' \<and> l = [] \<and> (h = [(m, parsed_ipv4 m)] \<or> h = [] \<and> ev_wait D d' < ev_wait D d)"
proof -
  obtain e where e: "ev_held D d = [e]" "ev_data e = m" "queue_id e \<in> {0, 1}" "{0, 1} \<subseteq> ev_links D d 0" "1 \<le> ev_limit D d"
    using assms(2) by (auto simp: bounces_def)
  obtain r d1 where r: "ev_dequeue D d 0 = (r, d1)" by fastforce
  show ?thesis
  proof (cases r)
    case None
    with r have n: "ev_dequeue D d 0 = (None, d1)" by simp
    from event_dev.deq_patience [OF D n, of e] e have "ev_wait D d1 < ev_wait D d" by auto
    with event_dev.deq_none [OF D n] assms(2,3) n show ?thesis by (auto simp: worker_iter_def bounces_def)
  next
    case (Some x)
    with r have s: "ev_dequeue D d 0 = (Some x, d1)" by simp
    from event_dev.deq_some [OF D s] e(1) have x: "x = e" "ev_held D d1 = []" "ev_links D d1 = ev_links D d" "ev_limit D d1 = ev_limit D d"
      by (auto simp: takes_def Cons_eq_append_conv)
    obtain n d2 where q: "ev_enqueue D d1 0 (e\<lparr>queue_id := 1\<rparr>) = (n, d2)" by fastforce
    have "length (ev_held D d1) < ev_limit D d1" using x e(5) by simp
    from event_dev.enq_room [OF D this q] q s x e assms(3) show ?thesis
      by (auto simp: worker_iter_def bounces_def)
  qed
qed

lemma worker_reprocesses:
  assumes D: "event_laws D" and "bounces D m d"
  shows "\<exists>k d'. event_worker D k d = (replicate n (m, parsed_ipv4 m), [], d') \<and> bounces D m d'"
  using assms(2)
proof (induction "(n, ev_wait D d)" arbitrary: n d rule: wf_induct_rule [OF wf_lex_prod [OF wf_less_than wf_less_than]])
  case (1 n d)
  show ?case
  proof (cases n)
    case 0
    with 1(2) show ?thesis by (intro exI [of _ 0]) simp
  next
    case (Suc n')
    obtain h l d1 where i: "worker_iter D d = (h, l, d1)" by (cases "worker_iter D d")
    from worker_iter_bounces [OF D 1(2) i] consider
      "bounces D m d1" "l = []" "h = [(m, parsed_ipv4 m)]" | "bounces D m d1" "l = []" "h = []" "ev_wait D d1 < ev_wait D d" by auto
    then show ?thesis
    proof cases
      case 1
      with "1.hyps" [of n' d1] Suc obtain k d' where "event_worker D k d1 = (replicate n' (m, parsed_ipv4 m), [], d')" "bounces D m d'" by auto
      with 1 i Suc show ?thesis by (intro exI [of _ "Suc k"]) simp
    next
      case 2
      with "1.hyps" [of n d1] obtain k d' where "event_worker D k d1 = (replicate n (m, parsed_ipv4 m), [], d')" "bounces D m d'" by auto
      with 2 i show ?thesis by (intro exI [of _ "Suc k"]) simp
    qed
  qed
qed

subsection \<open>Start-up\<close>

definition event_setup :: "nat \<Rightarrow> unit prog \<Rightarrow> unit prog" where
  "event_setup nb_ports k =
     must Rte_eal_init ''EAL init failed''
     (must (Rte_event_dev_configure 1 nb_ports) ''Configure failed''
     (must (Rte_event_queue_setup 0) ''Queue setup failed'' k))"

definition event_port :: "nat \<Rightarrow> string \<Rightarrow> unit prog \<Rightarrow> unit prog" where
  "event_port p msg k = call_p (Rte_event_port_default_conf_get p) (\<lambda>_. must (Rte_event_port_setup p) msg k)"

definition project_main_start :: "unit prog" where
  "project_main_start =
     event_setup 2
     (event_port 0 ''Producer port failed''
     (event_port 1 ''Consumer port failed''
     (call_p (Rte_event_port_link 1 [0]) (\<lambda>_.
     must Rte_event_dev_start ''Start failed'' (done_p ())))))"

definition consumers_main_start :: "unit prog" where
  "consumers_main_start =
     event_setup 3
     (event_port 0 ''Producer port failed''
     (event_port 1 ''Consumer port 1 failed''
     (event_port 2 ''Consumer port 2 failed''
     (call_p (Rte_event_port_link 1 [0]) (\<lambda>_.
     call_p (Rte_event_port_link 2 [0]) (\<lambda>_.
     must Rte_event_dev_start ''Start failed'' (done_p ())))))))"

text \<open>Here any result other than 0 of the two set-up calls is an error, and linking is checked.\<close>

definition practice_main_start :: "unit prog" where
  "practice_main_start =
     must Rte_eal_init ''Eal init failed''
     (must (Rte_event_dev_configure 1 1) ''configure failed''
     (call_p (Rte_event_queue_setup 0) (\<lambda>r. if r \<noteq> 0 then rte_exit ''Queue setup failed'' else
     call_p (Rte_event_port_default_conf_get 0) (\<lambda>_.
     call_p (Rte_event_port_setup 0) (\<lambda>r. if r \<noteq> 0 then rte_exit ''Port setup failed'' else
     must (Rte_event_port_link 0 [0]) ''Port link failed''
     (must Rte_event_dev_start ''Start failed'' (done_p ())))))))"

text \<open>In \<open>parsing_event\<close> only the EAL, the pool and the creation of the adapter are checked.\<close>

definition parsing_main_start :: "unit prog" where
  "parsing_main_start =
     must Rte_eal_init ''EAL init failed''
     (call_p Rte_eth_dev_count_avail (\<lambda>_.
     nonnull (Rte_pktmbuf_pool_create ''MBUF_POOL'' 8192 256) ''mbuf pool create failed'' (\<lambda>mp.
     call_p (Rte_eth_dev_configure 0 1 1) (\<lambda>_.
     call_p (Rte_eth_rx_queue_setup 0 0 1024 mp) (\<lambda>_.
     call_p (Rte_eth_tx_queue_setup 0 0 1024) (\<lambda>_.
     call_p (Rte_eth_dev_start 0) (\<lambda>_.
     call_p (Rte_eth_promiscuous_enable 0) (\<lambda>_.
     call_p (Rte_event_dev_configure 2 2) (\<lambda>_.
     call_p (Rte_event_queue_setup 0) (\<lambda>_.
     call_p (Rte_event_queue_setup 1) (\<lambda>_.
     call_p (Rte_event_port_default_conf_get 0) (\<lambda>_.
     call_p (Rte_event_port_setup 0) (\<lambda>_.
     call_p (Rte_event_port_default_conf_get 1) (\<lambda>_.
     call_p (Rte_event_port_setup 1) (\<lambda>_.
     call_p (Rte_event_port_link 0 [0, 1]) (\<lambda>_.
     call_p Rte_event_dev_start (\<lambda>_.
     must (Rte_event_eth_rx_adapter_create_ext 0) ''RX adapter create failed''
     (call_p (Rte_event_eth_rx_adapter_queue_add 0 0) (\<lambda>_.
     call_p (Rte_event_eth_rx_adapter_start 0) (\<lambda>_.
     call_p (Rte_event_eth_tx_adapter_create 0) (\<lambda>_.
     call_p (Rte_event_eth_tx_adapter_queue_add 0 1) (\<lambda>_.
     call_p (Rte_event_eth_tx_adapter_start 0) (\<lambda>_. done_p ())))))))))))))))))))))))"

text \<open>The checked programs enter their loop only on a device that was configured and started.\<close>

definition device_started :: "env \<Rightarrow> call list \<Rightarrow> bool" where
  "device_started E tr \<longleftrightarrow> (\<exists>i j k l n. i < j \<and> j < k \<and> k < l \<and> ok_at E tr i (Rte_event_dev_configure 1 n) \<and>
     ok_at E tr j (Rte_event_queue_setup 0) \<and> ok_at E tr k (Rte_event_port_setup 0) \<and> ok_at E tr l Rte_event_dev_start)"

lemma event_starts:
  "project_main_start E [] = (Done x, tr) \<Longrightarrow> device_started E tr"
  "consumers_main_start E [] = (Done x, tr) \<Longrightarrow> device_started E tr"
  "practice_main_start E [] = (Done x, tr) \<Longrightarrow> device_started E tr"
proof -
  show "project_main_start E [] = (Done x, tr) \<Longrightarrow> device_started E tr"
    unfolding device_started_def
    by (intro exI [of _ 1] exI [of _ 2] exI [of _ 4] exI [of _ 8] exI [of _ 2])
      (auto simp: project_main_start_def event_setup_def event_port_def prog_defs ok_at_def not_less split: if_splits)
  show "consumers_main_start E [] = (Done x, tr) \<Longrightarrow> device_started E tr"
    unfolding device_started_def
    by (intro exI [of _ 1] exI [of _ 2] exI [of _ 4] exI [of _ 11] exI [of _ 3])
      (auto simp: consumers_main_start_def event_setup_def event_port_def prog_defs ok_at_def not_less split: if_splits)
  show "practice_main_start E [] = (Done x, tr) \<Longrightarrow> device_started E tr"
    unfolding device_started_def
    by (intro exI [of _ 1] exI [of _ 2] exI [of _ 4] exI [of _ 6] exI [of _ 1])
      (auto simp: practice_main_start_def prog_defs ok_at_def not_less split: if_splits)
qed

text \<open>
  The transmit adapter is given the Ethernet queue 1, and only queue 0 is ever set up; the
  worker's port is linked to the queue of the transmit adapter.
\<close>

lemma parsing_tx_queue:
  assumes "parsing_main_start E [] = (Done x, tr)"
  shows "Rte_event_eth_tx_adapter_queue_add 0 1 \<in> set tr" "Rte_event_port_link 0 [0, 1] \<in> set tr"
    and "Rte_eth_tx_queue_setup 0 q n \<in> set tr \<Longrightarrow> q = 0"
  using assms by (auto simp: parsing_main_start_def prog_defs split: if_splits)

end
