(* ===== verification/Rcu.thy ===== *)
theory Rcu
  imports Prelude
begin

text \<open>
  \<open>rcu/sample/main.c\<close>: a writer replaces a shared object five times while a reader on another
  core keeps reading it; the old object is freed after \<open>rte_rcu_qsbr_synchronize\<close>. Model: the
  store maps the addresses of live objects to their values, reader and writer move in any
  order, and a step that reads or frees an address that is not live is \<open>None\<close>. An allocation
  may return any address that is not in use, also one freed before; it is taken to succeed.
  \<open>rte_rcu_qsbr_lock\<close> and \<open>unlock\<close> only serve debugging and are left out.

  The library is a parameter. \<open>q_pending\<close> observes the tokens for which the reader has not
  reported since they were issued; \<open>rte_rcu_qsbr_synchronize\<close> issues a token and waits until
  it is not pending. The locale \<open>grace_period\<close> is that contract.
\<close>

record 'q rcu_api =
  q_online :: "'q \<Rightarrow> bool"
  q_pending :: "'q \<Rightarrow> nat set"
  q_register :: "'q \<Rightarrow> 'q"
  q_thread_online :: "'q \<Rightarrow> 'q"
  q_thread_offline :: "'q \<Rightarrow> 'q"
  q_unregister :: "'q \<Rightarrow> 'q"
  q_quiescent :: "'q \<Rightarrow> 'q"
  q_start :: "'q \<Rightarrow> nat \<times> 'q"

locale grace_period =
  fixes online :: "'q \<Rightarrow> bool"
    and pending :: "'q \<Rightarrow> nat set"
    and start :: "'q \<Rightarrow> nat \<times> 'q"
    and go_online :: "'q \<Rightarrow> 'q"
    and wf :: bool
    and report :: "'q \<Rightarrow> 'q"
  assumes start_pending: "wf \<Longrightarrow> start q = (t, q') \<Longrightarrow> online q \<Longrightarrow> online q' \<and> t \<in> pending q'"
    and online_online: "wf \<Longrightarrow> online (go_online q)"
    and report_answers: "wf \<Longrightarrow> pending (report q) = {}"
    and report_online: "wf \<Longrightarrow> online q \<Longrightarrow> online (report q)"
begin

text \<open>A token waits for one report of a reader that is online, and for no more than one.\<close>

lemma one_report: "wf \<Longrightarrow> online q \<Longrightarrow> start q = (t, q') \<Longrightarrow> t \<in> pending q' \<and> t \<notin> pending (report q')"
  using start_pending report_answers by blast

end

definition rcu_laws :: "'q rcu_api \<Rightarrow> bool" where
  "rcu_laws Q \<longleftrightarrow>
     (\<forall>q t q'. q_start Q q = (t, q') \<longrightarrow> q_online Q q \<longrightarrow> q_online Q q' \<and> t \<in> q_pending Q q') \<and>
     (\<forall>q. q_online Q (q_thread_online Q q)) \<and> (\<forall>q. q_pending Q (q_quiescent Q q) = {}) \<and>
     (\<forall>q. q_online Q q \<longrightarrow> q_online Q (q_quiescent Q q))"

interpretation rte_rcu: grace_period "q_online Q" "q_pending Q" "q_start Q" "q_thread_online Q" "rcu_laws Q" "q_quiescent Q" for Q
  by unfold_locales (auto simp: rcu_laws_def)

text \<open>One reader: its last report (0 when it is offline) and the last token issued.\<close>

definition ref_rcu :: "(nat \<times> nat) rcu_api" where
  "ref_rcu = \<lparr>q_online = (\<lambda>(c, t). c \<noteq> 0), q_pending = (\<lambda>(c, t). if c = 0 then {} else {c<..t}),
     q_register = id, q_thread_online = (\<lambda>(c, t). (Suc t, Suc t)), q_thread_offline = (\<lambda>(c, t). (0, t)), q_unregister = id,
     q_quiescent = (\<lambda>(c, t). (if c = 0 then 0 else Suc (max c t), t)), q_start = (\<lambda>(c, t). (max (Suc c) (Suc t), (c, max (Suc c) (Suc t))))\<rparr>"

lemma ref_rcu_laws: "rcu_laws ref_rcu"
  by (auto simp: rcu_laws_def ref_rcu_def)

subsection \<open>Reader and writer\<close>

datatype reader = Rd_register | Rd_online | Rd_check | Rd_load | Rd_print nat | Rd_quiescent | Rd_offline | Rd_unregister | Rd_done
datatype writer = Wr_alloc nat | Wr_swap nat nat | Wr_sync nat nat | Wr_wait nat nat nat | Wr_free nat nat
  | Wr_stop | Wr_join | Wr_cleanup | Wr_done

record 'q rcu_state =
  store :: "nat \<rightharpoonup> int"
  gdata :: nat
  qsbr :: 'q
  stop :: bool
  rd :: reader
  wr :: writer
  printed_values :: "int list"

definition rcu_init :: "nat \<Rightarrow> 'q \<Rightarrow> 'q rcu_state" where
  "rcu_init a q = \<lparr>store = [a \<mapsto> 0], gdata = a, qsbr = q, stop = False, rd = Rd_register, wr = Wr_alloc 0, printed_values = []\<rparr>"

definition reader_step :: "'q rcu_api \<Rightarrow> 'q rcu_state \<Rightarrow> 'q rcu_state option" where
  "reader_step Q s = (case rd s of
     Rd_register \<Rightarrow> Some (s\<lparr>qsbr := q_register Q (qsbr s), rd := Rd_online\<rparr>)
   | Rd_online \<Rightarrow> Some (s\<lparr>qsbr := q_thread_online Q (qsbr s), rd := Rd_check\<rparr>)
   | Rd_check \<Rightarrow> Some (s\<lparr>rd := if stop s then Rd_offline else Rd_load\<rparr>)
   | Rd_load \<Rightarrow> Some (s\<lparr>rd := Rd_print (gdata s)\<rparr>)
   | Rd_print d \<Rightarrow> (case store s d of None \<Rightarrow> None
       | Some v \<Rightarrow> Some (s\<lparr>printed_values := printed_values s @ [v], rd := Rd_quiescent\<rparr>))
   | Rd_quiescent \<Rightarrow> Some (s\<lparr>qsbr := q_quiescent Q (qsbr s), rd := Rd_check\<rparr>)
   | Rd_offline \<Rightarrow> Some (s\<lparr>qsbr := q_thread_offline Q (qsbr s), rd := Rd_unregister\<rparr>)
   | Rd_unregister \<Rightarrow> Some (s\<lparr>qsbr := q_unregister Q (qsbr s), rd := Rd_done\<rparr>)
   | Rd_done \<Rightarrow> Some s)"

definition rte_free :: "nat \<Rightarrow> 'q rcu_state \<Rightarrow> 'q rcu_state option" where
  "rte_free a s = (if store s a = None then None else Some (s\<lparr>store := (store s)(a := None)\<rparr>))"

text \<open>\<open>a\<close> is what an allocation returns. Waiting is a step that changes nothing.\<close>

definition writer_step :: "'q rcu_api \<Rightarrow> nat \<Rightarrow> 'q rcu_state \<Rightarrow> 'q rcu_state option" where
  "writer_step Q a s = (case wr s of
     Wr_alloc i \<Rightarrow> if i < 5 then Some (s\<lparr>store := (store s)(a \<mapsto> int i + 1), wr := Wr_swap i a\<rparr>) else Some (s\<lparr>wr := Wr_stop\<rparr>)
   | Wr_swap i new \<Rightarrow> Some (s\<lparr>gdata := new, wr := Wr_sync i (gdata s)\<rparr>)
   | Wr_sync i old \<Rightarrow> (case q_start Q (qsbr s) of (t, q) \<Rightarrow> Some (s\<lparr>qsbr := q, wr := Wr_wait i old t\<rparr>))
   | Wr_wait i old t \<Rightarrow> if t \<in> q_pending Q (qsbr s) then Some s else Some (s\<lparr>wr := Wr_free i old\<rparr>)
   | Wr_free i old \<Rightarrow> map_option (\<lambda>s. s\<lparr>wr := Wr_alloc (i + 1)\<rparr>) (rte_free old s)
   | Wr_stop \<Rightarrow> Some (s\<lparr>stop := True, wr := Wr_join\<rparr>)
   | Wr_join \<Rightarrow> if rd s = Rd_done then Some (s\<lparr>wr := Wr_cleanup\<rparr>) else Some s
   | Wr_cleanup \<Rightarrow> map_option (\<lambda>s. s\<lparr>wr := Wr_done\<rparr>) (rte_free (gdata s) s)
   | Wr_done \<Rightarrow> Some s)"

inductive rcu_step :: "'q rcu_api \<Rightarrow> 'q rcu_state \<Rightarrow> 'q rcu_state \<Rightarrow> bool" for Q where
  reader_moves: "reader_step Q s = Some s' \<Longrightarrow> rcu_step Q s s'"
| writer_moves: "store s a = None \<Longrightarrow> writer_step Q a s = Some s' \<Longrightarrow> rcu_step Q s s'"

subsection \<open>The invariant\<close>

text \<open>The live objects: the current one, and a new or an old one while the writer has it.\<close>

fun live :: "writer \<Rightarrow> nat \<Rightarrow> (nat \<rightharpoonup> int) \<Rightarrow> bool" where
  "live (Wr_alloc i) g m \<longleftrightarrow> i \<le> 5 \<and> m = [g \<mapsto> int i]"
| "live (Wr_swap i n) g m \<longleftrightarrow> i < 5 \<and> n \<noteq> g \<and> m = [g \<mapsto> int i, n \<mapsto> int i + 1]"
| "live (Wr_sync i d) g m \<longleftrightarrow> i < 5 \<and> d \<noteq> g \<and> m = [g \<mapsto> int i + 1, d \<mapsto> int i]"
| "live (Wr_wait i d t) g m \<longleftrightarrow> i < 5 \<and> d \<noteq> g \<and> m = [g \<mapsto> int i + 1, d \<mapsto> int i]"
| "live (Wr_free i d) g m \<longleftrightarrow> i < 5 \<and> d \<noteq> g \<and> m = [g \<mapsto> int i + 1, d \<mapsto> int i]"
| "live Wr_done g m \<longleftrightarrow> m = Map.empty"
| "live w g m \<longleftrightarrow> m = [g \<mapsto> 5]"

fun current :: "writer \<Rightarrow> int" where
  "current (Wr_alloc i) = int i" | "current (Wr_swap i n) = int i" | "current (Wr_sync i d) = int i + 1"
| "current (Wr_wait i d t) = int i + 1" | "current (Wr_free i d) = int i + 1" | "current w = 5"

text \<open>
  What the reader holds: the current object, or the old one while the writer has not yet
  asked, or has asked and the answer is still out.
\<close>

fun holds :: "'q rcu_api \<Rightarrow> 'q \<Rightarrow> writer \<Rightarrow> nat \<Rightarrow> nat \<Rightarrow> bool" where
  "holds Q q (Wr_sync i d) g p \<longleftrightarrow> p = g \<or> p = d"
| "holds Q q (Wr_wait i d t) g p \<longleftrightarrow> p = g \<or> p = d \<and> t \<in> q_pending Q q"
| "holds Q q w g p \<longleftrightarrow> p = g"

definition reading :: "reader \<Rightarrow> bool" where
  "reading r \<longleftrightarrow> r \<notin> {Rd_register, Rd_online, Rd_unregister, Rd_done}"

definition rcu_inv :: "'q rcu_api \<Rightarrow> 'q rcu_state \<Rightarrow> bool" where
  "rcu_inv Q s \<longleftrightarrow> live (wr s) (gdata s) (store s) \<and>
     (reading (rd s) \<longrightarrow> q_online Q (qsbr s)) \<and>
     (\<forall>p. rd s = Rd_print p \<longrightarrow> holds Q (qsbr s) (wr s) (gdata s) p \<and> (\<forall>v\<in>set (printed_values s). v \<le> the (store s p))) \<and>
     (wr s \<in> {Wr_cleanup, Wr_done} \<longrightarrow> rd s = Rd_done) \<and> (stop s \<longleftrightarrow> wr s \<in> {Wr_join, Wr_cleanup, Wr_done}) \<and>
     (rd s \<in> {Rd_offline, Rd_unregister, Rd_done} \<longrightarrow> stop s) \<and>
     sorted (printed_values s) \<and> (\<forall>v\<in>set (printed_values s). v \<le> current (wr s))"

lemma holds_live:
  "live w g m \<Longrightarrow> holds Q q w g p \<Longrightarrow> w \<noteq> Wr_done \<Longrightarrow> \<exists>v. m p = Some v \<and> v \<le> current w"
  by (cases w) auto

lemma holds_current: "w \<noteq> Wr_done \<Longrightarrow> live w g m \<Longrightarrow> holds Q q w g g \<and> m g = Some (current w)"
  by (cases w) auto

lemmas step_defs = reader_step_def writer_step_def rte_free_def

lemma reader_step_inv:
  assumes Q: "rcu_laws Q" and inv: "rcu_inv Q s"
  shows "\<exists>s'. reader_step Q s = Some s' \<and> rcu_inv Q s'"
proof (cases "rd s")
  case (Rd_print p)
  with inv have w: "wr s \<noteq> Wr_done" and h: "holds Q (qsbr s) (wr s) (gdata s) p" by (auto simp: rcu_inv_def)
  have "live (wr s) (gdata s) (store s)" using inv by (simp add: rcu_inv_def)
  from holds_live [OF this h w] obtain v where "store s p = Some v" "v \<le> current (wr s)" by blast
  with Rd_print inv show ?thesis by (auto simp: step_defs rcu_inv_def reading_def sorted_append)
next
  case Rd_load
  with inv have w: "wr s \<noteq> Wr_done" and l: "live (wr s) (gdata s) (store s)" by (auto simp: rcu_inv_def)
  from inv holds_current [OF w l, of Q "qsbr s"] Rd_load w show ?thesis by (auto simp: step_defs rcu_inv_def reading_def)
next
  case Rd_quiescent
  with rte_rcu.report_online [OF Q] inv show ?thesis by (auto simp: step_defs rcu_inv_def reading_def)
next
  case Rd_online
  with rte_rcu.online_online [OF Q] inv show ?thesis by (auto simp: step_defs rcu_inv_def reading_def)
qed (use inv in \<open>auto simp: step_defs rcu_inv_def reading_def\<close>)

lemma writer_step_inv:
  assumes Q: "rcu_laws Q" and inv: "rcu_inv Q s" and a: "store s a = None"
  shows "\<exists>s'. writer_step Q a s = Some s' \<and> rcu_inv Q s'"
proof (cases "wr s")
  case (Wr_sync i old)
  obtain t q where t: "q_start Q (qsbr s) = (t, q)" by fastforce
  from rte_rcu.start_pending [OF Q t] Wr_sync inv t show ?thesis
    by (auto simp: step_defs rcu_inv_def reading_def)
qed (use inv a in \<open>auto simp: step_defs rcu_inv_def reading_def rte_free_def split: if_splits\<close>)

lemma rcu_reach_inv:
  assumes "rcu_laws Q" "(rcu_step Q)\<^sup>*\<^sup>* s s'" "rcu_inv Q s"
  shows "rcu_inv Q s'"
  using assms(2,3)
proof (induction rule: rtranclp_induct)
  case (step s1 s2)
  from step(2) show ?case
  proof cases
    case reader_moves
    with reader_step_inv [OF assms(1) step.IH [OF step.prems]] show ?thesis by (metis option.inject)
  next
    case (writer_moves a)
    with writer_step_inv [OF assms(1) step.IH [OF step.prems]] show ?thesis by (metis option.inject)
  qed
qed

subsection \<open>Both sides finish\<close>

fun wr_rank :: "writer \<Rightarrow> nat" where
  "wr_rank (Wr_alloc i) = 10 * (5 - i) + 9" | "wr_rank (Wr_swap i n) = 10 * (5 - i) + 8"
| "wr_rank (Wr_sync i d) = 10 * (5 - i) + 7" | "wr_rank (Wr_wait i d t) = 10 * (5 - i) + 6"
| "wr_rank (Wr_free i d) = 10 * (5 - i) + 5" | "wr_rank Wr_stop = 3" | "wr_rank Wr_join = 2"
| "wr_rank Wr_cleanup = 1" | "wr_rank Wr_done = 0"

fun rd_rank :: "bool \<Rightarrow> reader \<Rightarrow> nat" where
  "rd_rank b Rd_register = 7" | "rd_rank b Rd_online = 6" | "rd_rank b Rd_check = (if b then 3 else 5)"
| "rd_rank b Rd_load = (if b then 6 else 4)" | "rd_rank b (Rd_print p) = (if b then 5 else 3)"
| "rd_rank b Rd_quiescent = (if b then 4 else 2)" | "rd_rank b Rd_offline = 2" | "rd_rank b Rd_unregister = 1" | "rd_rank b Rd_done = 0"

definition rcu_rank :: "'q rcu_api \<Rightarrow> 'q rcu_state \<Rightarrow> nat \<times> nat" where
  "rcu_rank Q s = (wr_rank (wr s), (case wr s of
     Wr_wait i d t \<Rightarrow> if t \<in> q_pending Q (qsbr s) then rd_rank False (rd s) else 0
   | Wr_join \<Rightarrow> rd_rank True (rd s) | _ \<Rightarrow> 0))"

text \<open>The side that can move things forward: the writer, unless it waits for the reader.\<close>

lemma rcu_progress:
  assumes Q: "rcu_laws Q" and inv: "rcu_inv Q s" and "wr s \<noteq> Wr_done"
  shows "\<exists>s'. rcu_step Q s s' \<and> (rcu_rank Q s', rcu_rank Q s) \<in> less_than <*lex*> less_than"
proof -
  have "finite (dom (store s))" using inv by (cases "wr s") (auto simp: rcu_inv_def)
  then obtain a where a: "store s a = None" using ex_new_if_finite infinite_UNIV_nat by (metis domIff)
  obtain sr where sr: "reader_step Q s = Some sr" using reader_step_inv [OF Q inv] by blast
  obtain sw where sw: "writer_step Q a s = Some sw" using writer_step_inv [OF Q inv a] by blast
  have "(rcu_rank Q sr, rcu_rank Q s) \<in> less_than <*lex*> less_than"
    if "wr s = Wr_join \<and> rd s \<noteq> Rd_done \<or> (\<exists>i d t. wr s = Wr_wait i d t \<and> t \<in> q_pending Q (qsbr s))"
    using that sr inv rte_rcu.report_answers [OF Q]
    by (cases "rd s") (auto simp: step_defs rcu_rank_def rcu_inv_def split: option.splits)
  moreover have "(rcu_rank Q sw, rcu_rank Q s) \<in> less_than <*lex*> less_than"
    if "\<not> (wr s = Wr_join \<and> rd s \<noteq> Rd_done \<or> (\<exists>i d t. wr s = Wr_wait i d t \<and> t \<in> q_pending Q (qsbr s)))"
    using that sw inv assms(3)
    by (cases "wr s") (auto simp: step_defs rcu_rank_def rcu_inv_def split: if_splits prod.splits)
  ultimately show ?thesis using rcu_step.reader_moves [OF sr] rcu_step.writer_moves [OF a sw] by blast
qed

lemma rcu_completes:
  assumes "rcu_laws Q" "rcu_inv Q s"
  shows "\<exists>s'. (rcu_step Q)\<^sup>*\<^sup>* s s' \<and> wr s' = Wr_done"
  using assms(2)
proof (induction "rcu_rank Q s" arbitrary: s rule: wf_induct_rule [OF wf_lex_prod [OF wf_less_than wf_less_than]])
  case (1 s)
  show ?case
  proof (cases "wr s = Wr_done")
    case False
    with rcu_progress [OF assms(1) 1(2)] obtain s1 where s1: "rcu_step Q s s1"
      "(rcu_rank Q s1, rcu_rank Q s) \<in> less_than <*lex*> less_than" by blast
    have "rcu_inv Q s1" using rcu_reach_inv [OF assms(1) r_into_rtranclp 1(2)] s1(1) by blast
    with 1(1) [OF s1(2)] s1(1) show ?thesis by (meson converse_rtranclp_into_rtranclp)
  qed blast
qed

text \<open>
  C23. Reclamation under a concurrent reader. In every state that reader and writer can reach,
  in any order and whatever addresses the allocator reuses, neither reads nor frees an object
  that is not live; the reader's values never go back. The end can always be reached, and then
  the reader has finished and every object was freed.
\<close>

theorem rcu_safe:
  assumes "rcu_laws Q" "(rcu_step Q)\<^sup>*\<^sup>* (rcu_init a q) s"
  shows "reader_step Q s \<noteq> None \<and> (\<forall>b. store s b = None \<longrightarrow> writer_step Q b s \<noteq> None) \<and>
    sorted (printed_values s) \<and> set (printed_values s) \<subseteq> {..5} \<and>
    (wr s = Wr_done \<longrightarrow> rd s = Rd_done \<and> store s = Map.empty) \<and>
    (\<exists>s'. (rcu_step Q)\<^sup>*\<^sup>* s s' \<and> wr s' = Wr_done)"
proof -
  have "rcu_inv Q (rcu_init a q)" by (simp add: rcu_inv_def rcu_init_def reading_def)
  then have inv: "rcu_inv Q s" using rcu_reach_inv [OF assms] by blast
  have "current (wr s) \<le> 5" using inv by (cases "wr s") (auto simp: rcu_inv_def)
  with inv have "sorted (printed_values s)" "set (printed_values s) \<subseteq> {..5}"
    "wr s = Wr_done \<longrightarrow> rd s = Rd_done \<and> store s = Map.empty" by (fastforce simp: rcu_inv_def)+
  with reader_step_inv [OF assms(1) inv] writer_step_inv [OF assms(1) inv] rcu_completes [OF assms(1) inv] show ?thesis by auto
qed

theorem rcu_safe_witness:
  "\<exists>s. (rcu_step ref_rcu)\<^sup>*\<^sup>* (rcu_init 7 (0, 0)) s \<and> wr s = Wr_done \<and> store (rcu_init 7 (0, 0)) 7 = Some 0"
  using rcu_safe [OF ref_rcu_laws rtranclp.rtrancl_refl, of 7 "(0, 0)"] by (simp add: rcu_init_def)

end
