(* ===== verification/Mbuf_Clone.thy ===== *)
theory Mbuf_Clone
  imports Rte_Mbuf
begin

text \<open>
  \<open>zero_copy_cloning/main.c\<close> and \<open>mempool_membuff/simple.c\<close>: a packet pool with reference
  counts, a clone that shares the data of its original, and a buffer that is filled and read.

  The pool is the parameter \<open>pool_api\<close>. Its view is a partial map: \<open>None\<close> for an mbuf that
  lies in the pool, else its reference count and the mbuf in whose data room its data are
  (itself, or the original of a clone). \<open>pool_laws\<close> is what the documentation of
  \<open>rte_pktmbuf_alloc\<close>, \<open>rte_pktmbuf_clone\<close> and \<open>rte_pktmbuf_free\<close> promises; \<open>ref_pool\<close>
  is a pool that keeps it.

  \<open>wf_pool v held\<close> types a pool by the multiset of mbufs the program holds: every count is
  the number of times the mbuf is held plus the number of its clones. The locale
  \<open>packet_pool\<close> proves that each operation keeps the typing, and that a program that holds
  nothing has left nothing behind.
\<close>

type_synonym pool_view = "nat \<Rightarrow> (nat \<times> nat) option"

record 'p pool_api =
  po_view :: "'p \<Rightarrow> pool_view"
  po_avail :: "'p \<Rightarrow> nat"
  po_data :: "nat \<Rightarrow> nat"
  po_alloc :: "'p \<Rightarrow> (nat \<times> 'p) option"
  po_clone :: "'p \<Rightarrow> nat \<Rightarrow> (nat \<times> 'p) option"
  po_free :: "'p \<Rightarrow> nat \<Rightarrow> 'p"

text \<open>The effect of \<open>rte_pktmbuf_free\<close>: the last reference to a clone also drops one of its original.\<close>

definition free_view :: "pool_view \<Rightarrow> nat \<Rightarrow> pool_view" where
  "free_view v m = (case v m of None \<Rightarrow> v
     | Some (k, orig) \<Rightarrow>
         if 1 < k then v(m \<mapsto> (k - 1, orig))
         else if orig = m then v(m := None)
         else (case v orig of None \<Rightarrow> v(m := None)
           | Some (j, q) \<Rightarrow> if 1 < j then v(m := None, orig \<mapsto> (j - 1, q)) else v(m := None, orig := None)))"

definition pool_laws :: "'p pool_api \<Rightarrow> bool" where
  "pool_laws P \<longleftrightarrow>
     (\<forall>p m p'. po_alloc P p = Some (m, p') \<longrightarrow>
        po_view P p m = None \<and> po_view P p' = (po_view P p)(m \<mapsto> (1, m)) \<and> po_avail P p = Suc (po_avail P p')) \<and>
     (\<forall>p m c p' k orig j q. po_view P p m = Some (k, orig) \<longrightarrow> po_view P p orig = Some (j, q) \<longrightarrow>
        po_clone P p m = Some (c, p') \<longrightarrow>
        po_view P p c = None \<and> po_view P p' = (po_view P p)(c \<mapsto> (1, orig), orig \<mapsto> (j + 1, q)) \<and>
        po_avail P p = Suc (po_avail P p')) \<and>
     (\<forall>p. po_alloc P p = None \<longrightarrow> po_avail P p = 0) \<and>
     (\<forall>p m. po_view P p m \<noteq> None \<longrightarrow> po_clone P p m = None \<longrightarrow> po_avail P p = 0) \<and>
     (\<forall>p m. po_view P p m \<noteq> None \<longrightarrow> po_view P (po_free P p m) = free_view (po_view P p) m)"

subsection \<open>Typing a pool\<close>

definition clones :: "pool_view \<Rightarrow> nat \<Rightarrow> nat set" where
  "clones v m = {c. c \<noteq> m \<and> (\<exists>k. v c = Some (k, m))}"

definition wf_pool :: "pool_view \<Rightarrow> nat multiset \<Rightarrow> bool" where
  "wf_pool v held \<longleftrightarrow> finite (dom v) \<and> set_mset held \<subseteq> dom v \<and>
     (\<forall>m k orig. v m = Some (k, orig) \<longrightarrow>
        (\<exists>j. v orig = Some (j, orig)) \<and> k = count held m + card (clones v m) \<and> 0 < k)"

lemma wf_poolD:
  assumes "wf_pool v held" "v m = Some (k, orig)"
  shows "\<exists>j. v orig = Some (j, orig)" "k = count held m + card (clones v m)" "0 < k" "finite (clones v m)"
  using assms by (auto simp: wf_pool_def clones_def intro: finite_subset [of _ "dom v"])

lemma clones_of_clone: "wf_pool v held \<Longrightarrow> v m = Some (k, orig) \<Longrightarrow> orig \<noteq> m \<Longrightarrow> clones v m = {}"
  using wf_poolD(1) by (force simp: clones_def)

lemma clones_free: "wf_pool v held \<Longrightarrow> v m = None \<Longrightarrow> clones v m = {}"
  using wf_poolD(1) by (force simp: clones_def)

lemma wf_pool_empty: "wf_pool v {#} \<Longrightarrow> v = Map.empty"
proof (rule ext, rule ccontr)
  fix m assume wf: "wf_pool v {#}" and "v m \<noteq> None"
  then obtain k orig where m: "v m = Some (k, orig)" by auto
  obtain j where o: "v orig = Some (j, orig)" using wf_poolD(1) [OF wf m] by blast
  have "clones v orig \<noteq> {}" using wf_poolD(2,3) [OF wf o] by (auto simp: card_gt_0_iff)
  then obtain c l where c: "c \<noteq> orig" "v c = Some (l, orig)" by (auto simp: clones_def)
  then show False using wf_poolD(2,3) [OF wf c(2)] clones_of_clone [OF wf c(2)] by simp
qed

lemma wf_poolI:
  assumes "finite (dom v)" "set_mset held \<subseteq> dom v"
    "\<And>m k orig. v m = Some (k, orig) \<Longrightarrow>
       (\<exists>j. v orig = Some (j, orig)) \<and> k = count held m + card (clones v m) \<and> 0 < k"
  shows "wf_pool v held"
  using assms by (simp add: wf_pool_def)

lemma clones_recount: "v m = Some (k, orig) \<Longrightarrow> clones (v(m \<mapsto> (k', orig))) x = clones v x"
  by (auto simp: clones_def)

lemma clones_new:
  "v c = None \<Longrightarrow> clones (v(c \<mapsto> (k, orig))) x = (if x = orig \<and> x \<noteq> c then insert c (clones v x) else clones v x)"
  by (auto simp: clones_def)

lemma clones_drop: "clones (v(m := None)) x = clones v x - {m}"
  by (auto simp: clones_def)

lemma not_clone_of: "v m = Some (k, orig) \<Longrightarrow> x \<noteq> orig \<Longrightarrow> m \<notin> clones v x"
  by (auto simp: clones_def)

lemma not_held: "wf_pool v held \<Longrightarrow> v m = None \<Longrightarrow> count held m = 0"
  by (auto simp: wf_pool_def count_eq_zero_iff)

lemma wf_alloc:
  assumes wf: "wf_pool v held" and m: "v m = None"
  shows "wf_pool (v(m \<mapsto> (1, m))) (add_mset m held)"
proof (rule wf_poolI)
  show "finite (dom (v(m \<mapsto> (1, m))))" "set_mset (add_mset m held) \<subseteq> dom (v(m \<mapsto> (1, m)))"
    using wf by (auto simp: wf_pool_def)
  fix x k orig assume x: "(v(m \<mapsto> (1, m))) x = Some (k, orig)"
  show "(\<exists>j. (v(m \<mapsto> (1, m))) orig = Some (j, orig)) \<and>
      k = count (add_mset m held) x + card (clones (v(m \<mapsto> (1, m))) x) \<and> 0 < k"
  proof (cases "x = m")
    case True
    with x show ?thesis using not_held [OF wf m] clones_free [OF wf m] m by (simp add: clones_new)
  next
    case False
    with x have v: "v x = Some (k, orig)" by simp
    from wf_poolD(1) [OF wf v] obtain j where j: "v orig = Some (j, orig)" by blast
    with m have "orig \<noteq> m" by auto
    with j False m wf_poolD(2,3) [OF wf v] show ?thesis by (simp add: clones_new)
  qed
qed

lemma wf_clone:
  assumes wf: "wf_pool v held" and m: "v m = Some (k, orig)" and o: "v orig = Some (j, orig)" and c: "v c = None"
  shows "wf_pool (v(c \<mapsto> (1, orig), orig \<mapsto> (j + 1, orig))) (add_mset c held)"
proof -
  define w where "w = v(c \<mapsto> (1, orig), orig \<mapsto> (j + 1, orig))"
  have ne: "c \<noteq> orig" using o c by auto
  have cl: "clones w x = (if x = orig then insert c (clones v x) else clones v x)" for x
    unfolding w_def using ne o c by (simp add: clones_recount [of _ orig j] clones_new)
  have cn: "c \<notin> clones v orig" using c by (simp add: clones_def)
  have w: "w c = Some (1, orig)" "w orig = Some (j + 1, orig)" "\<And>x. x \<noteq> c \<Longrightarrow> x \<noteq> orig \<Longrightarrow> w x = v x"
    using ne by (simp_all add: w_def)
  have "wf_pool w (add_mset c held)"
  proof (rule wf_poolI)
    show "finite (dom w)" "set_mset (add_mset c held) \<subseteq> dom w" using wf by (auto simp: wf_pool_def w_def)
    fix x l q assume x: "w x = Some (l, q)"
    consider "x = c" | "x = orig" | "x \<noteq> c" "x \<noteq> orig" by blast
    then show "(\<exists>i. w q = Some (i, q)) \<and> l = count (add_mset c held) x + card (clones w x) \<and> 0 < l"
    proof cases
      case 1
      with x w ne not_held [OF wf c] clones_free [OF wf c] show ?thesis by (auto simp: cl)
    next
      case 2
      with x w ne cn wf_poolD(2,4) [OF wf o] show ?thesis by (auto simp: cl)
    next
      case 3
      with x w(3) have v: "v x = Some (l, q)" by simp
      from wf_poolD(1) [OF wf v] obtain i where i: "v q = Some (i, q)" by blast
      with c have "q \<noteq> c" by auto
      then have "\<exists>i. w q = Some (i, q)" using i w by (cases "q = orig") auto
      with 3 wf_poolD(2,3) [OF wf v] show ?thesis by (simp add: cl)
    qed
  qed
  then show ?thesis by (simp only: w_def)
qed

lemma wf_recount:
  assumes wf: "wf_pool v held" and m: "v m = Some (k, orig)" and h: "m \<in># held" and k: "1 < k"
  shows "wf_pool (v(m \<mapsto> (k - 1, orig))) (held - {#m#})" (is "wf_pool ?v _")
proof (rule wf_poolI)
  show "finite (dom ?v)" "set_mset (held - {#m#}) \<subseteq> dom ?v"
    using wf by (auto simp: wf_pool_def dest: in_diffD)
  fix x l q assume x: "?v x = Some (l, q)"
  have cnt: "0 < count held m" using h by simp
  show "(\<exists>i. ?v q = Some (i, q)) \<and> l = count (held - {#m#}) x + card (clones ?v x) \<and> 0 < l"
  proof (cases "x = m")
    case True
    with x have "l = k - 1" "q = orig" by auto
    moreover have "\<exists>i. ?v orig = Some (i, orig)" using wf_poolD(1) [OF wf m] by auto
    ultimately show ?thesis using wf_poolD(2) [OF wf m] k cnt True by (simp add: clones_recount [where v = v, OF m])
  next
    case False
    with x have v: "v x = Some (l, q)" by simp
    have "\<exists>i. ?v q = Some (i, q)" using wf_poolD(1) [OF wf v] m by auto
    with False wf_poolD(2,3) [OF wf v] show ?thesis by (simp add: clones_recount [where v = v, OF m])
  qed
qed

text \<open>The last reference to \<open>m\<close> goes: it has no clones.\<close>

lemma last_reference:
  assumes "wf_pool v held" "v m = Some (k, orig)" "m \<in># held" "\<not> 1 < k"
  shows "clones v m = {}" "count held m = 1" "m \<notin># held - {#m#}"
proof -
  have "0 < count held m" using assms(3) by simp
  with wf_poolD(2) [OF assms(1,2)] assms(4) have c: "card (clones v m) = 0" "count held m = 1" by linarith+
  then show "clones v m = {}" using wf_poolD(4) [OF assms(1,2)] by simp
  show "count held m = 1" "m \<notin># held - {#m#}" using c by (simp_all add: not_in_iff)
qed

lemma wf_drop:
  assumes wf: "wf_pool v held" and m: "v m = Some (k, m)" and h: "m \<in># held" and k: "\<not> 1 < k"
  shows "wf_pool (v(m := None)) (held - {#m#})" (is "wf_pool ?v _")
proof (rule wf_poolI)
  note l = last_reference [OF wf m h k]
  have cl: "clones ?v x = clones v x" for x
    using not_clone_of [of v m k m x, OF m] l(1) by (cases "x = m") (auto simp: clones_drop)
  show "finite (dom ?v)" "set_mset (held - {#m#}) \<subseteq> dom ?v"
    using wf l(3) by (auto simp: wf_pool_def dest: in_diffD)
  fix x l q assume x: "?v x = Some (l, q)"
  then have ne: "x \<noteq> m" "v x = Some (l, q)" by (auto split: if_splits)
  have "q \<noteq> m" using ne \<open>clones v m = {}\<close> by (auto simp: clones_def)
  then show "(\<exists>i. ?v q = Some (i, q)) \<and> l = count (held - {#m#}) x + card (clones ?v x) \<and> 0 < l"
    using wf_poolD [OF wf ne(2)] ne by (auto simp: cl)
qed

lemma wf_drop_clone:
  assumes wf: "wf_pool v held" and m: "v m = Some (k, orig)" and h: "m \<in># held" and k: "\<not> 1 < k"
    and ne: "orig \<noteq> m" and o: "v orig = Some (j, orig)"
  shows "wf_pool (if 1 < j then v(m := None, orig \<mapsto> (j - 1, orig)) else v(m := None, orig := None)) (held - {#m#})"
    (is "wf_pool ?v _")
proof (rule wf_poolI)
  note l = last_reference [OF wf m h k] and jo = wf_poolD(2-4) [OF wf o]
  have mo: "m \<in> clones v orig" using m ne by (simp add: clones_def)
  have card: "card (clones v orig) = Suc (card (clones v orig - {m}))"
    by (rule card.remove [OF jo(3) mo])
  have last: "count held orig = 0 \<and> clones v orig = {m}" if "\<not> 1 < j"
  proof -
    have "card (clones v orig - {m}) = 0" "count held orig = 0" using that jo(1) card by linarith+
    moreover have "finite (clones v orig - {m})" using jo(3) by (rule finite_Diff)
    ultimately have "clones v orig - {m} = {}" by (simp only: card_0_eq)
    then show ?thesis using mo \<open>count held orig = 0\<close> by blast
  qed
  have no: "orig \<notin> clones v x" for x by (cases "x = orig") (simp_all add: clones_def o)
  have om: "(v(m := None)) orig = Some (j, orig)" using o ne by simp
  have cl: "clones ?v x = (if x = orig then clones v orig - {m} else clones v x)" for x
    using not_clone_of [of v m k orig x, OF m] no [of x]
    by (cases "1 < j") (simp_all add: clones_recount [where v = "v(m := None)", OF om] clones_drop)
  have "set_mset (held - {#m#}) \<subseteq> dom v - {m}"
    using wf l(3) by (auto simp: wf_pool_def dest: in_diffD)
  moreover have "orig \<notin># held" if "\<not> 1 < j" using last [OF that] by (simp add: count_eq_zero_iff)
  ultimately show "set_mset (held - {#m#}) \<subseteq> dom ?v" by (auto dest: in_diffD)
  show "finite (dom ?v)" using wf by (simp add: wf_pool_def)
  fix x l q assume x: "?v x = Some (l, q)"
  with ne have xm: "x \<noteq> m" by (auto split: if_splits)
  show "(\<exists>i. ?v q = Some (i, q)) \<and> l = count (held - {#m#}) x + card (clones ?v x) \<and> 0 < l"
  proof (cases "x = orig")
    case True
    with x have j: "1 < j" "l = j - 1" "q = orig" by (auto split: if_splits)
    have "card (clones ?v orig) = card (clones v orig - {m})" by (simp only: cl if_True refl)
    with j jo(1) card ne True show ?thesis using o by auto
  next
    case False
    with x xm have v: "v x = Some (l, q)" by (auto split: if_splits)
    have "q \<noteq> m" using wf_poolD(1) [OF wf v] m ne by auto
    moreover have "q \<noteq> orig" if "\<not> 1 < j" using last [OF that] v xm False by (auto simp: clones_def)
    ultimately have "\<exists>i. ?v q = Some (i, q)" using wf_poolD(1) [OF wf v] by auto
    moreover have c: "clones ?v x = clones v x" using False by (simp only: cl if_False)
    have "l = count (held - {#m#}) x + card (clones ?v x)" "0 < l"
      unfolding c using wf_poolD(2,3) [OF wf v] xm by simp_all
    ultimately show ?thesis by blast
  qed
qed

lemma wf_free:
  assumes "wf_pool v held" "m \<in># held"
  shows "wf_pool (free_view v m) (held - {#m#})"
proof -
  from assms have "m \<in> dom v" by (auto simp: wf_pool_def)
  then obtain k orig where m: "v m = Some (k, orig)" by auto
  obtain j where o: "v orig = Some (j, orig)" using wf_poolD(1) [OF assms(1) m] by blast
  consider "1 < k" | "\<not> 1 < k" "orig = m" | "\<not> 1 < k" "orig \<noteq> m" by blast
  then show ?thesis
  proof cases
    case 1
    then have "free_view v m = v(m \<mapsto> (k - 1, orig))" using m by (simp add: free_view_def)
    with wf_recount [OF assms(1) m assms(2) 1] show ?thesis by (simp only:)
  next
    case 2
    then have "free_view v m = v(m := None)" using m by (simp add: free_view_def)
    with wf_drop [OF assms(1) m [unfolded 2(2)] assms(2) 2(1)] show ?thesis by (simp only:)
  next
    case 3
    then have "free_view v m =
        (if 1 < j then v(m := None, orig \<mapsto> (j - 1, orig)) else v(m := None, orig := None))"
      using m o by (simp add: free_view_def)
    with wf_drop_clone [OF assms(1) m assms(2) 3 o] show ?thesis by (simp only:)
  qed
qed

subsection \<open>The contract of a pool\<close>

datatype pool_call = Alloc nat | Clone nat nat | Free nat

text \<open>Running calls on a pool, and the mbufs held after them; \<open>None\<close> when one is used that is not held.\<close>

fun pool_exec :: "'p pool_api \<Rightarrow> pool_call list \<Rightarrow> 'p \<Rightarrow> 'p \<Rightarrow> bool" where
  "pool_exec P [] p p' = (p' = p)"
| "pool_exec P (Alloc m # cs) p p' = (case po_alloc P p of None \<Rightarrow> False | Some (x, q) \<Rightarrow> x = m \<and> pool_exec P cs q p')"
| "pool_exec P (Clone m c # cs) p p' = (case po_clone P p m of None \<Rightarrow> False | Some (x, q) \<Rightarrow> x = c \<and> pool_exec P cs q p')"
| "pool_exec P (Free m # cs) p p' = pool_exec P cs (po_free P p m) p'"

fun typed_calls :: "nat multiset \<Rightarrow> pool_call list \<Rightarrow> nat multiset option" where
  "typed_calls held [] = Some held"
| "typed_calls held (Alloc m # cs) = typed_calls (add_mset m held) cs"
| "typed_calls held (Clone m c # cs) = (if m \<in># held then typed_calls (add_mset c held) cs else None)"
| "typed_calls held (Free m # cs) = (if m \<in># held then typed_calls (held - {#m#}) cs else None)"

locale packet_pool =
  fixes view :: "'p \<Rightarrow> pool_view"
    and alloc :: "'p \<Rightarrow> (nat \<times> 'p) option"
    and clone :: "'p \<Rightarrow> nat \<Rightarrow> (nat \<times> 'p) option"
    and free :: "'p \<Rightarrow> nat \<Rightarrow> 'p"
    and avail :: "'p \<Rightarrow> nat"
    and ok :: bool
  assumes alloc_new: "ok \<Longrightarrow> alloc p = Some (m, p') \<Longrightarrow>
      view p m = None \<and> view p' = (view p)(m \<mapsto> (1, m)) \<and> avail p = Suc (avail p')"
    and clone_shares: "ok \<Longrightarrow> view p m = Some (k, orig) \<Longrightarrow> view p orig = Some (j, q) \<Longrightarrow> clone p m = Some (c, p') \<Longrightarrow>
      view p c = None \<and> view p' = (view p)(c \<mapsto> (1, orig), orig \<mapsto> (j + 1, q)) \<and> avail p = Suc (avail p')"
    and alloc_empty: "ok \<Longrightarrow> alloc p = None \<Longrightarrow> avail p = 0"
    and clone_empty: "ok \<Longrightarrow> view p m \<noteq> None \<Longrightarrow> clone p m = None \<Longrightarrow> avail p = 0"
    and free_one: "ok \<Longrightarrow> view p m \<noteq> None \<Longrightarrow> view (free p m) = free_view (view p) m"
begin

definition typed :: "'p \<Rightarrow> nat multiset \<Rightarrow> bool" where
  "typed p held \<longleftrightarrow> wf_pool (view p) held"

lemma held_live: "typed p held \<Longrightarrow> m \<in># held \<Longrightarrow> view p m \<noteq> None"
  by (auto simp: typed_def wf_pool_def)

lemma typed_alloc: "ok \<Longrightarrow> typed p held \<Longrightarrow> alloc p = Some (m, p') \<Longrightarrow> typed p' (add_mset m held)"
  using alloc_new wf_alloc by (metis typed_def)

lemma typed_clone:
  assumes ok "typed p held" "m \<in># held" "clone p m = Some (c, p')"
  shows "typed p' (add_mset c held)"
proof -
  obtain k orig where m: "view p m = Some (k, orig)" using held_live [OF assms(2,3)] by auto
  obtain j where o: "view p orig = Some (j, orig)" using wf_poolD(1) [where v = "view p", OF _ m] assms(2) by (auto simp: typed_def)
  from clone_shares [OF assms(1) m o assms(4)] wf_clone [where v = "view p", OF _ m o] assms(2) show ?thesis by (simp add: typed_def)
qed

lemma typed_free: "ok \<Longrightarrow> typed p held \<Longrightarrow> m \<in># held \<Longrightarrow> typed (free p m) (held - {#m#})"
  using free_one held_live wf_free by (metis typed_def)

lemma typed_nothing: "typed p {#} \<Longrightarrow> view p = Map.empty"
  unfolding typed_def by (rule wf_pool_empty)

end

interpretation rte_pool: packet_pool "po_view P" "po_alloc P" "po_clone P" "po_free P" "po_avail P" "pool_laws P" for P
  unfolding pool_laws_def by unfold_locales blast+

text \<open>Calls that type keep the pool typed: no mbuf is used after it went back, and none is left behind.\<close>

lemma pool_sound:
  "pool_laws P \<Longrightarrow> pool_exec P cs p p' \<Longrightarrow> wf_pool (po_view P p) held \<Longrightarrow> typed_calls held cs = Some held' \<Longrightarrow>
   wf_pool (po_view P p') held'"
proof (induction P cs p p' arbitrary: held rule: pool_exec.induct)
  case (2 P m cs p p')
  then show ?case using rte_pool.typed_alloc [of P p held m] by (auto simp: rte_pool.typed_def split: option.splits)
next
  case (3 P m c cs p p')
  then show ?case using rte_pool.typed_clone [of P p held m c]
    by (auto simp: rte_pool.typed_def split: option.splits if_splits)
next
  case (4 P m cs p p')
  then show ?case using rte_pool.typed_free [of P p held m] by (auto simp: rte_pool.typed_def split: if_splits)
qed auto

subsection \<open>zero_copy_cloning/main.c\<close>

fun store :: "mem \<Rightarrow> nat \<Rightarrow> u8 list \<Rightarrow> mem" where
  "store m a [] = m"
| "store m a (b # bs) = store (st8 m a b) (a + 1) bs"

definition bytes_of :: "string \<Rightarrow> u8 list" where
  "bytes_of s = map (\<lambda>c. of_nat (of_char c)) s"

definition strcpy :: "mem \<Rightarrow> nat \<Rightarrow> string \<Rightarrow> mem" where
  "strcpy m a s = store m a (bytes_of s @ [0])"

text \<open>A C string read at \<open>a\<close>; \<open>None\<close> when no zero byte follows in the data room of 2048 bytes.\<close>

definition c_string :: "mem \<Rightarrow> nat \<Rightarrow> string option" where
  "c_string m a = (let bs = map (\<lambda>i. m (a + i)) [0..<2048]
     in if 0 \<in> set bs then Some (map (\<lambda>b. char_of (unat b)) (takeWhile (\<lambda>b. b \<noteq> 0) bs)) else None)"

definition mtod :: "'p pool_api \<Rightarrow> 'p \<Rightarrow> nat \<Rightarrow> nat option" where
  "mtod P p m = map_option (\<lambda>(_, orig). po_data P orig) (po_view P p m)"

definition refcnt_read :: "'p pool_api \<Rightarrow> 'p \<Rightarrow> nat \<Rightarrow> nat option" where
  "refcnt_read P p m = map_option fst (po_view P p m)"

record zc_report =
  original_data :: "string option"
  cloned_data :: "string option"
  same_buffer :: bool
  refcnt_after_clone :: "nat option"
  original_sees :: "string option"
  clone_sees :: "string option"
  refcnt_after_free :: "nat option"

text \<open>
  The program after \<open>rte_eal_init\<close> and \<open>rte_pktmbuf_pool_create\<close>: what it prints, its pool
  calls, the pool and the memory at the end, and \<open>data_len\<close> and \<open>pkt_len\<close> of the mbufs.
  A pointer taken from an mbuf that lies in the pool is \<open>None\<close>.
\<close>

definition zero_copy_main :: "'p pool_api \<Rightarrow> int \<Rightarrow> 'p option \<Rightarrow> mem \<Rightarrow> (nat \<Rightarrow> nat \<times> nat) \<Rightarrow>
    (string + zc_report \<times> pool_call list \<times> 'p \<times> mem \<times> (nat \<Rightarrow> nat \<times> nat)) option" where
  "zero_copy_main P ret mbuf_pool mem lens =
     (if ret < 0 then Some (Inl ''EAL init failed'')
      else (case mbuf_pool of None \<Rightarrow> Some (Inl ''Cannot create mbuf pool'')
      | Some p \<Rightarrow> (case po_alloc P p of None \<Rightarrow> Some (Inl ''mbuf alloc failed'')
      | Some (m1, p1) \<Rightarrow> (case mtod P p1 m1 of None \<Rightarrow> None
      | Some data \<Rightarrow>
          (let mem1 = strcpy mem data ''Hello DPDK Zero Copy!'';
               len = length ''Hello DPDK Zero Copy!'' + 1;
               lens1 = lens(m1 := (len, len))
           in (case po_clone P p1 m1 of None \<Rightarrow> Some (Inl ''clone failed'')
           | Some (m2, p2) \<Rightarrow> (case mtod P p2 m2 of None \<Rightarrow> None
           | Some data_clone \<Rightarrow>
               (let mem2 = strcpy mem1 data_clone ''MODIFIED!'';
                    p3 = po_free P p2 m1;
                    p4 = po_free P p3 m2
                in Some (Inr
                     (\<lparr>original_data = c_string mem1 data, cloned_data = c_string mem1 data_clone,
                       same_buffer = (data = data_clone), refcnt_after_clone = refcnt_read P p2 m1,
                       original_sees = c_string mem2 data, clone_sees = c_string mem2 data_clone,
                       refcnt_after_free = refcnt_read P p3 m2\<rparr>,
                      [Alloc m1, Clone m1 m2, Free m1, Free m2], p4, mem2, lens1(m2 := lens1 m1)))))))))))"

lemma store_at: "store m a bs i = (if a \<le> i \<and> i < a + length bs then bs ! (i - a) else m i)"
  by (induction bs arbitrary: m a) (auto simp: nth_Cons' st8_def fun_upd_apply)

lemma c_string_strcpy:
  assumes "CHR 0x00 \<notin> set s" "length s < 2048"
  shows "c_string (strcpy m a s) a = Some s"
proof -
  have u: "unat (of_nat (of_char c) :: u8) = of_char c" for c
    by (simp add: unat_of_nat take_bit_nat_eq_self )
  have nz: "(of_nat (of_char c) :: u8) \<noteq> 0" if "c \<in> set s" for c
  proof
    assume "(of_nat (of_char c) :: u8) = 0"
    with u [of c] have "of_char c = (of_char (CHR 0x00) :: nat)" by simp
    then have "c = CHR 0x00" by (simp only: of_char_eq_iff)
    with assms(1) that show False by simp
  qed
  let ?bs = "map (\<lambda>i. strcpy m a s (a + i)) [0..<2048]"
  have n: "[0..<2048] = [0..<length s] @ length s # [length s + 1..<2048]"
  proof -
    have "[0..<length s + (2048 - length s)] = [0..<length s] @ [length s..<length s + (2048 - length s)]"
      by (rule upt_add_eq_append) simp
    moreover have "length s + (2048 - length s) = 2048" using assms(2) by simp
    ultimately show ?thesis using upt_conv_Cons [OF assms(2)] by (simp only: Suc_eq_plus1)
  qed
  have "map (\<lambda>i. strcpy m a s (a + i)) [0..<length s] = bytes_of s"
    by (intro nth_equalityI) (simp_all add: strcpy_def store_at bytes_of_def nth_append)
  moreover have "strcpy m a s (a + length s) = 0" by (simp add: strcpy_def store_at bytes_of_def nth_append)
  ultimately obtain rest where bs: "?bs = bytes_of s @ 0 # rest" by (simp add: n)
  have "takeWhile (\<lambda>b. b \<noteq> 0) ?bs = bytes_of s"
    unfolding bs using nz by (subst takeWhile_append2) (auto simp: bytes_of_def)
  moreover have "0 \<in> set ?bs" unfolding bs by simp
  ultimately show ?thesis by (simp add: c_string_def Let_def bytes_of_def comp_def u del: set_map)
qed


lemma strings_demo:
  "c_string (strcpy m a ''Hello DPDK Zero Copy!'') a = Some ''Hello DPDK Zero Copy!''"
  "c_string (strcpy m a ''MODIFIED!'') a = Some ''MODIFIED!''"
  by (rule c_string_strcpy; simp)+

text \<open>
  C38. Cloning shares and typing holds. In a pool that is well typed for what is held (every
  reference count is the number of holders and clones of the mbuf) and has two mbufs left, the program
  runs to its end: the clone has the data address of the original and shows the same text,
  the original's count is 2, a write through the clone is seen through both, the clone is
  still alive with count 1 after the original was freed, and its pool calls are typed: each
  uses an mbuf the program holds, the pool stays well typed, and both mbufs are back.
\<close>

theorem zero_copy_typed:
  assumes laws: "pool_laws P" and wf: "wf_pool (po_view P p) held" and two: "2 \<le> po_avail P p"
  shows "\<exists>rep cs p' mem' lens'. zero_copy_main P 0 (Some p) mem lens = Some (Inr (rep, cs, p', mem', lens')) \<and>
    rep = \<lparr>original_data = Some ''Hello DPDK Zero Copy!'', cloned_data = Some ''Hello DPDK Zero Copy!'',
      same_buffer = True, refcnt_after_clone = Some 2, original_sees = Some ''MODIFIED!'',
      clone_sees = Some ''MODIFIED!'', refcnt_after_free = Some 1\<rparr> \<and>
    pool_exec P cs p p' \<and> typed_calls held cs = Some held \<and> wf_pool (po_view P p') held \<and>
    po_view P p' = po_view P p"
proof -
  obtain m1 p1 where a: "po_alloc P p = Some (m1, p1)"
    using rte_pool.alloc_empty [OF laws, of p] two by (cases "po_alloc P p") auto
  from rte_pool.alloc_new [OF laws a] two
  have v1: "po_view P p m1 = None" "po_view P p1 = (po_view P p)(m1 \<mapsto> (1, m1))" "1 \<le> po_avail P p1" by auto
  then have m1: "po_view P p1 m1 = Some (1, m1)" by simp
  obtain m2 p2 where c: "po_clone P p1 m1 = Some (m2, p2)"
    using rte_pool.clone_empty [OF laws, of p1 m1] m1 v1(3) by (cases "po_clone P p1 m1") auto
  from rte_pool.clone_shares [OF laws m1 m1 c]
  have v2: "po_view P p1 m2 = None" "po_view P p2 = (po_view P p1)(m2 \<mapsto> (1, m1), m1 \<mapsto> (2, m1))"
    by (simp_all add: numeral_2_eq_2)
  have ne: "m1 \<noteq> m2" using m1 v2(1) by auto
  define p3 where "p3 = po_free P p2 m1"
  have v3: "po_view P p3 = (po_view P p1)(m2 \<mapsto> (1, m1), m1 \<mapsto> (1, m1))"
    using rte_pool.free_one [OF laws, of p2 m1] ne by (simp add: v2(2) p3_def free_view_def)
  define p4 where "p4 = po_free P p3 m2"
  have v4: "po_view P p4 = po_view P p"
    using rte_pool.free_one [OF laws, of p3 m2] ne v2(1) v1(1,2)
    by (auto simp: v3 p4_def free_view_def fun_eq_iff)
  have run: "zero_copy_main P 0 (Some p) mem lens = Some (Inr
     (\<lparr>original_data = Some ''Hello DPDK Zero Copy!'', cloned_data = Some ''Hello DPDK Zero Copy!'',
      same_buffer = True, refcnt_after_clone = Some 2, original_sees = Some ''MODIFIED!'',
      clone_sees = Some ''MODIFIED!'', refcnt_after_free = Some 1\<rparr>, [Alloc m1, Clone m1 m2, Free m1, Free m2], p4,
      strcpy (strcpy mem (po_data P m1) ''Hello DPDK Zero Copy!'') (po_data P m1) ''MODIFIED!'',
      lens(m1 := (length ''Hello DPDK Zero Copy!'' + 1, length ''Hello DPDK Zero Copy!'' + 1),
        m2 := (length ''Hello DPDK Zero Copy!'' + 1, length ''Hello DPDK Zero Copy!'' + 1))))"
    using ne by (simp add: zero_copy_main_def a c m1 v2(2) v3 mtod_def refcnt_read_def strings_demo
        p3_def [symmetric] p4_def [symmetric] Let_def)
  have "pool_exec P [Alloc m1, Clone m1 m2, Free m1, Free m2] p p4" by (simp add: a c p3_def p4_def)
  moreover have "typed_calls held [Alloc m1, Clone m1 m2, Free m1, Free m2] = Some held" using ne by auto
  ultimately show ?thesis using run pool_sound [OF laws _ wf] v4 by blast
qed


text \<open>A pool of \<open>n\<close> mbufs with data rooms of 2176 bytes, that takes the first free one.\<close>

definition ref_take :: "nat \<Rightarrow> pool_view \<Rightarrow> nat option" where
  "ref_take n p = List.find (\<lambda>i. p i = None) [0..<n]"

definition ref_pool :: "nat \<Rightarrow> pool_view pool_api" where
  "ref_pool n = \<lparr>po_view = id, po_avail = (\<lambda>p. length (filter (\<lambda>i. p i = None) [0..<n])),
     po_data = (\<lambda>i. 2176 * i + 128),
     po_alloc = (\<lambda>p. map_option (\<lambda>m. (m, p(m \<mapsto> (1, m)))) (ref_take n p)),
     po_clone = (\<lambda>p m. map_option (\<lambda>c. (c, case p m of None \<Rightarrow> p | Some (k, orig) \<Rightarrow>
        (case p orig of None \<Rightarrow> p(c \<mapsto> (1, orig)) | Some (j, q) \<Rightarrow> p(c \<mapsto> (1, orig), orig \<mapsto> (j + 1, q))))) (ref_take n p)),
     po_free = free_view\<rparr>"

lemma ref_take_None: "ref_take n p = None \<longleftrightarrow> filter (\<lambda>i. p i = None) [0..<n] = []"
  by (auto simp: ref_take_def find_None_iff filter_empty_conv)

lemma ref_take_Some: "ref_take n p = Some i \<Longrightarrow> i < n \<and> p i = None"
  by (auto simp: ref_take_def find_Some_iff)

lemma avail_taken:
  assumes "i < n" "p i = None" "q i \<noteq> None" "\<And>x. x \<noteq> i \<Longrightarrow> (q x = None) = (p x = None)"
  shows "length (filter (\<lambda>x. p x = None) [0..<n]) = Suc (length (filter (\<lambda>x. q x = None) [0..<n]))"
  using assms(1)
proof (induction n)
  case (Suc n)
  show ?case
  proof (cases "i = n")
    case True
    then have "filter (\<lambda>x. q x = None) [0..<n] = filter (\<lambda>x. p x = None) [0..<n]"
      using assms(4) by (intro filter_cong) auto
    with True assms(2,3) show ?thesis by simp
  qed (use Suc assms(4) in simp)
qed simp

lemma ref_pool_laws: "pool_laws (ref_pool n)"
  unfolding pool_laws_def
proof (intro conjI allI impI)
  fix p m c p' k orig j q
  assume a: "po_alloc (ref_pool n) p = Some (m, p')"
  then have m: "ref_take n p = Some m" "p' = p(m \<mapsto> (1, m))" by (auto simp: ref_pool_def)
  then show "po_view (ref_pool n) p m = None" "po_view (ref_pool n) p' = (po_view (ref_pool n) p)(m \<mapsto> (1, m))"
    "po_avail (ref_pool n) p = Suc (po_avail (ref_pool n) p')"
    using ref_take_Some [of n p m] avail_taken [of m n p p'] by (simp_all add: ref_pool_def)
next
  fix p m c p' k orig j q
  assume v: "po_view (ref_pool n) p m = Some (k, orig)" "po_view (ref_pool n) p orig = Some (j, q)"
    and a: "po_clone (ref_pool n) p m = Some (c, p')"
  then have c: "ref_take n p = Some c" "p' = p(c \<mapsto> (1, orig), orig \<mapsto> (j + 1, q))" by (auto simp: ref_pool_def)
  then show "po_view (ref_pool n) p c = None"
    "po_view (ref_pool n) p' = (po_view (ref_pool n) p)(c \<mapsto> (1, orig), orig \<mapsto> (j + 1, q))"
    "po_avail (ref_pool n) p = Suc (po_avail (ref_pool n) p')"
    using ref_take_Some [of n p c] avail_taken [of c n p p'] v by (auto simp: ref_pool_def)
qed (auto simp: ref_pool_def ref_take_None)

theorem zero_copy_typed_witness:
  "\<exists>rep cs p' mem' lens'. zero_copy_main (ref_pool 2) 0 (Some Map.empty) (\<lambda>_. 0) (\<lambda>_. (0, 0)) =
      Some (Inr (rep, cs, p', mem', lens')) \<and>
    refcnt_after_clone rep = Some 2 \<and> original_sees rep = Some ''MODIFIED!'' \<and> po_view (ref_pool 2) p' = Map.empty"
proof -
  have "wf_pool (po_view (ref_pool 2) Map.empty) {#}" by (simp add: wf_pool_def ref_pool_def)
  moreover have "2 \<le> po_avail (ref_pool 2) Map.empty" by (simp add: ref_pool_def upt_rec)
  ultimately show ?thesis
    using zero_copy_typed [OF ref_pool_laws, of 2 Map.empty "{#}" "\<lambda>_. 0" "\<lambda>_. (0, 0)"]
    by (fastforce simp: ref_pool_def)
qed

subsection \<open>mempool_membuff/simple.c\<close>

definition simple_main :: "pktmbuf_api \<Rightarrow> int \<Rightarrow> bool \<Rightarrow> mbuf option \<Rightarrow> string + string option \<times> string option \<times> mbuf" where
  "simple_main P ret mp m =
     (if ret < 0 then Inl ''EAL init failed''
      else if \<not> mp then Inl ''Cannot create mempool''
      else (case m of None \<Rightarrow> Inl ''Failed to allocate mbuf''
      | Some m \<Rightarrow> (case pm_append P m (length ''Hello from DPDK mbuf!'' + 1) of
          None \<Rightarrow> Inl ''Append failed - not enough tailroom''
        | Some m1 \<Rightarrow>
            (let data = data_off m + data_len m;
                 m2 = m1\<lparr>buf := strcpy (buf m1) data ''Hello from DPDK mbuf!''\<rparr>
             in Inr (c_string (buf m2) data, c_string (buf m2) (data_off m2), m2)))))"

lemma simple_reads:
  assumes "pktmbuf_laws P" "data_len m = 0" "data_off m + 22 \<le> pm_buf_len P"
  shows "\<exists>m'. simple_main P 0 True (Some m) =
      Inr (Some ''Hello from DPDK mbuf!'', Some ''Hello from DPDK mbuf!'', m') \<and> mbuf_id m' = mbuf_id m \<and> data_len m' = 22"
proof -
  have "c_string (strcpy b a ''Hello from DPDK mbuf!'') a = Some ''Hello from DPDK mbuf!''" for b a
    by (rule c_string_strcpy) simp_all
  then show ?thesis using assms by (simp add: simple_main_def rte_mbuf.append Let_def)
qed

end
