(* ===== verification/Graph_Samples.thy ===== *)
theory Graph_Samples
  imports Startup
begin

text \<open>
  The small graph programs \<open>graph/sample\<close>, \<open>graph/node_sched\<close>,
  \<open>graph/two_start_with_worker\<close>, \<open>graph_private_context/sample\<close> and
  \<open>feature_arc/graph_arc\<close>. Their nodes count and print and choose edges; the objects they
  pass are dummies. Here the documented schedule of \<open>rte_graph_walk\<close> matters, also for empty
  enqueues: a walk runs the source nodes and then the nodes of the circular buffer in order;
  \<open>rte_node_enqueue\<close> sets the next node to pending, with or without objects.

  A program is its variables, a log of the nodes run with their objects, and the function of
  each node. \<open>None\<close> is an edge the node does not have, or a walk or loop that does not end.
\<close>

record ('s, 'n, 'o) node_graph =
  sources :: "'n list"
  next_nodes :: "'n \<Rightarrow> nat \<Rightarrow> 'n option"
  node_process :: "'s \<Rightarrow> 'n \<Rightarrow> 'o list \<Rightarrow> 's \<times> (nat \<times> 'o list) list"

fun set_pending :: "'n \<Rightarrow> 'o list \<Rightarrow> ('n \<times> 'o list) list \<Rightarrow> ('n \<times> 'o list) list" where
  "set_pending n os [] = [(n, os)]"
| "set_pending n os ((m, ps) # q) = (if m = n \<and> ps \<noteq> [] then (m, ps @ os) # q else (m, ps) # set_pending n os q)"

fun enqueue_edges :: "(nat \<Rightarrow> 'n option) \<Rightarrow> (nat \<times> 'o list) list \<Rightarrow> ('n \<times> 'o list) list \<Rightarrow> ('n \<times> 'o list) list option" where
  "enqueue_edges nx [] q = Some q"
| "enqueue_edges nx ((e, os) # es) q = (case nx e of None \<Rightarrow> None | Some n \<Rightarrow> enqueue_edges nx es (set_pending n os q))"

partial_function (option) run_pending ::
    "('s, 'n, 'o) node_graph \<Rightarrow> 's \<Rightarrow> ('n \<times> 'o list) list \<Rightarrow> ('s \<times> ('n \<times> 'o list) list) option" where
  "run_pending G s q = (case q of [] \<Rightarrow> Some (s, [])
     | (n, os) # q' \<Rightarrow>
         (case node_process G s n os of (s', es) \<Rightarrow>
            (case enqueue_edges (next_nodes G n) es q' of None \<Rightarrow> None
             | Some q'' \<Rightarrow> Option.bind (run_pending G s' q'') (\<lambda>(s2, l). Some (s2, (n, os) # l)))))"

definition graph_walk :: "('s, 'n, 'o) node_graph \<Rightarrow> 's \<Rightarrow> ('s \<times> ('n \<times> 'o list) list) option" where
  "graph_walk G s = run_pending G s (map (\<lambda>n. (n, [])) (sources G))"

text \<open>\<open>while (cond) rte_graph_walk(graph);\<close> with what happens after each walk, and the log of all walks.\<close>

partial_function (option) walk_loop ::
    "('s, 'n, 'o) node_graph \<Rightarrow> ('s \<Rightarrow> bool) \<Rightarrow> ('s \<Rightarrow> 's) \<Rightarrow> 's \<Rightarrow> ('s \<times> ('n \<times> 'o list) list) option" where
  "walk_loop G cond after s =
     (if cond s then Option.bind (graph_walk G s) (\<lambda>(s1, l1).
        Option.bind (walk_loop G cond after (after s1)) (\<lambda>(s2, l2). Some (s2, l1 @ l2)))
      else Some (s, []))"

lemma walk_loop_until:
  assumes step: "\<And>s. cond s \<Longrightarrow> J s \<Longrightarrow> \<exists>s1 l. graph_walk G s = Some (s1, l) \<and> J (after s1) \<and> m (after s1) < (m s :: nat)"
    and "J s"
  shows "\<exists>s' l. walk_loop G cond after s = Some (s', l) \<and> J s' \<and> \<not> cond s'"
  using assms(2)
proof (induction "m s" arbitrary: s rule: less_induct)
  case less
  show ?case
  proof (cases "cond s")
    case True
    from step [OF True less.prems] obtain s1 l where 1: "graph_walk G s = Some (s1, l)" "J (after s1)" "m (after s1) < m s"
      by blast
    from less.hyps [OF 1(3,2)] True 1(1) show ?thesis by (auto simp: walk_loop.simps [of G cond after s])
  qed (use less.prems in \<open>simp add: walk_loop.simps [of G cond after s]\<close>)
qed

subsection \<open>graph/sample\<close>

record gs_vars =
  force_quit :: bool
  count :: nat
  messages :: "string list"

datatype hello_node = Hello | Dummy | Dummy2

text \<open>\<open>dummy_node_process2\<close> is the function of no node: both nodes are registered with the first.\<close>

definition gs_process :: "gs_vars \<Rightarrow> hello_node \<Rightarrow> unit list \<Rightarrow> gs_vars \<times> (nat \<times> unit list) list" where
  "gs_process s n objs = (case n of
       Hello \<Rightarrow> (s\<lparr>messages := (if count s = 0 then messages s @ [''Hello from graph node!''] else messages s),
                  count := count s + 1\<rparr>, [(0, [])])
     | _ \<Rightarrow> (s\<lparr>messages := (if count s = 10 then messages s @ [''Going into dummy node 1''] else messages s),
               count := count s + 1\<rparr>, []))"

text \<open>Two next nodes are listed, but \<open>nb_edges\<close> is 1.\<close>

definition gs_next :: "hello_node \<Rightarrow> nat \<Rightarrow> hello_node option" where
  "gs_next n e = (if n = Hello \<and> e < 1 then Some ([Dummy, Dummy2] ! e) else None)"

definition gs_graph :: "(gs_vars, hello_node, unit) node_graph" where
  "gs_graph = \<lparr>sources = [Hello], next_nodes = gs_next, node_process = gs_process\<rparr>"

definition gs_loop :: "gs_vars \<Rightarrow> (gs_vars \<times> (hello_node \<times> unit list) list) option" where
  "gs_loop s = walk_loop gs_graph (\<lambda>s. \<not> force_quit s \<and> count s < 10) id s"

definition vars_init :: gs_vars where
  "vars_init = \<lparr>force_quit = False, count = 0, messages = []\<rparr>"

lemma replicate_5: "replicate 5 x = [x, x, x, x, x]"
  by (simp add: numeral_eq_Suc)

lemmas walk_simps = graph_walk_def run_pending.simps walk_loop.simps

lemma gs_walk:
  "graph_walk gs_graph s = Some (s\<lparr>messages := messages s @ (if count s = 0 then [''Hello from graph node!''] else []) @
     (if count s = 9 then [''Going into dummy node 1''] else []), count := count s + 2\<rparr>, [(Hello, []), (Dummy, [])])"
  by (simp add: walk_simps gs_graph_def gs_next_def gs_process_def)

text \<open>Five walks: the dummy node never sees the count at 10, so its message never appears.\<close>

lemma gs_loop_ends:
  "gs_loop vars_init = Some (\<lparr>force_quit = False, count = 10, messages = [''Hello from graph node!'']\<rparr>,
     concat (replicate 5 [(Hello, []), (Dummy, [])]))"
  by (simp add: gs_loop_def vars_init_def walk_loop.simps gs_walk numeral_eq_Suc)

subsection \<open>graph/node_sched\<close>

text \<open>The source passes on one object of its array, which it never filled: \<open>objs0\<close> is what lies there.\<close>

definition ns_process :: "'o \<Rightarrow> nat \<Rightarrow> hello_node \<Rightarrow> 'o list \<Rightarrow> nat \<times> (nat \<times> 'o list) list" where
  "ns_process objs0 cnt n objs = (case n of
       Hello \<Rightarrow> (let c = cnt + 1 in if c mod 2 = 0 then (c, [(0, [objs0])]) else (c, [(1, [objs0])]))
     | Dummy \<Rightarrow> (cnt, [])
     | Dummy2 \<Rightarrow> (cnt, []))"

definition ns_next :: "hello_node \<Rightarrow> nat \<Rightarrow> hello_node option" where
  "ns_next n e = (if n = Hello \<and> e < 2 then Some ([Dummy, Dummy2] ! e) else None)"

definition ns_graph :: "'o \<Rightarrow> (nat, hello_node, 'o) node_graph" where
  "ns_graph objs0 = \<lparr>sources = [Hello], next_nodes = ns_next, node_process = ns_process objs0\<rparr>"

definition ns_loop :: "'o \<Rightarrow> nat \<Rightarrow> (nat \<times> (hello_node \<times> 'o list) list) option" where
  "ns_loop objs0 cnt = walk_loop (ns_graph objs0) (\<lambda>c. c < 10) id cnt"

lemma ns_walk:
  "graph_walk (ns_graph x) c = Some (c + 1, [(Hello, []), (if (c + 1) mod 2 = 0 then Dummy else Dummy2, [x])])"
  by (simp add: walk_simps ns_graph_def ns_next_def ns_process_def Let_def)

text \<open>Ten walks that visit the two nodes in turn, the second first.\<close>

lemma ns_loop_ends:
  "ns_loop x 0 = Some (10, concat (replicate 5 [(Hello, []), (Dummy2, [x]), (Hello, []), (Dummy, [x])]))"
  by (simp add: ns_loop_def walk_loop.simps ns_walk replicate_5)

subsection \<open>graph/two_start_with_worker\<close>

datatype tw_node = Start1 | Work1 | Start2 | Work2

definition tw_process :: "nat \<Rightarrow> tw_node \<Rightarrow> nat list \<Rightarrow> nat \<times> (nat \<times> nat list) list" where
  "tw_process cnt n objs = (case n of
       Start1 \<Rightarrow> (cnt, [(0, map (\<lambda>i. i) [0..<4])])
     | Start2 \<Rightarrow> (cnt, [(0, map (\<lambda>i. 100 + i) [0..<4])])
     | Work1 \<Rightarrow> (cnt, [])
     | Work2 \<Rightarrow> (cnt, []))"

definition tw_next :: "tw_node \<Rightarrow> nat \<Rightarrow> tw_node option" where
  "tw_next n e = (case n of Start1 \<Rightarrow> if e < 1 then Some Work1 else None
     | Start2 \<Rightarrow> if e < 1 then Some Work2 else None | _ \<Rightarrow> None)"

definition tw_graph :: "(nat, tw_node, nat) node_graph" where
  "tw_graph = \<lparr>sources = [Start1, Start2], next_nodes = tw_next, node_process = tw_process\<rparr>"

definition tw_loop :: "nat \<Rightarrow> (nat \<times> (tw_node \<times> nat list) list) option" where
  "tw_loop cnt = walk_loop tw_graph (\<lambda>c. c < 10) Suc cnt"

lemma tw_walk:
  "graph_walk tw_graph c = Some (c, [(Start1, []), (Start2, []), (Work1, [0, 1, 2, 3]), (Work2, [100, 101, 102, 103])])"
  by (simp add: walk_simps tw_graph_def tw_next_def tw_process_def upt_rec)

text \<open>Each worker gets the four objects of its own source, ten times.\<close>

lemma tw_loop_ends:
  "tw_loop 0 = Some (10, concat (replicate 10
     [(Start1, []), (Start2, []), (Work1, [0, 1, 2, 3]), (Work2, [100, 101, 102, 103])]))"
  by (simp add: tw_loop_def walk_loop.simps tw_walk numeral_eq_Suc)

subsection \<open>graph_private_context/sample\<close>

text \<open>
  The context of the feature node is one byte that \<open>main\<close> sets to \<open>(uint8_t)atoi(argv[1])\<close>.
  The program is written against a three-argument \<open>rte_graph_walk\<close> that gives the source
  the objects; here the source has them.
\<close>

record pc_vars =
  enabled :: u8
  trace :: "bool list"

datatype pc_node = Pc_hello | Pc_feature | Pc_sink

definition pc_process :: "'o list \<Rightarrow> pc_vars \<Rightarrow> pc_node \<Rightarrow> 'o list \<Rightarrow> pc_vars \<times> (nat \<times> 'o list) list" where
  "pc_process given s n objs = (case n of
       Pc_hello \<Rightarrow> (s, [(0, given)])
     | Pc_feature \<Rightarrow> (if enabled s \<noteq> 0 then s\<lparr>trace := trace s @ [True]\<rparr> else s\<lparr>trace := trace s @ [False]\<rparr>, [(0, objs)])
     | Pc_sink \<Rightarrow> (s, []))"

definition pc_next :: "pc_node \<Rightarrow> nat \<Rightarrow> pc_node option" where
  "pc_next n e = (case n of Pc_hello \<Rightarrow> if e < 1 then Some Pc_feature else None
     | Pc_feature \<Rightarrow> if e < 1 then Some Pc_sink else None | Pc_sink \<Rightarrow> None)"

definition pc_graph :: "'o list \<Rightarrow> (pc_vars, pc_node, 'o) node_graph" where
  "pc_graph given = \<lparr>sources = [Pc_hello], next_nodes = pc_next, node_process = pc_process given\<rparr>"

fun pc_walks :: "nat \<Rightarrow> 'o list \<Rightarrow> pc_vars \<Rightarrow> (pc_vars \<times> (pc_node \<times> 'o list) list) option" where
  "pc_walks 0 given s = Some (s, [])"
| "pc_walks (Suc i) given s = Option.bind (graph_walk (pc_graph given) s) (\<lambda>(s1, l1).
     Option.bind (pc_walks i given s1) (\<lambda>(s2, l2). Some (s2, l1 @ l2)))"

definition pc_main :: "int \<Rightarrow> 'o \<Rightarrow> (pc_vars \<times> (pc_node \<times> 'o list) list) option" where
  "pc_main arg obj = pc_walks 5 [obj] \<lparr>enabled = word_of_int arg, trace = []\<rparr>"

lemma pc_walk:
  "graph_walk (pc_graph os) s =
     Some (s\<lparr>trace := trace s @ [enabled s \<noteq> 0]\<rparr>, [(Pc_hello, []), (Pc_feature, os), (Pc_sink, os)])"
  by (simp add: walk_simps pc_graph_def pc_next_def pc_process_def)

text \<open>Enabled or not, the feature node passes the same objects on; only the message differs.\<close>

lemma pc_main_ends:
  "pc_main arg x = Some (\<lparr>enabled = word_of_int arg, trace = replicate 5 ((word_of_int arg :: u8) \<noteq> 0)\<rparr>,
     concat (replicate 5 [(Pc_hello, []), (Pc_feature, [x]), (Pc_sink, [x])]))"
  by (simp add: pc_main_def pc_walk numeral_eq_Suc)

subsection \<open>feature_arc/graph_arc\<close>

record ga_vars =
  ga_quit :: bool
  ga_count :: nat
  feature :: "int list"
  helpers :: nat

text \<open>
  With both features on, the source enqueues on its first edge and launches \<open>helper\<close> on
  another core; \<open>helpers\<close> counts the launches.
\<close>

definition ga_process :: "ga_vars \<Rightarrow> hello_node \<Rightarrow> unit list \<Rightarrow> ga_vars \<times> (nat \<times> unit list) list" where
  "ga_process s n objs = (case n of
       Hello \<Rightarrow>
         (let s = s\<lparr>ga_count := ga_count s + 1\<rparr>; f = feature s
          in if f ! 0 = 1 \<and> f ! 1 = 0 then (s, [(0, objs)])
             else if f ! 1 = 1 \<and> f ! 0 = 0 then (s, [(1, objs)])
             else if f ! 0 = 1 \<and> f ! 1 = 1 then (s\<lparr>helpers := helpers s + 1\<rparr>, [(0, objs)])
             else (s\<lparr>ga_quit := True\<rparr>, []))
     | Dummy \<Rightarrow> (s\<lparr>ga_count := ga_count s + 1\<rparr>, [])
     | Dummy2 \<Rightarrow> (s\<lparr>ga_count := ga_count s + 1\<rparr>, []))"

definition ga_next :: "hello_node \<Rightarrow> nat \<Rightarrow> hello_node option" where
  "ga_next n e = (if n = Hello \<and> e < 2 then Some ([Dummy, Dummy2] ! e) else None)"

definition ga_graph :: "(ga_vars, hello_node, unit) node_graph" where
  "ga_graph = \<lparr>sources = [Hello], next_nodes = ga_next, node_process = ga_process\<rparr>"

definition ga_loop :: "int \<Rightarrow> int \<Rightarrow> (ga_vars \<times> (hello_node \<times> unit list) list) option" where
  "ga_loop f1 f2 = walk_loop ga_graph (\<lambda>s. \<not> ga_quit s \<and> ga_count s < 1) id
     \<lparr>ga_quit = False, ga_count = 0, feature = [f1, f2], helpers = 0\<rparr>"

text \<open>
  \<open>helper\<close> is given the address of the structure \<open>h\<close> in the frame of the function that
  launched it and reads it there: undefined once that function has returned.
\<close>

datatype frame = Live | Returned

definition helper :: "frame \<Rightarrow> 'o list \<Rightarrow> (nat \<times> 'o list) option" where
  "helper h objs = (case h of Live \<Rightarrow> Some (1, objs) | Returned \<Rightarrow> None)"

text \<open>The launched function runs on its own core before or after the launching one returns.\<close>

inductive helper_runs :: "frame \<Rightarrow> 'o list \<Rightarrow> (nat \<times> 'o list) option \<Rightarrow> bool" where
  now: "helper_runs fr objs (helper fr objs)"
| return: "helper_runs Returned objs r \<Longrightarrow> helper_runs Live objs r"

inductive_cases helper_runsE: "helper_runs fr objs r"

lemma helper_outcomes: "helper_runs Live objs r \<longleftrightarrow> r = Some (1, objs) \<or> r = None"
proof -
  have live: "helper_runs Live objs (Some (1, objs))" using helper_runs.now [of Live objs] by (simp add: helper_def)
  have "helper_runs Returned objs None" using helper_runs.now [of Returned objs] by (simp add: helper_def)
  then have "helper_runs Live objs None" by (rule helper_runs.return)
  moreover have "r = Some (1, objs) \<or> r = None" if "helper_runs Live objs r"
    using that by cases (auto simp: helper_def elim: helper_runsE)
  ultimately show ?thesis using live by blast
qed

lemma ga_loop_ends:
  "ga_loop f1 f2 = (
     if f1 = 1 \<and> f2 = 0 then Some (\<lparr>ga_quit = False, ga_count = 2, feature = [1, 0], helpers = 0\<rparr>, [(Hello, []), (Dummy, [])])
     else if f2 = 1 \<and> f1 = 0 then Some (\<lparr>ga_quit = False, ga_count = 2, feature = [0, 1], helpers = 0\<rparr>, [(Hello, []), (Dummy2, [])])
     else if f1 = 1 \<and> f2 = 1 then Some (\<lparr>ga_quit = False, ga_count = 2, feature = [1, 1], helpers = 1\<rparr>, [(Hello, []), (Dummy, [])])
     else Some (\<lparr>ga_quit = True, ga_count = 1, feature = [f1, f2], helpers = 0\<rparr>, [(Hello, [])]))"
  by (auto simp: ga_loop_def walk_simps ga_graph_def ga_next_def ga_process_def Let_def)

subsection \<open>Start-up\<close>

definition graph_start :: "string \<Rightarrow> unit prog" where
  "graph_start name =
     call_p (Rte_graph_create name) (\<lambda>id. if id = 65535 then rte_exit ''Graph creation failed''
       else nonnull (Rte_graph_lookup name) ''Graph lookup failed'' (\<lambda>_. done_p ()))"

definition gs_main_start :: "unit prog" where
  "gs_main_start = must Rte_eal_init ''EAL init failed'' (graph_start ''simple_graph'')"

definition ns_main_start :: "unit prog" where
  "ns_main_start = must Rte_eal_init ''EAL init failed'' (graph_start ''simple_graph'')"

definition tw_main_start :: "unit prog" where
  "tw_main_start = must Rte_eal_init ''EAL init failed'' (graph_start ''simple_graph'')"

text \<open>\<open>rte_eal_init\<close> returns how many of the \<open>argc\<close> arguments it used.\<close>

definition pc_main_start :: "int \<Rightarrow> unit prog" where
  "pc_main_start argc = call_p Rte_eal_init (\<lambda>ret. if ret < 0 then rte_exit ''EAL init failed''
     else if argc - ret < 2 then rte_exit ''Usage: ./app <0|1> [EAL args]'' else graph_start ''ctx_graph'')"

definition ga_main_start :: "int \<Rightarrow> unit prog" where
  "ga_main_start argc = call_p Rte_eal_init (\<lambda>ret. if ret < 0 then rte_exit ''EAL init failed''
     else if argc - ret < 3 then rte_exit ''Usage: ./main <f1> <f2> [EAL args]'' else graph_start ''simple_graph'')"

lemma graph_starts_looked_up:
  "P \<in> {gs_main_start, ns_main_start, tw_main_start, pc_main_start argc, ga_main_start argc} \<Longrightarrow>
   P E [] = (Done (), tr) \<Longrightarrow> \<exists>name. tr = [Rte_eal_init, Rte_graph_create name, Rte_graph_lookup name]"
  by (auto simp: gs_main_start_def ns_main_start_def tw_main_start_def pc_main_start_def ga_main_start_def
      graph_start_def must_eq nonnull_eq call_p_def done_p_def rte_exit_def split: if_splits)

text \<open>
  The small graph programs end. The loops of \<open>graph/sample\<close>, \<open>graph/node_sched\<close> and
  \<open>graph/two_start_with_worker\<close> return from every state, with the count at 10 or a request to
  stop. From the start, the first runs the dummy node five times and never its message, the
  second visits its two nodes in turn, the third hands each worker the four objects of its own
  source ten times, the context program passes the same object to its sink five times whether
  the feature is enabled or not, and \<open>graph_arc\<close> runs exactly the node of the one feature
  given, or the first for both, or none.
\<close>

lemma graph_samples_end:
  "(\<exists>s' l. gs_loop s = Some (s', l) \<and> (force_quit s' \<or> 10 \<le> count s')) \<and>
   (\<exists>c' l. ns_loop x c = Some (c', l) \<and> 10 \<le> c') \<and> (\<exists>c' l. tw_loop c = Some (c', l) \<and> 10 \<le> c') \<and>
   gs_loop vars_init = Some (\<lparr>force_quit = False, count = 10, messages = [''Hello from graph node!'']\<rparr>,
     concat (replicate 5 [(Hello, []), (Dummy, [])])) \<and>
   ns_loop x 0 = Some (10, concat (replicate 5 [(Hello, []), (Dummy2, [x]), (Hello, []), (Dummy, [x])])) \<and>
   tw_loop 0 = Some (10, concat (replicate 10
     [(Start1, []), (Start2, []), (Work1, [0, 1, 2, 3]), (Work2, [100, 101, 102, 103])])) \<and>
   map_option snd (pc_main arg x) = Some (concat (replicate 5 [(Pc_hello, []), (Pc_feature, [x]), (Pc_sink, [x])])) \<and>
   map_option (map fst \<circ> snd) (ga_loop f1 f2) =
     Some (Hello # (if f1 = 1 \<and> f2 \<in> {0, 1} then [Dummy] else if f1 = 0 \<and> f2 = 1 then [Dummy2] else []))"
proof -
  have "\<exists>s' l. gs_loop s = Some (s', l) \<and> True \<and> \<not> (\<not> force_quit s' \<and> count s' < 10)"
    unfolding gs_loop_def by (rule walk_loop_until [where m = "\<lambda>s. 10 - count s"]) (auto simp: gs_walk)
  moreover have "\<exists>c' l. ns_loop x c = Some (c', l) \<and> True \<and> \<not> c' < 10"
    unfolding ns_loop_def by (rule walk_loop_until [where m = "\<lambda>c. 10 - c"]) (auto simp: ns_walk)
  moreover have "\<exists>c' l. tw_loop c = Some (c', l) \<and> True \<and> \<not> c' < 10"
    unfolding tw_loop_def by (rule walk_loop_until [where m = "\<lambda>c. 10 - c"]) (auto simp: tw_walk)
  moreover have "map_option (map fst \<circ> snd) (ga_loop f1 f2) =
     Some (Hello # (if f1 = 1 \<and> f2 \<in> {0, 1} then [Dummy] else if f1 = 0 \<and> f2 = 1 then [Dummy2] else []))"
    by (auto simp: ga_loop_ends)
  ultimately show ?thesis by (simp add: gs_loop_ends ns_loop_ends tw_loop_ends pc_main_ends not_less)
qed

end
