(* ===== verification/Ipc_Programs.thy ===== *)
theory Ipc_Programs
  imports Ring_Ipc Startup Burst Rte_Mbuf
begin

text \<open>
  The remaining programs that talk to another process or thread: \<open>through_rte_ring\<close> (ten
  numbers one way), \<open>practice/ring.c\<close> (one number, and a ring that is freed too early),
  \<open>sample_rte_mp\<close> (four bytes in one message), \<open>virtu_vhost_ipc\<close> (a packet generator and its
  echo) and \<open>inter_process_comm/eventdev\<close>. As in \<open>Ring_Ipc\<close>, each side is a step function
  and the sides interleave freely. A buffer that is neither sent, freed nor kept is lost.
\<close>

subsection \<open>through_rte_ring\<close>

datatype ow_sec = Ow_lookup | Ow_receive

record 'r one_way =
  msg_ring :: 'r
  to_send :: nat
  ow_sec :: ow_sec
  received_ints :: "int list"

definition ow_pri_step :: "('r, int) ring_api \<Rightarrow> 'r one_way \<Rightarrow> 'r one_way" where
  "ow_pri_step R s =
     (if to_send s < 10 then
        (case ring_enqueue R (msg_ring s) (int (to_send s)) of
           (c, q) \<Rightarrow> s\<lparr>msg_ring := q, to_send := if c < 0 then to_send s else to_send s + 1\<rparr>)
      else s)"

definition ow_sec_step :: "('r, int) ring_api \<Rightarrow> 'r one_way \<Rightarrow> 'r one_way" where
  "ow_sec_step R s = (case ow_sec s of
     Ow_lookup \<Rightarrow> s\<lparr>ow_sec := Ow_receive\<rparr>
   | Ow_receive \<Rightarrow> (case ring_dequeue R (msg_ring s) of
        (Some v, q) \<Rightarrow> s\<lparr>msg_ring := q, received_ints := received_ints s @ [v]\<rparr>
      | (None, q) \<Rightarrow> s\<lparr>msg_ring := q\<rparr>))"

inductive ow_step :: "('r, int) ring_api \<Rightarrow> 'r one_way \<Rightarrow> 'r one_way \<Rightarrow> bool" for R where
  primary: "ow_step R s (ow_pri_step R s)"
| secondary: "ow_step R s (ow_sec_step R s)"

definition ow_init :: "'r \<Rightarrow> 'r one_way" where
  "ow_init r = \<lparr>msg_ring = r, to_send = 0, ow_sec = Ow_lookup, received_ints = []\<rparr>"

text \<open>A negative result is the only failure of an enqueue.\<close>

definition enqueue_codes :: "('r, 'a) ring_api \<Rightarrow> bool" where
  "enqueue_codes R \<longleftrightarrow> (\<forall>r x. fst (ring_enqueue R r x) \<le> 0)"

definition ow_inv :: "('r, int) ring_api \<Rightarrow> nat \<Rightarrow> 'r one_way \<Rightarrow> bool" where
  "ow_inv R cap s \<longleftrightarrow> received_ints s @ ring_items R (msg_ring s) = map int [0..<to_send s] \<and> to_send s \<le> 10 \<and>
     ring_capacity R (msg_ring s) = cap"

lemma ow_step_inv:
  assumes R: "ring_laws R" "ring_serves R" "enqueue_codes R" and "ow_inv R cap s" "ow_step R s s'"
  shows "ow_inv R cap s'"
  using assms(5)
proof cases
  case primary
  obtain c q where e: "ring_enqueue R (msg_ring s) (int (to_send s)) = (c, q)" by fastforce
  have "c \<le> 0" using R(3) e unfolding enqueue_codes_def by (metis fst_conv)
  with ring_enqueue_account [OF R(1) e] assms(4) e show ?thesis
    by (auto simp: ow_inv_def primary ow_pri_step_def)
next
  case secondary
  obtain x q where d: "ring_dequeue R (msg_ring s) = (x, q)" by fastforce
  from ring_dequeue_cases [OF R(1,2) d] assms(4) d show ?thesis
    by (auto simp: ow_inv_def secondary ow_sec_step_def split: ow_sec.splits)
qed

lemma ow_reach_inv:
  assumes "ring_laws R" "ring_serves R" "enqueue_codes R" "(ow_step R)\<^sup>*\<^sup>* s s'" "ow_inv R cap s"
  shows "ow_inv R cap s'"
  using assms(4,5) by (induction rule: rtranclp_induct) (blast intro: ow_step_inv [OF assms(1-3)])+

text \<open>What is still to do: a step of one side or the other lowers it until all is received.\<close>

definition ow_todo :: "('r, int) ring_api \<Rightarrow> 'r one_way \<Rightarrow> nat" where
  "ow_todo R s = 2 * (10 - to_send s) + length (ring_items R (msg_ring s)) + (if ow_sec s = Ow_lookup then 1 else 0)"

lemma ow_progress:
  assumes R: "ring_laws R" "ring_serves R" "enqueue_codes R" and i: "ow_inv R cap s" "0 < cap"
    and n: "received_ints s \<noteq> map int [0..<10]"
  shows "\<exists>s'. ow_step R s s' \<and> ow_todo R s' < ow_todo R s"
proof (cases "ow_sec s = Ow_lookup")
  case True
  then have "ow_todo R (ow_sec_step R s) < ow_todo R s" by (simp add: ow_todo_def ow_sec_step_def)
  then show ?thesis using ow_step.secondary by blast
next
  case False
  then have r: "ow_sec s = Ow_receive" by (cases "ow_sec s") auto
  show ?thesis
  proof (cases "ring_items R (msg_ring s) = []")
    case True
    then have lt: "to_send s < 10" using i(1) n by (auto simp: ow_inv_def le_less)
    obtain c q where e: "ring_enqueue R (msg_ring s) (int (to_send s)) = (c, q)" by fastforce
    have "length (ring_items R (msg_ring s)) < ring_capacity R (msg_ring s)" using True i by (simp add: ow_inv_def)
    from ring_enqueue_room [OF R(1) this e] lt r True e have "ow_todo R (ow_pri_step R s) < ow_todo R s"
      by (simp add: ow_todo_def ow_pri_step_def)
    then show ?thesis using ow_step.primary by blast
  next
    case False
    obtain x q where d: "ring_dequeue R (msg_ring s) = (x, q)" by fastforce
    from ring_dequeue_cases [OF R(1,2) d] False d r have "ow_todo R (ow_sec_step R s) < ow_todo R s"
      by (auto simp: ow_todo_def ow_sec_step_def)
    then show ?thesis using ow_step.secondary by blast
  qed
qed

lemma ow_completes:
  assumes R: "ring_laws R" "ring_serves R" "enqueue_codes R" and "ow_inv R cap s" "0 < cap"
  shows "\<exists>s'. (ow_step R)\<^sup>*\<^sup>* s s' \<and> received_ints s' = map int [0..<10]"
  using assms(4)
proof (induction "ow_todo R s" arbitrary: s rule: less_induct)
  case less
  show ?case
  proof (cases "received_ints s = map int [0..<10]")
    case False
    from ow_progress [OF R less.prems assms(5) False] obtain s1 where
      s1: "ow_step R s s1" "ow_todo R s1 < ow_todo R s" by blast
    from less.hyps [OF s1(2) ow_step_inv [OF R less.prems s1(1)]] s1(1) show ?thesis
      by (meson converse_rtranclp_into_rtranclp)
  qed blast
qed

text \<open>
  The one-way channel delivers. However primary and secondary interleave, on a ring that
  keeps its promises and has room for at least one object, what was received is a prefix of the
  numbers 0 to 9, what lies in the ring is the rest of those sent, in order, nothing is lost
  although the ring may be full at any time, and from every reachable state the secondary can
  still get all ten.
\<close>

lemma one_way_delivers:
  assumes "ring_laws R" "ring_serves R" "enqueue_codes R" "ring_items R r0 = []" "0 < ring_capacity R r0"
    "(ow_step R)\<^sup>*\<^sup>* (ow_init r0) s"
  shows "received_ints s @ ring_items R (msg_ring s) = map int [0..<to_send s] \<and> to_send s \<le> 10 \<and>
    (\<exists>s'. (ow_step R)\<^sup>*\<^sup>* s s' \<and> received_ints s' = map int [0..<10])"
proof -
  have "ow_inv R (ring_capacity R r0) (ow_init r0)" using assms(4) by (simp add: ow_inv_def ow_init_def)
  then have i: "ow_inv R (ring_capacity R r0) s" by (rule ow_reach_inv [OF assms(1-3,6)])
  from ow_completes [OF assms(1-3) i assms(5)] i show ?thesis by (simp add: ow_inv_def)
qed

subsection \<open>practice/ring.c\<close>

text \<open>
  \<open>main\<close> waits for the cores 0 and 1 only: the one that dequeues runs on core 2. The ring is
  \<open>None\<close> once freed; the step of a thread that then uses it is undefined.
\<close>

record 'r pr_state =
  pr_ring :: "'r option"
  handler_done :: bool
  handler2_val :: "int option"
  main_done :: bool

definition pr_handler :: "('r, int) ring_api \<Rightarrow> 'r pr_state \<Rightarrow> 'r pr_state option" where
  "pr_handler R s = (if handler_done s then Some s else
     (case pr_ring s of None \<Rightarrow> None
      | Some r \<Rightarrow> Some (s\<lparr>pr_ring := Some (snd (ring_enqueue R r 20)), handler_done := True\<rparr>)))"

definition pr_handler2 :: "('r, int) ring_api \<Rightarrow> 'r pr_state \<Rightarrow> 'r pr_state option" where
  "pr_handler2 R s = (if handler2_val s \<noteq> None then Some s else
     (case pr_ring s of None \<Rightarrow> None
      | Some r \<Rightarrow> (case ring_dequeue R r of (v, q) \<Rightarrow> Some (s\<lparr>pr_ring := Some q, handler2_val := v\<rparr>))))"

definition pr_main :: "'r pr_state \<Rightarrow> 'r pr_state option" where
  "pr_main s = (if handler_done s \<and> \<not> main_done s then Some (s\<lparr>pr_ring := None, main_done := True\<rparr>) else Some s)"

inductive pr_reach :: "('r, int) ring_api \<Rightarrow> 'r \<Rightarrow> 'r pr_state option \<Rightarrow> bool" for R r0 where
  start: "pr_reach R r0 (Some \<lparr>pr_ring = Some r0, handler_done = False, handler2_val = None, main_done = False\<rparr>)"
| handler: "pr_reach R r0 (Some s) \<Longrightarrow> pr_reach R r0 (pr_handler R s)"
| handler2: "pr_reach R r0 (Some s) \<Longrightarrow> pr_reach R r0 (pr_handler2 R s)"
| main: "pr_reach R r0 (Some s) \<Longrightarrow> pr_reach R r0 (pr_main s)"

text \<open>Only 20 is ever received, but the ring may be gone before it is.\<close>

lemma ring_received:
  assumes R: "ring_laws R" "ring_serves R" and "ring_items R r0 = []" "pr_reach R r0 (Some s)"
  shows "handler2_val s \<in> {None, Some 20} \<and> (\<forall>r. pr_ring s = Some r \<longrightarrow> set (ring_items R r) \<subseteq> {20})"
  using assms(4)
proof (induction "Some s" arbitrary: s rule: pr_reach.induct)
  case (handler s0)
  have "x = 20" if "x \<in> set (ring_items R (snd (ring_enqueue R r 20)))" "set (ring_items R r) \<subseteq> {20}" for r x
    using ring_enqueue_account(1) [OF R(1), of r 20] that by (cases "ring_enqueue R r 20") (auto split: if_splits)
  note h = this
  from handler show ?case by (auto simp: pr_handler_def split: if_splits option.splits dest: h)
next
  case (handler2 s0)
  show ?case
  proof (cases "handler2_val s0 = None")
    case True
    with handler2(3) obtain r where r: "pr_ring s0 = Some r" by (auto simp: pr_handler2_def split: option.splits)
    obtain v q where d: "ring_dequeue R r = (v, q)" by fastforce
    with True r handler2(3) have s: "s = s0\<lparr>pr_ring := Some q, handler2_val := v\<rparr>" by (auto simp: pr_handler2_def)
    have "set (ring_items R r) \<subseteq> {20}" using handler2(2) r by blast
    with ring_dequeue_cases(2) [OF R d] show ?thesis by (auto simp: s)
  qed (use handler2 in \<open>auto simp: pr_handler2_def\<close>)
qed (use assms(3) in \<open>auto simp: pr_main_def split: if_splits\<close>)

lemma ring_freed_early: "pr_reach R r0 None"
proof -
  let ?s1 = "\<lparr>pr_ring = Some (snd (ring_enqueue R r0 20)), handler_done = True, handler2_val = None, main_done = False\<rparr>"
  have "pr_reach R r0 (Some ?s1)" using pr_reach.handler [OF pr_reach.start, of R r0] by (simp add: pr_handler_def)
  from pr_reach.main [OF this] have "pr_reach R r0 (Some (?s1\<lparr>pr_ring := None, main_done := True\<rparr>))" by (simp add: pr_main_def)
  from pr_reach.handler2 [OF this] show ?thesis by (simp add: pr_handler2_def)
qed

subsection \<open>sample_rte_mp\<close>

text \<open>The payload is four bytes; \<open>memset\<close> has cleared the others.\<close>

record mp_msg =
  mp_name :: string
  len_param :: nat
  param :: "u8 list"

definition send_message :: "int \<Rightarrow> mp_msg" where
  "send_message val = \<lparr>mp_name = ''sample_mp'', len_param = 4,
     param = [word_of_int val, word_of_int (val + 1), word_of_int (val + 2), word_of_int (val + 3)]
       @ replicate 252 0\<rparr>"

text \<open>What the handler prints, and the flag that ends the waiting loop.\<close>

definition mp_message_handler :: "mp_msg \<Rightarrow> nat list \<times> bool" where
  "mp_message_handler msg = (map (\<lambda>i. unat (param msg ! i)) [0..<len_param msg], True)"

lemma mp_values:
  assumes "0 \<le> val" "val + 3 < 256"
  shows "mp_message_handler (send_message val) = (map (\<lambda>i. nat val + i) [0..<4], True)"
proof -
  have u: "unat (word_of_int v :: u8) = nat v" if "0 \<le> v" "v < 256" for v
    using that by (simp add: unsigned_of_int take_bit_int_eq_self)
  show ?thesis using assms u [of val] u [of "val + 1"] u [of "val + 2"] u [of "val + 3"]
    by (simp add: mp_message_handler_def send_message_def upt_rec nth_Cons' nat_add_distrib)
qed

lemma mp_values_wrap: "fst (mp_message_handler (send_message 255)) = [255, 0, 1, 2]"
  by (simp add: mp_message_handler_def send_message_def upt_rec)

subsection \<open>virtu_vhost_ipc\<close>

text \<open>The backend sends back what it receives; what the device does not accept is forgotten.\<close>

definition backend_iter :: "(mbuf list \<Rightarrow> nat) \<Rightarrow> mbuf list \<Rightarrow> io \<times> mbuf list" where
  "backend_iter tx pkts = (if pkts = [] then (\<lparr>sent = [], freed = []\<rparr>, [])
     else (\<lparr>sent = take (tx pkts) pkts, freed = []\<rparr>, drop (tx pkts) pkts))"

text \<open>
  The frontend: \<open>m\<close> is the result of the allocation and \<open>text\<close> the bytes that \<open>snprintf\<close>
  writes, with the terminating zero. It does not check for \<open>NULL\<close> (\<open>None\<close>: undefined). The
  third component is the buffer that was not accepted for sending.
\<close>

definition frontend_iter :: "pktmbuf_api \<Rightarrow> (mbuf list \<Rightarrow> nat) \<Rightarrow> u8 list \<Rightarrow> mbuf option \<Rightarrow> mbuf list \<Rightarrow> (io \<times> mbuf list) option" where
  "frontend_iter P tx text m rx =
     (case m of None \<Rightarrow> None
      | Some m \<Rightarrow> (case pm_append P m 64 of None \<Rightarrow> None
        | Some m1 \<Rightarrow>
            (let m2 = wr_bytes m1 (data_len m) text; n = tx [m2]
             in Some (\<lparr>sent = take n [m2], freed = free_range rx 0 (length rx)\<rparr>, drop n [m2]))))"

text \<open>\<open>avail\<close> buffers are left in the pool; what is sent or freed comes back to it.\<close>

fun frontend_loop :: "pktmbuf_api \<Rightarrow> (mbuf list \<Rightarrow> nat) \<Rightarrow> u8 list \<Rightarrow> (nat \<Rightarrow> mbuf) \<Rightarrow> nat \<Rightarrow> nat \<Rightarrow> (nat \<times> mbuf list) option" where
  "frontend_loop P tx text fresh avail 0 = Some (avail, [])"
| "frontend_loop P tx text fresh avail (Suc k) =
     (case frontend_iter P tx text (if avail = 0 then None else Some (fresh avail)) [] of None \<Rightarrow> None
      | Some (r, ls) \<Rightarrow>
          map_option (\<lambda>(a, l). (a, ls @ l)) (frontend_loop P tx text fresh (avail - length ls) k))"

lemma backend_accounts:
  assumes "tx_ok tx"
  shows "sent (fst (backend_iter tx pkts)) @ snd (backend_iter tx pkts) = pkts"
  by (simp add: backend_iter_def)

text \<open>
  As long as the device accepts every packet nothing is lost. If it accepts none, each round
  loses a buffer, and the first round after the pool is empty uses a null pointer.
\<close>

lemma frontend_loses:
  assumes "pktmbuf_laws P" "\<And>i. data_off (fresh i) + data_len (fresh i) + 64 \<le> pm_buf_len P"
  shows "(\<And>m. tx [m] = 1) \<Longrightarrow> 0 < avail \<Longrightarrow> frontend_loop P tx text fresh avail k = Some (avail, [])"
    and "(\<And>m. tx [m] = 0) \<Longrightarrow> (frontend_loop P tx text fresh avail k = None) = (avail < k)"
proof -
  have it: "frontend_iter P tx text (Some (fresh i)) [] =
      (let m2 = wr_bytes (fresh i\<lparr>data_len := data_len (fresh i) + 64\<rparr>) (data_len (fresh i)) text
       in Some (\<lparr>sent = take (tx [m2]) [m2], freed = []\<rparr>, drop (tx [m2]) [m2]))" for i
    using assms(2) [of i] by (simp add: frontend_iter_def rte_mbuf.append [OF assms(1)] free_range_drop Let_def)
  show "(\<And>m. tx [m] = 1) \<Longrightarrow> 0 < avail \<Longrightarrow> frontend_loop P tx text fresh avail k = Some (avail, [])"
    by (induction k) (simp_all add: it Let_def)
  show "(\<And>m. tx [m] = 0) \<Longrightarrow> (frontend_loop P tx text fresh avail k = None) = (avail < k)"
  proof (induction k arbitrary: avail)
    case (Suc k)
    show ?case
    proof (cases "avail = 0")
      case False
      then show ?thesis using Suc.IH [OF Suc.prems, of "avail - 1"] Suc.prems by (auto simp: it Let_def)
    qed (simp add: frontend_iter_def)
  qed simp
qed

text \<open>Only the backend checks the calls that set up its port.\<close>

definition backend_main_start :: "unit prog" where
  "backend_main_start =
     call_p Rte_eal_init (\<lambda>_. call_p (Lib_call ''unlink'' []) (\<lambda>_.
     must (Lib_call ''rte_vhost_driver_register'' [0]) ''vhost register failed''
     (must (Lib_call ''rte_vhost_driver_start'' []) ''vhost start failed''
     (nonnull (Rte_pktmbuf_pool_create ''MBUF_POOL'' 8192 256) ''mbuf pool failed'' (\<lambda>mp.
     must (Rte_eth_dev_configure 0 1 1) ''dev configure failed''
     (must (Rte_eth_rx_queue_setup 0 0 1024 mp) ''rx queue failed''
     (must (Rte_eth_tx_queue_setup 0 0 1024) ''tx queue failed''
     (must (Rte_eth_dev_start 0) ''dev start failed'' (done_p ())))))))))"

definition frontend_main_start :: "unit prog" where
  "frontend_main_start =
     must Rte_eal_init ''EAL init failed''
     (nonnull (Rte_pktmbuf_pool_create ''MBUF_POOL'' 8192 256) ''mbuf pool failed'' (\<lambda>mp.
     call_p (Rte_eth_dev_configure 0 1 1) (\<lambda>_.
     call_p (Rte_eth_rx_queue_setup 0 0 1024 mp) (\<lambda>_.
     call_p (Rte_eth_tx_queue_setup 0 0 1024) (\<lambda>_.
     call_p (Rte_eth_dev_start 0) (\<lambda>_. done_p ()))))))"

lemma backend_starts: "starts_port (\<lambda>_. True) backend_main_start 0"
  unfolding backend_main_start_def
  by (rule starts_portI [where E = ok_env]; auto simp: monitor_simps ok_env_def split: if_splits)

subsection \<open>inter_process_comm/eventdev\<close>

text \<open>
  The primary allocates a buffer and sends it in a new event; when the device does not take the
  event the buffer is forgotten. The secondary frees the buffer of each event it gets.
  A port linked with a \<open>NULL\<close> list is linked to all queues: here there is one.
\<close>

definition ev_primary_iter :: "mbuf option \<Rightarrow> nat \<Rightarrow> mbuf list \<times> mbuf list" where
  "ev_primary_iter alloc taken =
     (case alloc of None \<Rightarrow> ([], []) | Some mbuf \<Rightarrow> (if taken = 1 then ([mbuf], []) else ([], [mbuf])))"

definition ev_secondary_iter :: "mbuf list \<Rightarrow> mbuf list" where
  "ev_secondary_iter ev = (case ev of [] \<Rightarrow> [] | mbuf # _ \<Rightarrow> [mbuf])"

definition ev_primary_start :: "unit prog" where
  "ev_primary_start =
     must Rte_eal_init ''EAL init failed''
     (nonnull (Rte_pktmbuf_pool_create ''MBUF_POOL'' 1024 32) ''Cannot create mempool'' (\<lambda>mp.
     call_p (Rte_event_dev_configure 1 2) (\<lambda>_.
     call_p (Rte_event_queue_setup 0) (\<lambda>_.
     call_p (Rte_event_port_setup 0) (\<lambda>_. call_p (Rte_event_port_setup 1) (\<lambda>_.
     call_p (Rte_event_port_link 0 [0]) (\<lambda>_. call_p (Rte_event_port_link 1 [0]) (\<lambda>_.
     call_p Rte_event_dev_start (\<lambda>_. done_p ())))))))))"

lemma ev_primary_accounts:
  "fst (ev_primary_iter (Some m) taken) @ snd (ev_primary_iter (Some m) taken) = [m]"
  by (simp add: ev_primary_iter_def)

text \<open>Each of these programs goes on whatever the device answers.\<close>

lemma unchecked_devices:
  assumes "\<And>tr. 0 \<le> E tr Rte_eal_init" "\<And>tr n c. E tr (Rte_pktmbuf_pool_create ''MBUF_POOL'' n c) \<noteq> 0"
  shows "\<exists>tr. frontend_main_start E [] = (Done (), tr)" "\<exists>tr. ev_primary_start E [] = (Done (), tr)"
  using assms by (simp_all add: frontend_main_start_def ev_primary_start_def must_eq nonnull_eq call_p_def done_p_def not_less)

subsection \<open>Start-up over rings\<close>

text \<open>
  The primaries of \<open>single_ring_full_duplex\<close>, \<open>ring_full_duplex\<close>, \<open>through_rte_ring\<close> and
  \<open>Multi_Process_Messaging\<close> create their rings, in the last only if the process is the primary (0).
\<close>

definition sd_primary_start :: "int prog" where
  "sd_primary_start = call_p Rte_eal_init (\<lambda>_. nonnull (Rte_ring_create ''FD_RING'' 1024) ''Ring create failed'' done_p)"

definition fd_primary_start :: "(int \<times> int) prog" where
  "fd_primary_start = must Rte_eal_init ''EAL init failed''
     (nonnull (Rte_ring_create ''a_to_b'' 1024) ''Ring create failed'' (\<lambda>ring.
     nonnull (Rte_ring_create ''b_to_a'' 1024) ''Ring2 create failed'' (\<lambda>ring2. done_p (ring, ring2))))"

definition ow_primary_start :: "int prog" where
  "ow_primary_start = must Rte_eal_init ''EAL init failed''
     (nonnull (Rte_ring_create ''MSG_RING'' 1024) ''Ring create failed'' done_p)"

definition mp_primary_start :: "int prog" where
  "mp_primary_start = call_p Rte_eal_init (\<lambda>_.
     call_p (Lib_call ''rte_eal_process_type'' []) (\<lambda>ty. if ty \<noteq> 0 then rte_exit ''Run as primary'' else
     nonnull (Rte_ring_create ''DATA_RING'' 32) ''Ring create failed'' (\<lambda>ring.
     call_p (Lib_call ''rte_mp_action_register ready_reply'' []) (\<lambda>_. done_p ring))))"

text \<open>The secondaries poll \<open>rte_ring_lookup\<close>; the list is what it returns (0 for \<open>NULL\<close>), \<open>None\<close> is still polling.\<close>

fun wait_ring :: "int list \<Rightarrow> int option" where
  "wait_ring [] = None"
| "wait_ring (r # rs) = (if r = 0 then wait_ring rs else Some r)"

definition wait_rings :: "int list \<Rightarrow> int list \<Rightarrow> (int \<times> int) option" where
  "wait_rings rs rs2 = (case wait_ring rs of None \<Rightarrow> None | Some r \<Rightarrow> map_option (Pair r) (wait_ring rs2))"

lemma wait_ring_found: "wait_ring rs = List.find (\<lambda>r. r \<noteq> 0) rs"
  by (induction rs) simp_all

lemma rings_exist:
  "sd_primary_start E [] = (Done r, tr) \<Longrightarrow> r \<noteq> 0" "ow_primary_start E [] = (Done r, tr) \<Longrightarrow> r \<noteq> 0"
  "mp_primary_start E [] = (Done r, tr) \<Longrightarrow> r \<noteq> 0" "fd_primary_start E [] = (Done (r, r2), tr) \<Longrightarrow> r \<noteq> 0 \<and> r2 \<noteq> 0"
  "wait_ring rs = Some r \<Longrightarrow> r \<noteq> 0" "wait_rings rs rs2 = Some (r, r2) \<Longrightarrow> r \<noteq> 0 \<and> r2 \<noteq> 0"
  by (auto simp: sd_primary_start_def ow_primary_start_def mp_primary_start_def fd_primary_start_def
      must_eq nonnull_eq call_p_def done_p_def rte_exit_def wait_rings_def wait_ring_found find_Some_iff split: if_splits option.splits)

end
