(* ===== verification/Port_Echo.thy ===== *)
theory Port_Echo
  imports Startups Rss
begin

text \<open>
  The first programs on a port: \<open>ports/begin\<close> and \<open>ports/port_mempool\<close> print each packet and
  send it back, \<open>rxtx_callbacks\<close> counts packets in a callback, and \<open>rss_dpdk/main.c\<close> polls four
  fixed queues.
\<close>

unbundle bit_operations_syntax

subsection \<open>ports/begin and ports/port_mempool: printing and sending back\<close>

text \<open>\<open>printf("%02x ", b)\<close> for each byte of the data.\<close>

definition hex_digit :: "nat \<Rightarrow> char" where
  "hex_digit n = (if n < 10 then char_of (48 + n) else char_of (87 + n))"

definition hex2 :: "u8 \<Rightarrow> string" where
  "hex2 b = [hex_digit (unat b div 16), hex_digit (unat b mod 16), CHR '' '']"

definition hex_dump :: "mbuf \<Rightarrow> string" where
  "hex_dump m = concat (map (\<lambda>j. hex2 (rd8 m j)) [0..<data_len m])"

record echo_line =
  packet_no :: nat
  packet_len :: nat
  packet_hex :: string

definition print_packets :: "mbuf list \<Rightarrow> echo_line list" where
  "print_packets bufs = map (\<lambda>i. \<lparr>packet_no = i, packet_len = data_len (bufs ! i), packet_hex = hex_dump (bufs ! i)\<rparr>)
     [0..<length bufs]"

definition echo_iter :: "(mbuf list \<Rightarrow> nat) \<Rightarrow> mbuf list \<Rightarrow> echo_line list \<times> io" where
  "echo_iter tx bufs = (if bufs = [] then ([], \<lparr>sent = [], freed = []\<rparr>) else (print_packets bufs, tx_then_free tx bufs))"

definition echo_main_start :: "unit prog" where
  "echo_main_start =
     must Rte_eal_init ''EAL init failed''
     (call_p Rte_eth_dev_count_avail (\<lambda>nb_ports. if nb_ports = 0 then rte_exit ''No ports found!'' else
     nonnull (Rte_pktmbuf_pool_create ''MBUF_POOL'' 8192 256) ''Cannot create mbuf pool'' (\<lambda>mp.
     call_p (Rte_eth_dev_configure 0 1 1) (\<lambda>_.
     call_p (Rte_eth_rx_queue_setup 0 0 1024 mp) (\<lambda>_.
     call_p (Rte_eth_tx_queue_setup 0 0 1024) (\<lambda>_.
     call_p (Rte_eth_dev_start 0) (\<lambda>_. done_p ())))))))"

text \<open>\<open>ports/port_mempool\<close>: one function per file.\<close>

definition init_eal :: "int prog" where
  "init_eal = call_p Rte_eal_init (\<lambda>ret. if ret < 0 then rte_exit ''EAL init failed'' else done_p ret)"

definition pm_create_mempool :: "int prog" where
  "pm_create_mempool = nonnull (Rte_pktmbuf_pool_create ''MBUF_POOL'' 8192 256) ''Cannot create mempool'' (\<lambda>mp. done_p mp)"

definition pm_init_port :: "nat \<Rightarrow> int \<Rightarrow> unit prog" where
  "pm_init_port port_id mp =
     must (Rte_eth_dev_configure port_id 1 1) ''Port configure failed''
     (must (Rte_eth_rx_queue_setup port_id 0 1024 mp) ''RX queue setup failed''
     (must (Rte_eth_tx_queue_setup port_id 0 1024) ''TX queue setup failed''
     (must (Rte_eth_dev_start port_id) ''Port start failed'' (done_p ()))))"

definition pm_main_start :: "unit prog" where
  "pm_main_start =
     bind_p init_eal (\<lambda>_.
     call_p Rte_eth_dev_count_avail (\<lambda>nb_ports. if nb_ports = 0 then rte_exit ''No ports found!'' else
     bind_p pm_create_mempool (\<lambda>mp. pm_init_port 0 mp)))"

subsection \<open>mk_buff_info.c\<close>

definition l2_to_str :: "u8 \<Rightarrow> string" where
  "l2_to_str t = (if t = 1 then ''Ethernet'' else if t = 2 then ''VLAN'' else if t = 3 then ''QinQ'' else ''Unknown-L2'')"

definition l3_to_str :: "u8 \<Rightarrow> string" where
  "l3_to_str t = (if t = 1 then ''IPv4'' else if t = 2 then ''IPv4-EXT'' else if t = 3 then ''IPv6''
     else if t = 4 then ''IPv6-EXT'' else ''Unknown-L3'')"

definition l4_to_str :: "u8 \<Rightarrow> string" where
  "l4_to_str t = (if t = 1 then ''TCP'' else if t = 2 then ''UDP'' else if t = 3 then ''SCTP''
     else if t = 4 then ''ICMP'' else ''Unknown-L4'')"

text \<open>
  The fields of the mbuf besides its data. The types are the four-bit groups of
  \<open>packet_type\<close>, lowest first: layer 2, 3, 4, tunnel, inner layer 2, 3 and 4.
\<close>

record mbuf_meta =
  port :: u16
  pkt_len :: u32
  nb_segs :: u16
  rss :: u32
  vlan_tci :: u16
  packet_type :: u32

definition ptype_field :: "mbuf_meta \<Rightarrow> nat \<Rightarrow> u8" where
  "ptype_field h k = ucast (drop_bit (4 * k) (packet_type h) AND 0xF)"

definition print_mbuf_info :: "mbuf_meta \<Rightarrow> mbuf \<Rightarrow> (string \<times> nat) list \<times> (string \<times> string) list" where
  "print_mbuf_info h m =
     ([(''Port'', unat (port h)), (''Total Packet Length'', unat (pkt_len h)), (''Segment Data Length'', data_len m),
       (''Segments'', unat (nb_segs h)), (''RSS Hash'', unat (rss h)), (''VLAN TCI'', unat (vlan_tci h)),
       (''Packet Type Raw'', unat (packet_type h)), (''Tunnel Type'', unat (ptype_field h 3)),
       (''Inner L2'', unat (ptype_field h 4)), (''Inner L3'', unat (ptype_field h 5)), (''Inner L4'', unat (ptype_field h 6))],
      [(''L2'', l2_to_str (ptype_field h 0)), (''L3'', l3_to_str (ptype_field h 1)), (''L4'', l4_to_str (ptype_field h 2))])"

definition pm_iter :: "(mbuf list \<Rightarrow> nat) \<Rightarrow> (mbuf \<Rightarrow> mbuf_meta) \<Rightarrow> mbuf list \<Rightarrow>
    ((string \<times> nat) list \<times> (string \<times> string) list) list \<times> echo_line list \<times> io" where
  "pm_iter tx meta bufs =
     (if bufs = [] then ([], [], \<lparr>sent = [], freed = []\<rparr>)
      else (map (\<lambda>m. print_mbuf_info (meta m) m) bufs, print_packets bufs, tx_then_free tx bufs))"

text \<open>
  The packet types of \<open>rte_mbuf_ptype.h\<close> in these groups, and what the decoders call them:
  IPv6 is printed as IPv6 with extensions, IPv4 with extensions as IPv6, SCTP as ICMP.
\<close>

definition PTYPE_L3_IPV4_EXT :: u8 where "PTYPE_L3_IPV4_EXT = 3"
definition PTYPE_L3_IPV6 :: u8 where "PTYPE_L3_IPV6 = 4"
definition PTYPE_L4_SCTP :: u8 where "PTYPE_L4_SCTP = 4"
definition PTYPE_L4_ICMP :: u8 where "PTYPE_L4_ICMP = 5"

lemma decoders_mislabel:
  "l3_to_str PTYPE_L3_IPV6 = ''IPv6-EXT''" "l3_to_str PTYPE_L3_IPV4_EXT = ''IPv6''"
  "l4_to_str PTYPE_L4_SCTP = ''ICMP''" "l4_to_str PTYPE_L4_ICMP = ''Unknown-L4''"
  by (simp_all add: l3_to_str_def l4_to_str_def PTYPE_L3_IPV4_EXT_def PTYPE_L3_IPV6_def PTYPE_L4_SCTP_def PTYPE_L4_ICMP_def)

text \<open>Reading the dump back.\<close>

definition hex_val :: "char \<Rightarrow> nat" where
  "hex_val c = (let n = of_char c in if n < 58 then n - 48 else n - 87)"

fun read_hex :: "string \<Rightarrow> u8 list" where
  "read_hex (a # b # _ # s) = of_nat (16 * hex_val a + hex_val b) # read_hex s"
| "read_hex _ = []"

lemma hex_val_digit: "n < 16 \<Longrightarrow> hex_val (hex_digit n) = n"
  by (auto simp: hex_val_def hex_digit_def Let_def)

lemma read_hex_dump: "read_hex (concat (map hex2 bs)) = bs"
proof (induction bs)
  case (Cons b bs)
  have "unat b div 16 < 16" using unat_u8_less [of b] by simp
  then have "16 * hex_val (hex_digit (unat b div 16)) + hex_val (hex_digit (unat b mod 16)) = unat b"
    by (simp add: hex_val_digit)
  then have "(of_nat (16 * hex_val (hex_digit (unat b div 16)) + hex_val (hex_digit (unat b mod 16))) :: u8) = b"
    by simp
  with Cons show ?case by (simp add: hex2_def)
qed simp

lemma hex_dump_back: "read_hex (hex_dump m) = map (rd8 m) [0..<data_len m]"
  using read_hex_dump [of "map (rd8 m) [0..<data_len m]"] by (simp add: hex_dump_def comp_def)

lemma echo_accounts:
  assumes "tx_ok tx"
  shows "sent (snd (echo_iter tx bufs)) @ freed (snd (echo_iter tx bufs)) = bufs"
    and "map (read_hex \<circ> packet_hex) (fst (echo_iter tx bufs)) = map (\<lambda>m. map (rd8 m) [0..<data_len m]) bufs"
    and "sent (snd (snd (pm_iter tx meta bufs))) @ freed (snd (snd (pm_iter tx meta bufs))) = bufs"
proof -
  show "sent (snd (echo_iter tx bufs)) @ freed (snd (echo_iter tx bufs)) = bufs"
    "sent (snd (snd (pm_iter tx meta bufs))) @ freed (snd (snd (pm_iter tx meta bufs))) = bufs"
    using tx_then_free_io [OF assms] by (simp_all add: echo_iter_def pm_iter_def)
  have "map (\<lambda>i. f (bufs ! i)) [0..<length bufs] = map f bufs" for f :: "mbuf \<Rightarrow> u8 list"
    by (intro nth_equalityI) simp_all
  from this [of "\<lambda>m. map (rd8 m) [0..<data_len m]"] show "map (read_hex \<circ> packet_hex) (fst (echo_iter tx bufs)) = map (\<lambda>m. map (rd8 m) [0..<data_len m]) bufs"
    by (simp add: echo_iter_def print_packets_def hex_dump_back comp_def)
qed

lemma pm_starts: "starts_port (\<lambda>_. True) pm_main_start 0"
  unfolding pm_main_start_def init_eal_def pm_create_mempool_def pm_init_port_def
  by (rule starts_portI [where E = ok_env]; auto simp: monitor_simps ok_env_def split: if_splits)

lemma echo_unchecked: "\<not> starts_port (\<lambda>_. True) echo_main_start 0"
  by (rule not_starts) (simp add: echo_main_start_def must_eq nonnull_eq call_p_def done_p_def rte_exit_def bad_device_def ok_env_def)

subsection \<open>rxtx_callbacks/sample/simple.c\<close>

definition my_rx_callback :: "u64 \<Rightarrow> u16 \<Rightarrow> u64 \<times> u16" where
  "my_rx_callback counter nb_pkts = (counter + ucast nb_pkts, nb_pkts)"

text \<open>\<open>rte_eth_rx_burst\<close> calls the callback on what it received; the loop prints both counts and frees.\<close>

fun callback_loop :: "u64 \<Rightarrow> mbuf list list \<Rightarrow> u64 \<times> (nat \<times> u64) list \<times> mbuf list" where
  "callback_loop cnt [] = (cnt, [], [])"
| "callback_loop cnt (pkts # bs) =
     (case my_rx_callback cnt (of_nat (length pkts)) of (c, n) \<Rightarrow>
       (case callback_loop c bs of (c', out, fr) \<Rightarrow>
          if 0 < n then (c', (unat n, c) # out, free_range pkts 0 (unat n) @ fr) else (c', out, fr)))"

definition callback_main_start :: "unit prog" where
  "callback_main_start =
     must Rte_eal_init ''EAL init failed''
     (call_p (Rte_eth_dev_configure 0 1 1) (\<lambda>_.
     call_p (Rte_pktmbuf_pool_create ''MBUF_POOL'' 8192 256) (\<lambda>mp.
     call_p (Rte_eth_rx_queue_setup 0 0 128 mp) (\<lambda>_.
     call_p (Rte_eth_tx_queue_setup 0 0 128) (\<lambda>_.
     call_p (Rte_eth_dev_start 0) (\<lambda>_.
     call_p (Lib_call ''rte_eth_add_rx_callback'' [0, 0]) (\<lambda>_. done_p ())))))))"

lemma callback_unchecked: "\<not> starts_port (\<lambda>_. True) callback_main_start 0"
  by (rule not_starts) (simp add: callback_main_start_def must_eq call_p_def done_p_def rte_exit_def bad_device_def ok_env_def)

text \<open>The counter is the number of packets, and each is freed.\<close>

lemma callback_counts:
  assumes "\<forall>b\<in>set bs. length b \<le> 32"
  shows "fst (callback_loop c bs) = c + of_nat (length (concat bs)) \<and> snd (snd (callback_loop c bs)) = concat bs"
  using assms
proof (induction bs arbitrary: c)
  case (Cons b bs)
  have n: "unat (of_nat (length b) :: u16) = length b" using Cons.prems by simp
  then have u: "(ucast (of_nat (length b) :: u16) :: u64) = of_nat (length b)" by (metis of_nat_unat)
  have z: "(0 < (of_nat (length b) :: u16)) = (b \<noteq> [])"
    using n by (simp add: word_less_nat_alt)
  obtain c' out fr where r: "callback_loop (c + of_nat (length b)) bs = (c', out, fr)" by (metis prod_cases3)
  from Cons.IH [of "c + of_nat (length b)"] Cons.prems r show ?case
    by (simp add: my_rx_callback_def u z n free_range_drop add.assoc)
qed simp

subsection \<open>rss_dpdk/main.c\<close>

text \<open>Four queues, whatever the number of cores; the main core polls one queue at most.\<close>

definition rss4_main_start :: "unit prog" where
  "rss4_main_start =
     must Rte_eal_init ''EAL init failed''
     (call_p Rte_eth_dev_count_avail (\<lambda>nb_ports. if nb_ports = 0 then rte_exit ''No ports found'' else
     nonnull (Rte_pktmbuf_pool_create ''MBUF_POOL'' 8191 250) ''Cannot create mbuf pool'' (\<lambda>mp.
     must (Rte_eth_dev_configure 0 4 0) ''Port configure failed''
     (setup_queues 0 4 mp
     (must (Rte_eth_dev_start 0) ''Port start failed'' (done_p ()))))))"

definition rss4_polling :: "nat \<Rightarrow> nat list \<Rightarrow> (nat \<times> u16) list" where
  "rss4_polling main_core workers =
     (case launch_workers workers 0 4 of (l, q) \<Rightarrow> if q < 4 then l @ [(main_core, q)] else l)"

definition rss4_lcore_rx :: "mbuf list \<Rightarrow> mbuf list" where
  "rss4_lcore_rx bufs = (if bufs = [] then [] else free_range bufs 0 (length bufs))"

lemma rss4_covered: "map snd (rss4_polling main_core workers) = map of_nat [0..<min 4 (Suc (length workers))]"
proof -
  define xs :: "u16 list" where "xs = map of_nat [0..<4]"
  have len: "length xs = 4" by (simp add: xs_def)
  have tk: "take n xs = map of_nat [0..<n]" if "n \<le> 4" for n
    unfolding xs_def using that by (simp only: take_map take_upt add_0)
  have l: "launch_workers workers 0 4 = (zip workers xs, of_nat (min 4 (length workers)))"
    using launch_workers_spec [of 0 4 workers] by (simp add: xs_def)
  show ?thesis
  proof (cases "4 \<le> length workers")
    case True
    then show ?thesis using tk [of 4] len by (simp add: rss4_polling_def l map_snd_zip_take min_def del: upt_conv_Nil)
  next
    case False
    then have "unat (of_nat (length workers) :: u16) < 4" by simp
    then have lt: "(of_nat (length workers) :: u16) < 4" by (simp add: word_less_nat_alt)
    have "map snd (rss4_polling main_core workers) = take (length workers) xs @ [of_nat (length workers)]"
      using False len lt by (simp add: rss4_polling_def l map_snd_zip_take min_def)
    moreover have "min 4 (Suc (length workers)) = Suc (length workers)" using False by simp
    ultimately show ?thesis using False tk [of "length workers"] by simp
  qed
qed

text \<open>With fewer than three workers some queue is polled by nobody.\<close>

lemma rss4_unpolled:
  assumes "length workers < 3"
  shows "3 \<notin> set (map snd (rss4_polling main_core workers))"
proof -
  have "(3 :: u16) \<noteq> of_nat i" if "i < length workers + 1" for i
  proof
    assume "(3 :: u16) = of_nat i"
    then have "unat (3 :: u16) = unat (of_nat i :: u16)" by simp
    then show False using that assms by simp
  qed
  then show ?thesis unfolding rss4_covered by (auto simp: min_def split: if_splits)
qed

end
