(* ===== verification/Nic_Stats.thy ===== *)
theory Nic_Stats
  imports Pipeline Startup
begin

text \<open>
  \<open>nic_stats/sample\<close>: the three-thread pipeline of theory \<open>Pipeline\<close> without the dissector,
  followed by the counters of the port. It is shown to be that pipeline with the output
  left out, so that its invariant carries over.

  \<open>rx.c\<close> and \<open>tx.c\<close> are those of the three-thread pipeline, \<open>rx_step\<close> and \<open>tx_step\<close>; the
  parser only counts and passes on.
\<close>

definition nic_parser_step :: "('r, mbuf) ring_api \<Rightarrow> 'r pipeline \<Rightarrow> 'r pipeline" where
  "nic_parser_step R s =
     (case parser_at s of
        Pa_Test \<Rightarrow> s\<lparr>parser_at := if force_quit s then Pa_Stop else Pa_Deq\<rparr>
      | Pa_Deq \<Rightarrow>
          (case ring_dequeue_burst R (ring_rx_to_parse s) 32 of (pkts, r) \<Rightarrow>
             s\<lparr>ring_rx_to_parse := r, parser_count := parser_count s + of_nat (length pkts),
               parser_at := if pkts = [] then Pa_Test else Pa_Enq pkts\<rparr>)
      | Pa_Enq pkts \<Rightarrow>
          (case ring_enqueue_burst R (ring_parse_to_tx s) pkts of (m, r) \<Rightarrow>
             s\<lparr>ring_parse_to_tx := r, parser_freed := parser_freed s @ free_range pkts m (length pkts), parser_at := Pa_Test\<rparr>)
      | Pa_Stop \<Rightarrow> s)"

inductive nic_step :: "('r, mbuf) ring_api \<Rightarrow> 'r pipeline \<Rightarrow> 'r pipeline \<Rightarrow> bool" for R where
  rx: "length ps \<le> 32 \<Longrightarrow> nic_step R s (rx_step R ps s)"
| parser: "nic_step R s (nic_parser_step R s)"
| tx: "tx_ok t \<Longrightarrow> nic_step R s (tx_step R t s)"

definition nic_main_start :: "unit prog" where
  "nic_main_start =
     call_p Rte_eal_init (\<lambda>_.
     must (Rte_eth_dev_is_valid_port 0) ''Invalid port id''
     (must (Rte_eth_dev_info_get 0) ''Error during getting device info''
     (must (Rte_eth_dev_configure 0 1 1) ''Port configure failed''
     (nonnull (Rte_pktmbuf_pool_create ''MBUF_POOL'' 8192 256) ''MBUF pool create failed'' (\<lambda>mp.
     must (Rte_eth_rx_queue_setup 0 0 1024 mp) ''RX queue setup failed''
     (must (Rte_eth_tx_queue_setup 0 0 1024) ''TX queue setup failed''
     (must (Rte_eth_dev_start 0) ''Port start failed''
     (call_p (Rte_ring_create ''RING_RX_PARSE'' 1024) (\<lambda>a.
     call_p (Rte_ring_create ''RING_PARSE_TX'' 1024) (\<lambda>b.
       if a = 0 \<or> b = 0 then rte_exit ''Ring creation failed'' else done_p ()))))))))))"

text \<open>The counters of \<open>struct rte_eth_stats\<close>, printed when the call returns 0.\<close>

record eth_stats =
  ipackets :: u64
  opackets :: u64
  ibytes :: u64
  obytes :: u64
  imissed :: u64
  ierrors :: u64
  oerrors :: u64

definition print_eth_stats :: "int \<Rightarrow> eth_stats \<Rightarrow> (string \<times> u64) list option" where
  "print_eth_stats ret s =
     (if ret = 0 then Some [(''RX packets'', ipackets s), (''TX packets'', opackets s), (''RX bytes'', ibytes s),
        (''TX bytes'', obytes s), (''RX dropped'', imissed s), (''RX errors'', ierrors s), (''TX errors'', oerrors s)]
      else None)"

text \<open>
  Three calls: the number of counters, their names, their values. A call given fewer entries
  than there are returns that number and fills nothing (\<open>rte_eth_xstats_get\<close>); an entry that
  was never filled is printed as it lies in memory (\<open>None\<close>). \<open>Inl\<close> is a message instead.
\<close>

definition xstats_fill :: "nat \<Rightarrow> 'a list \<Rightarrow> 'a option list" where
  "xstats_fill len xs = (if length xs \<le> len then map Some xs @ replicate (len - length xs) None else replicate len None)"

definition print_xstats :: "int \<Rightarrow> int \<Rightarrow> string list \<Rightarrow> int \<Rightarrow> u64 list \<Rightarrow> string + (string option \<times> u64 option) list" where
  "print_xstats len rn names rv vals =
     (if len < 0 then Inl ''Cannot get xstats count''
      else if rn < 0 then Inl ''Cannot get xstats names''
      else if rv < 0 then Inl ''Cannot get xstats''
      else Inr (map (\<lambda>i. (xstats_fill (nat len) names ! i, xstats_fill (nat len) vals ! i)) [0..<nat len]))"

lemma xstats_complete:
  assumes "length names = length vals" "0 \<le> rn" "0 \<le> rv"
  shows "print_xstats (int (length vals)) rn names rv vals = Inr (zip (map Some names) (map Some vals))"
  using assms by (auto simp: print_xstats_def xstats_fill_def intro!: nth_equalityI)

text \<open>A counter that appears between the calls leaves the whole array unfilled.\<close>

lemma xstats_grown:
  "print_xstats 2 2 [a, b] 3 [x, y, z] = Inr [(Some a, None), (Some b, None)]"
  by (simp add: print_xstats_def xstats_fill_def upt_rec numeral_2_eq_2)

lemma nic_starts: "starts_port (\<lambda>_. True) nic_main_start 0"
  unfolding nic_main_start_def
  by (rule starts_portI [where E = ok_env]; auto simp: monitor_simps ok_env_def split: if_splits)

subsection \<open>Refinement of the pipeline\<close>

definition unprinted :: "'r pipeline \<Rightarrow> 'r pipeline" where
  "unprinted s = s\<lparr>printed := []\<rparr>"

lemma step_unprinted:
  "rx_step R ps (unprinted s) = unprinted (rx_step R ps s)"
  "nic_parser_step R (unprinted s) = unprinted (parser_step R s)"
  "tx_step R t (unprinted s) = unprinted (tx_step R t s)"
  by (auto simp: unprinted_def rx_step_def nic_parser_step_def parser_step_def tx_step_def Let_def
      split: rx_pc.splits parser_pc.splits tx_pc.splits list.splits prod.splits)

lemma nic_refines:
  assumes "(nic_step R)\<^sup>*\<^sup>* (unprinted s0) s"
  shows "\<exists>t. (pipeline_step R)\<^sup>*\<^sup>* s0 t \<and> s = unprinted t"
  using assms
proof (induction rule: rtranclp_induct)
  case (step y z)
  then obtain t where t: "(pipeline_step R)\<^sup>*\<^sup>* s0 t" "y = unprinted t" by blast
  from step.hyps(2) show ?case
  proof cases
    case (rx ps)
    with t pipeline_reach(1) [OF t(1)] show ?thesis by (auto simp: step_unprinted)
  next
    case parser
    with t pipeline_reach(2) [OF t(1)] show ?thesis by (auto simp: step_unprinted)
  next
    case (tx tr)
    with t pipeline_reach(3) [OF t(1)] show ?thesis by (auto simp: step_unprinted)
  qed
qed blast

lemma nic_refined:
  assumes "(pipeline_step R)\<^sup>*\<^sup>* s0 t"
  shows "(nic_step R)\<^sup>*\<^sup>* (unprinted s0) (unprinted t)"
  using assms
proof (induction rule: rtranclp_induct)
  case (step y z)
  from step.hyps(2) have "nic_step R (unprinted y) (unprinted z)"
    by cases (metis nic_step.intros step_unprinted)+
  with step.IH show ?case by simp
qed blast

lemma nic_reachable:
  "(nic_step R)\<^sup>*\<^sup>* (pipeline_init r1 r2) s \<longleftrightarrow> (\<exists>t. (pipeline_step R)\<^sup>*\<^sup>* (pipeline_init r1 r2) t \<and> s = unprinted t)"
proof -
  have "unprinted (pipeline_init r1 r2) = pipeline_init r1 r2" by (simp add: unprinted_def pipeline_init_def)
  then show ?thesis using nic_refines [of R "pipeline_init r1 r2" s] nic_refined [of R "pipeline_init r1 r2"] by auto
qed

subsection \<open>The counters\<close>

definition counted :: "('r, mbuf) ring_api \<Rightarrow> 'r pipeline \<Rightarrow> bool" where
  "counted R s \<longleftrightarrow> parser_count s = of_nat (length (parsed R s)) \<and>
     tx_count s = of_nat (length (tx_log s) + length (tx_held (tx_at s)))"

lemma counted_step:
  assumes R: "ring_laws R" and i: "pipeline_inv R s" and c: "counted R s" and st: "pipeline_step R s s'"
  shows "counted R s'"
  using st
proof cases
  case (rx ps)
  have "parser_count s' = parser_count s" "tx_count s' = tx_count s" "parsed R s' = parsed R s" "tx_log s' = tx_log s" "tx_at s' = tx_at s"
    by (auto simp: rx rx_step_def parsed_def split: rx_pc.splits list.splits prod.splits)
  with c show ?thesis by (simp add: counted_def)
next
  case parser
  show ?thesis
  proof (cases "parser_at s")
    case (Pa_Enq xs)
    obtain n r where e: "ring_enqueue_burst R (ring_parse_to_tx s) xs = (n, r)" by fastforce
    have "length (ring_items R (ring_parse_to_tx s)) + length xs \<le> ring_capacity R (ring_parse_to_tx s)"
      using i Pa_Enq by (auto simp: pipeline_inv_def rx_bound_def pl_defs)
    with rte_ring.enqs_fits [OF R _ e] have "ring_items R r = ring_items R (ring_parse_to_tx s) @ xs" by auto
    with c Pa_Enq e show ?thesis by (simp add: parser parser_step_def counted_def parsed_def parser_held_def)
  qed (use c in \<open>auto simp: parser parser_step_def counted_def parsed_def parser_held_def split: prod.splits\<close>)
next
  case (tx t)
  show ?thesis
  proof (cases "tx_at s")
    case Tx_Deq
    obtain xs r where e: "ring_dequeue_burst R (ring_parse_to_tx s) 32 = (xs, r)" by fastforce
    with rte_ring.deq_front [OF R e] have "ring_items R (ring_parse_to_tx s) = xs @ ring_items R r" by simp
    with c Tx_Deq e show ?thesis by (simp add: tx tx_step_def counted_def parsed_def tx_held_def)
  next
    case (Tx_Send xs)
    let ?l = "map (\<lambda>p. (p, True)) (take (t xs) xs) @ map (\<lambda>p. (p, False)) (free_range xs (t xs) (length xs))"
    have "map fst ?l = xs" by (simp add: free_range_drop comp_def)
    moreover from this have "length ?l = length xs" by (metis length_map)
    moreover have "tx_step R t s = s\<lparr>tx_log := tx_log s @ ?l, tx_at := Tx_Test\<rparr>" by (simp add: tx_step_def Tx_Send Let_def)
    ultimately show ?thesis using c Tx_Send unfolding tx(1)
      by (simp add: counted_def parsed_def tx_held_def del: map_append)
  qed (use c in \<open>auto simp: tx tx_step_def counted_def parsed_def tx_held_def\<close>)
qed

lemma pipeline_counted:
  assumes R: "ring_laws R" and "(pipeline_step R)\<^sup>*\<^sup>* s s'" and "pipeline_inv R s" "counted R s"
  shows "counted R s'"
  using assms(2,4)
proof (induction rule: rtranclp_induct)
  case (step y z)
  then show ?case using counted_step [OF R pipeline_invariant [OF R step.hyps(1) assms(3)]] by blast
qed

subsection \<open>What is left behind\<close>

lemma nic_reach:
  assumes "(nic_step R)\<^sup>*\<^sup>* s0 s"
  shows "length ps \<le> 32 \<Longrightarrow> (nic_step R)\<^sup>*\<^sup>* s0 (rx_step R ps s)" "(nic_step R)\<^sup>*\<^sup>* s0 (nic_parser_step R s)"
    "tx_ok t \<Longrightarrow> (nic_step R)\<^sup>*\<^sup>* s0 (tx_step R t s)"
  using assms by (auto intro: rtranclp.rtrancl_into_rtrancl nic_step.intros)

lemma rx_enqueues:
  assumes "force_quit s = False" "rx_at s = Rx_Enq ps" "length (ring_rx_to_parse s) + length ps \<le> 1023"
  shows "(nic_step (ref_ring 1023))\<^sup>*\<^sup>* s (s\<lparr>ring_rx_to_parse := ring_rx_to_parse s @ ps, rx_at := Rx_Enq []\<rparr>)"
  using assms
proof (induction ps arbitrary: s)
  case Nil
  then have "s\<lparr>ring_rx_to_parse := ring_rx_to_parse s @ [], rx_at := Rx_Enq []\<rparr> = s" by simp
  then show ?case by simp
next
  case (Cons p ps)
  let ?s1 = "s\<lparr>ring_rx_to_parse := ring_rx_to_parse s @ [p], rx_at := Rx_Enq ps\<rparr>"
  have "rx_step (ref_ring 1023) [] s = ?s1" using Cons.prems by (simp add: rx_step_def ref_ring_def)
  then have "nic_step (ref_ring 1023) s ?s1" using nic_step.rx [of "[]" "ref_ring 1023" s] by simp
  moreover have "(nic_step (ref_ring 1023))\<^sup>*\<^sup>* ?s1 (?s1\<lparr>ring_rx_to_parse := ring_rx_to_parse ?s1 @ ps, rx_at := Rx_Enq []\<rparr>)"
    using Cons.prems by (intro Cons.IH) simp_all
  ultimately show ?case by (simp add: converse_rtranclp_into_rtranclp)
qed

text \<open>A first burst of ten stops all threads before the parser has looked: nothing is sent or freed.\<close>

lemma nic_stop_leaks:
  assumes "10 \<le> length ps" "length ps \<le> 32"
  shows "\<exists>s. (nic_step (ref_ring 1023))\<^sup>*\<^sup>* (pipeline_init [] []) s \<and> rx_at s = Rx_Stop \<and> parser_at s = Pa_Stop \<and>
    tx_at s = Tx_Stop \<and> ring_rx_to_parse s = ps \<and> tx_log s = [] \<and> parser_freed s = []"
proof -
  let ?R = "ref_ring 1023 :: (mbuf list, mbuf) ring_api" and ?s0 = "pipeline_init [] [] :: mbuf list pipeline"
  define s1 where "s1 = rx_step ?R ps (rx_step ?R [] ?s0)"
  have r1: "(nic_step ?R)\<^sup>*\<^sup>* ?s0 s1" unfolding s1_def
    using assms(2) by (intro nic_reach) simp_all
  have s1: "s1 = ?s0\<lparr>rx_count := of_nat (length ps), received := ps, rx_at := Rx_Enq ps\<rparr>"
    by (simp add: s1_def rx_step_def pipeline_init_def)
  define s2 where "s2 = s1\<lparr>ring_rx_to_parse := ring_rx_to_parse s1 @ ps, rx_at := Rx_Enq []\<rparr>"
  have r2: "(nic_step ?R)\<^sup>*\<^sup>* s1 s2" unfolding s2_def
    using assms by (intro rx_enqueues) (simp_all add: s1 pipeline_init_def)
  define s where "s = tx_step ?R length (nic_parser_step ?R (rx_step ?R [] (rx_step ?R [] s2)))"
  have r3: "(nic_step ?R)\<^sup>*\<^sup>* s2 s" unfolding s_def
    by (intro nic_reach) (simp_all add: tx_ok_def)
  have "unat (of_nat (length ps) :: u64) = length ps" using assms(2) by (simp add: unat_of_nat take_bit_nat_eq_self)
  then have "10 \<le> (of_nat (length ps) :: u64)" using assms(1) by (simp add: word_le_nat_alt)
  then have "rx_at s = Rx_Stop \<and> parser_at s = Pa_Stop \<and> tx_at s = Tx_Stop \<and> ring_rx_to_parse s = ps \<and> tx_log s = [] \<and> parser_freed s = []"
    by (simp add: s_def s2_def s1 pipeline_init_def rx_step_def nic_parser_step_def tx_step_def)
  with rtranclp_trans [OF rtranclp_trans [OF r1 r2] r3] show ?thesis by blast
qed

text \<open>
  C37. The statistics program. Under every interleaving of its threads its states are exactly
  those of the dissecting pipeline with the output left out; nothing is lost or freed before the
  transmit thread, packets keep their order, and the three totals it prints are the packets
  received, passed by the parser and taken for sending. But the threads stop as soon as ten
  packets came in: a first burst of ten or more may remain in the first ring, neither sent nor
  freed.
\<close>

theorem nic_stats_pipeline:
  assumes "ring_laws R" "ring_items R r1 = []" "ring_items R r2 = []"
    "ring_capacity R r1 = 1023" "ring_capacity R r2 = 1023"
  shows "((nic_step R)\<^sup>*\<^sup>* (pipeline_init r1 r2) s \<longleftrightarrow> (\<exists>t. (pipeline_step R)\<^sup>*\<^sup>* (pipeline_init r1 r2) t \<and> s = unprinted t)) \<and>
    ((nic_step R)\<^sup>*\<^sup>* (pipeline_init r1 r2) s \<longrightarrow>
      rx_lost s = [] \<and> parser_freed s = [] \<and>
      received s = parsed R s @ ring_items R (ring_rx_to_parse s) @ rx_held (rx_at s) \<and>
      unat (rx_count s) = length (received s) \<and> unat (parser_count s) = length (parsed R s) \<and>
      unat (tx_count s) = length (tx_log s) + length (tx_held (tx_at s))) \<and>
    (10 \<le> length ps \<longrightarrow> length ps \<le> 32 \<longrightarrow>
      (\<exists>u. (nic_step (ref_ring 1023))\<^sup>*\<^sup>* (pipeline_init [] []) u \<and> rx_at u = Rx_Stop \<and> parser_at u = Pa_Stop \<and>
        tx_at u = Tx_Stop \<and> ring_rx_to_parse u = ps \<and> tx_log u = [] \<and> parser_freed u = []))"
proof (intro conjI impI)
  assume "(nic_step R)\<^sup>*\<^sup>* (pipeline_init r1 r2) s"
  from iffD1 [OF nic_reachable this] obtain t
    where t: "(pipeline_step R)\<^sup>*\<^sup>* (pipeline_init r1 r2) t" "s = unprinted t" by (elim exE conjE)
  have i0: "pipeline_inv R (pipeline_init r1 r2)" "counted R (pipeline_init r1 r2)"
    using assms(2-5) by (simp_all add: pipeline_inv_def pipeline_init_def rx_bound_def pl_defs counted_def)
  have i: "pipeline_inv R t" by (rule pipeline_invariant [OF assms(1) t(1) i0(1)])
  have c: "counted R t" by (rule pipeline_counted [OF assms(1) t(1) i0])
  have b: "length (parsed R t) \<le> 41" "length (tx_log t) + length (tx_held (tx_at t)) \<le> 41" "length (received t) \<le> 41"
    using i by (auto simp: pipeline_inv_def in_order_def rx_bound_def parsed_def)
  have u: "unat (of_nat n :: u64) = n" if "n \<le> 41" for n using that by (simp add: unat_of_nat take_bit_nat_eq_self)
  show "rx_lost s = []" "parser_freed s = []" "received s = parsed R s @ ring_items R (ring_rx_to_parse s) @ rx_held (rx_at s)"
    "unat (rx_count s) = length (received s)" "unat (parser_count s) = length (parsed R s)"
    "unat (tx_count s) = length (tx_log s) + length (tx_held (tx_at s))"
    using i c u [OF b(1)] u [OF b(2)] u [OF b(3)]
    by (simp_all add: t(2) unprinted_def pipeline_inv_def in_order_def rx_bound_def counted_def parsed_def)
qed (rule nic_reachable, erule (1) nic_stop_leaks)

theorem nic_stats_pipeline_witness:
  "\<exists>u. (nic_step (ref_ring 1023))\<^sup>*\<^sup>* (pipeline_init [] []) u \<and> rx_at u = Rx_Stop \<and>
     length (ring_rx_to_parse u) = 10 \<and> tx_log u = [] \<and> parser_freed u = []"
proof -
  have e: "ring_items (ref_ring 1023) ([] :: mbuf list) = []" "ring_capacity (ref_ring 1023) ([] :: mbuf list) = 1023"
    by (simp_all add: ref_ring_def)
  have "10 \<le> length (replicate 10 tagged_icmp) \<and> length (replicate 10 tagged_icmp) \<le> 32" by simp
  with nic_stats_pipeline [OF ref_ring_laws e(1) e(1) e(2) e(2), where ps = "replicate 10 tagged_icmp" and s = "pipeline_init [] []"]
  show ?thesis by (metis length_replicate)
qed

end
