(* ===== verification/Demos.thy ===== *)
theory Demos
  imports Startup Burst Rte_Hash
begin

text \<open>
  Programs that show one interface: CPU frequencies (\<open>power_aware_polling\<close>), prefetching
  (\<open>prefetch\<close>), telemetry (\<open>telementry\<close>), a typed-in stop watch (\<open>timer/sample\<close>), a hash table
  (\<open>hashing/sample\<close>) and the launching of cores (\<open>lcore\<close>). Time stamps are words of 64 bits
  given as arguments.
\<close>

subsection \<open>power_aware_polling/automatic\<close>

datatype freq_action = Freq_max | Freq_min | Freq_keep

definition decide :: "u64 \<Rightarrow> freq_action" where
  "decide diff = (if 8000000 < diff then Freq_max else if diff < 2000000 then Freq_min else Freq_keep)"

text \<open>One entry per round of the loop: the time stamp read after the simulated work.\<close>

fun power_loop :: "u64 \<Rightarrow> u64 list \<Rightarrow> freq_action list" where
  "power_loop prev_tsc [] = []"
| "power_loop prev_tsc (cur_tsc # rest) = decide (cur_tsc - prev_tsc) # power_loop cur_tsc rest"

definition power_worker :: "int \<Rightarrow> u64 \<Rightarrow> u64 list \<Rightarrow> freq_action list option" where
  "power_worker init_ret tsc0 reads = (if init_ret < 0 then None else Some (power_loop tsc0 reads))"

definition power_main_start :: "unit prog" where
  "power_main_start = must Rte_eal_init ''EAL init failed''
     (call_p (Lib_call ''rte_eal_remote_launch power_worker'' [1]) (\<lambda>_. done_p ()))"

text \<open>The difference is the time passed, also when the counter wraps.\<close>

lemma tsc_diff:
  assumes "t \<le> t'" "t' - t < 2 ^ 64"
  shows "unat ((of_nat t' :: u64) - of_nat t) = t' - t"
proof -
  have "(of_nat t' :: u64) - of_nat t = of_nat (t' - t)" using assms(1) by (simp add: of_nat_diff)
  then show ?thesis using assms(2) by (simp add: unat_of_nat take_bit_nat_eq_self)
qed

text \<open>
  The time stamp is taken before the sleep of a second, so each difference but the first
  contains it: on a counter faster than 8 MHz the load is always found to be high.
\<close>

fun slept :: "nat \<Rightarrow> nat \<Rightarrow> nat list \<Rightarrow> bool" where
  "slept hz t [] = True"
| "slept hz t (t' # ts) = (t + hz \<le> t' \<and> t' - t < 2 ^ 64 \<and> slept hz t' ts)"

lemma power_always_high:
  assumes "8000000 < hz" "slept hz t ts"
  shows "power_loop (of_nat t) (map of_nat ts) = replicate (length ts) Freq_max"
  using assms(2)
proof (induction ts arbitrary: t)
  case (Cons t' ts)
  have "unat ((of_nat t' :: u64) - of_nat t) = t' - t" using Cons.prems by (intro tsc_diff) auto
  moreover have "hz \<le> t' - t" using Cons.prems by auto
  ultimately have "8000000 < (of_nat t' :: u64) - of_nat t" using assms(1) by (simp add: word_less_nat_alt)
  then show ?case using Cons by (simp add: decide_def)
qed simp

subsection \<open>power_aware_polling/manual\<close>

text \<open>\<open>RTE_LCORE_FOREACH_WORKER\<close> left at once: the first worker, or the number of cores there can be.\<close>

definition first_worker :: "int \<Rightarrow> nat list \<Rightarrow> int" where
  "first_worker max_lcore workers = (case workers of [] \<Rightarrow> max_lcore | w # _ \<Rightarrow> int w)"

primrec repeat_freq :: "nat \<Rightarrow> string \<Rightarrow> int \<Rightarrow> unit prog \<Rightarrow> unit prog" where
  "repeat_freq 0 f l k = k"
| "repeat_freq (Suc n) f l k = call_p (Lib_call f [l]) (\<lambda>_. call_p (Lib_call ''rte_power_get_freq'' [l]) (\<lambda>_. repeat_freq n f l k))"

definition manual_main :: "int \<Rightarrow> nat list \<Rightarrow> unit prog" where
  "manual_main max_lcore workers =
     (let l = first_worker max_lcore workers in
      must Rte_eal_init ''EAL init failed''
      (must (Lib_call ''rte_power_init'' [l]) ''Power init failed''
      (call_p (Lib_call ''rte_power_get_freq'' [l]) (\<lambda>_.
      repeat_freq 3 ''rte_power_freq_up'' l
      (repeat_freq 3 ''rte_power_freq_down'' l
      (repeat_freq 1 ''rte_power_freq_max'' l
      (repeat_freq 1 ''rte_power_freq_min'' l
      (call_p (Lib_call ''rte_power_exit'' [l]) (\<lambda>_. done_p ())))))))))"

lemma manual_balanced:
  assumes "manual_main n ws E [] = (Done (), tr)"
  shows "take 2 tr = [Rte_eal_init, Lib_call ''rte_power_init'' [first_worker n ws]] \<and>
    last tr = Lib_call ''rte_power_exit'' [first_worker n ws] \<and>
    length (filter (\<lambda>c. c = Lib_call ''rte_power_freq_up'' [first_worker n ws]) tr) = 3 \<and>
    length (filter (\<lambda>c. c = Lib_call ''rte_power_freq_down'' [first_worker n ws]) tr) = 3"
  using assms by (auto simp: manual_main_def must_eq call_p_def done_p_def Let_def numeral_eq_Suc split: if_splits)

subsection \<open>prefetch\<close>

text \<open>The simulated header parse: a sum of four bytes as a 32-bit number, the index of a table.\<close>

definition lookup_key :: "mbuf \<Rightarrow> u32" where
  "lookup_key m = (ucast (rd8 m 0) + ucast (rd8 m 14) + ucast (rd8 m 34) + ucast (rd8 m 54)) mod 65536"

definition prefetch_table :: "u32 list" where
  "prefetch_table = map of_nat [0..<65536]"

text \<open>The values read; \<open>None\<close> is a read beyond the packets or the table.\<close>

definition at_index :: "'a list \<Rightarrow> nat \<Rightarrow> 'a option" where
  "at_index xs i = (if i < length xs then Some (xs ! i) else None)"

definition process_without_prefetch :: "u32 list \<Rightarrow> mbuf list \<Rightarrow> nat \<Rightarrow> u32 option list" where
  "process_without_prefetch tbl pkts nb =
     map (\<lambda>i. Option.bind (at_index pkts i) (\<lambda>m. at_index tbl (unat (lookup_key m)))) [0..<nb]"

text \<open>With the packets prefetched, by their index.\<close>

definition process_with_prefetch :: "u32 list \<Rightarrow> mbuf list \<Rightarrow> nat \<Rightarrow> (nat option \<times> u32 option) list" where
  "process_with_prefetch tbl pkts nb =
     map (\<lambda>i. (if i + 4 < nb then Some (i + 4) else None,
               Option.bind (at_index pkts i) (\<lambda>m. at_index tbl (unat (lookup_key m))))) [0..<nb]"

definition wrong_without_prefetch :: "mbuf list \<Rightarrow> nat \<Rightarrow> u8 option list" where
  "wrong_without_prefetch pkts nb = map (\<lambda>i. map_option (\<lambda>m. rd8 m 0) (at_index pkts i)) [0..<nb]"

definition wrong_with_prefetch :: "mbuf list \<Rightarrow> nat \<Rightarrow> (nat option \<times> u8 option) list" where
  "wrong_with_prefetch pkts nb =
     map (\<lambda>i. (if i + 4 < nb then Some (i + 4) else None, map_option (\<lambda>m. rd8 m 0) (at_index pkts i))) [0..<nb]"

text \<open>A round of the benchmark: both passes over the burst, then every buffer is freed.\<close>

definition bench_iter :: "mbuf list \<Rightarrow> (u32 option list \<times> (nat option \<times> u32 option) list \<times> mbuf list) option" where
  "bench_iter bufs = (if bufs = [] then None
     else Some (process_without_prefetch prefetch_table bufs (length bufs),
       process_with_prefetch prefetch_table bufs (length bufs), free_range bufs 0 (length bufs)))"

definition wrong_iter :: "mbuf list \<Rightarrow> (u8 option list \<times> (nat option \<times> u8 option) list \<times> mbuf list) option" where
  "wrong_iter bufs = (if bufs = [] then None
     else Some (wrong_without_prefetch bufs (length bufs), wrong_with_prefetch bufs (length bufs),
       free_range bufs 0 (length bufs)))"

definition prefetch_main_start :: "unit prog" where
  "prefetch_main_start =
     must Rte_eal_init ''EAL init failed''
     (nonnull (Rte_pktmbuf_pool_create ''MBUF_POOL'' 16382 250) ''Cannot create mbuf pool'' (\<lambda>mp.
     call_p (Rte_eth_dev_configure 0 1 0) (\<lambda>_.
     call_p (Rte_eth_rx_queue_setup 0 0 1024 mp) (\<lambda>_.
     call_p (Rte_eth_dev_start 0) (\<lambda>_. done_p ())))))"

definition wrong_main_start :: "unit prog" where
  "wrong_main_start =
     must Rte_eal_init ''EAL init failed''
     (nonnull (Rte_pktmbuf_pool_create ''MBUF_POOL'' 16382 250) ''Cannot create mbuf pool'' (\<lambda>mp.
     call_p (Rte_eth_dev_configure 0 1 0) (\<lambda>_.
     call_p (Rte_eth_rx_queue_setup 0 0 1024 mp) (\<lambda>_.
     call_p (Rte_eth_dev_start 0) (\<lambda>_. done_p ())))))"

lemma lookup_key_sum:
  "unat (lookup_key m) = unat (rd8 m 0) + unat (rd8 m 14) + unat (rd8 m 34) + unat (rd8 m 54)"
proof -
  let ?k = "ucast (rd8 m 0) + ucast (rd8 m 14) + ucast (rd8 m 34) + ucast (rd8 m 54) :: u32"
  have "unat (rd8 m 0) < 256" "unat (rd8 m 14) < 256" "unat (rd8 m 34) < 256" "unat (rd8 m 54) < 256"
    by (rule unat_u8_less)+
  moreover have "unat (ucast b :: u32) = unat b" for b :: u8
  proof -
    have e: "(ucast b :: u32) = of_nat (unat b)" by simp
    show ?thesis unfolding e by (rule unat_of_nat_u32) (use unat_u8_less [of b] in simp)
  qed
  ultimately show ?thesis by (simp add: lookup_key_def unat_mod unat_word_ariths)
qed

text \<open>
  Prefetching changes nothing. Both passes of \<open>prefetch/demo\<close> read the same values, those of
  \<open>prefetch/wrong\<close> too; every packet prefetched is one of the burst and lies ahead; no index
  leaves the table or the burst, and with the table as initialised the value read for a packet
  is the sum of its four bytes; each buffer is freed once.
\<close>

lemma prefetch_equivalent:
  "map snd (process_with_prefetch tbl pkts nb) = process_without_prefetch tbl pkts nb \<and>
   map snd (wrong_with_prefetch pkts nb) = wrong_without_prefetch pkts nb \<and>
   (\<forall>i<nb. case fst (process_with_prefetch tbl pkts nb ! i) of None \<Rightarrow> nb \<le> i + 4 | Some j \<Rightarrow> i < j \<and> j < nb) \<and>
   map_option (\<lambda>(r, _, fr). (r, fr)) (bench_iter bufs) = (if bufs = [] then None else
     Some (map (\<lambda>m. Some (of_nat (unat (rd8 m 0) + unat (rd8 m 14) + unat (rd8 m 34) + unat (rd8 m 54)))) bufs, bufs))"
proof -
  have "unat (lookup_key m) < 65536" for m
    using unat_u8_less [of "rd8 m 0"] unat_u8_less [of "rd8 m 14"] unat_u8_less [of "rd8 m 34"] unat_u8_less [of "rd8 m 54"]
    by (simp add: lookup_key_sum)
  then have "at_index prefetch_table (unat (lookup_key m)) = Some (of_nat (unat (lookup_key m)))" for m
    by (simp add: at_index_def prefetch_table_def del: upt_conv_Nil)
  then have "process_without_prefetch prefetch_table bufs (length bufs) = map (\<lambda>m. Some (of_nat (unat (lookup_key m)))) bufs"
    unfolding process_without_prefetch_def by (intro nth_equalityI) (simp_all add: at_index_def [of bufs])
  then show ?thesis
    by (auto simp: process_without_prefetch_def process_with_prefetch_def wrong_without_prefetch_def wrong_with_prefetch_def
        bench_iter_def free_range_drop lookup_key_sum)
qed

subsection \<open>telementry\<close>

datatype tel_value = Tel_string string | Tel_uint u64 | Tel_int int

definition adv_summary_handler :: "u64 \<Rightarrow> u64 \<Rightarrow> u64 \<Rightarrow> u64 \<Rightarrow> u64 \<Rightarrow> (string \<times> tel_value) list" where
  "adv_summary_handler now hz start_tsc lcore_count total_loops =
     (let uptime_sec = if hz \<noteq> 0 then (now - start_tsc) div hz else 0
      in [(''app'', Tel_string ''advanced-telemetry''), (''uptime_sec'', Tel_uint uptime_sec),
          (''lcore_count'', Tel_uint lcore_count), (''total_loops'', Tel_uint total_loops)])"

definition adv_lcore_stats_handler :: "nat list \<Rightarrow> (nat \<Rightarrow> u64) \<Rightarrow> u64 list" where
  "adv_lcore_stats_handler lcores loops = map loops lcores"

definition app_stats_handler :: "bool \<Rightarrow> int \<Rightarrow> int \<Rightarrow> int \<times> (string \<times> tel_value) list" where
  "app_stats_handler d_null lcore_count main_lcore =
     (if d_null then (-1, [])
      else (0, [(''app'', Tel_string ''minimal-telemetry''), (''lcore_count'', Tel_int lcore_count),
                (''main_lcore'', Tel_int main_lcore)]))"

text \<open>The uptime is the whole seconds since the start, also when the counter wraps.\<close>

lemma uptime_seconds:
  assumes "t \<le> t'" "t' - t < 2 ^ 64" "0 < hz" "hz < 2 ^ 64"
  shows "adv_summary_handler (of_nat t') (of_nat hz) (of_nat t) n l ! 1 = (''uptime_sec'', Tel_uint (of_nat ((t' - t) div hz)))"
proof -
  have hz: "unat (of_nat hz :: u64) = hz" using assms(4) by (simp add: unat_of_nat take_bit_nat_eq_self)
  then have "(of_nat hz :: u64) \<noteq> 0" using assms(3) by (metis unat_0 less_irrefl)
  moreover have "((of_nat t' :: u64) - of_nat t) div of_nat hz = of_nat ((t' - t) div hz)"
    by (simp only: word_arith_nat_div tsc_diff [OF assms(1,2)] hz)
  ultimately show ?thesis by (simp add: adv_summary_handler_def Let_def)
qed

text \<open>
  A worker of \<open>advanced_stats\<close>: it counts its own loops and then reads, adds and stores the
  total, which all workers share without a lock. \<open>None\<close> in \<open>tel_reg\<close>: between two rounds.
\<close>

record tel_state =
  tel_loops :: "nat \<Rightarrow> u64"
  tel_total :: u64
  tel_reg :: "nat \<Rightarrow> u64 option"

definition worker_tick :: "nat \<Rightarrow> tel_state \<Rightarrow> tel_state" where
  "worker_tick c s = (case tel_reg s c of
     None \<Rightarrow> s\<lparr>tel_loops := (tel_loops s)(c := tel_loops s c + 1), tel_reg := (tel_reg s)(c \<mapsto> tel_total s)\<rparr>
   | Some v \<Rightarrow> s\<lparr>tel_total := v + 1, tel_reg := (tel_reg s)(c := None)\<rparr>)"

definition tel_init :: tel_state where
  "tel_init = \<lparr>tel_loops = (\<lambda>_. 0), tel_total = 0, tel_reg = Map.empty\<rparr>"

text \<open>The start-ups: results of launching and of registering are printed or ignored.\<close>

fun launch_all :: "int list \<Rightarrow> 'a prog \<Rightarrow> 'a prog" where
  "launch_all [] p = p"
| "launch_all (c # cs) p = call_p (Lib_call ''rte_eal_remote_launch worker_loop'' [c]) (\<lambda>_. launch_all cs p)"

definition adv_main_start :: "int list \<Rightarrow> (int \<times> int) prog" where
  "adv_main_start workers =
     must Rte_eal_init ''EAL init failed''
     (launch_all workers
     (call_p (Lib_call ''rte_telemetry_register_cmd /adv/summary'' []) (\<lambda>ret1.
     call_p (Lib_call ''rte_telemetry_register_cmd /adv/lcore_stats'' []) (\<lambda>ret2. done_p (ret1, ret2)))))"

definition tel_main_start :: "int prog" where
  "tel_main_start =
     must Rte_eal_init ''EAL init failed''
     (call_p (Lib_call ''rte_telemetry_register_cmd /harsh_stats'' []) done_p)"

text \<open>Every worker core runs the counting loop before the commands can be asked for, and a failed registration stops nothing.\<close>

lemma launch_all_runs:
  "launch_all cs p E tr = p E (tr @ map (\<lambda>c. Lib_call ''rte_eal_remote_launch worker_loop'' [c]) cs)"
  by (induction cs arbitrary: tr) (simp_all add: call_p_def)

lemma adv_start_runs:
  "0 \<le> E [] Rte_eal_init \<Longrightarrow> \<exists>r1 r2. adv_main_start ws E [] = (Done (r1, r2), Rte_eal_init #
     map (\<lambda>c. Lib_call ''rte_eal_remote_launch worker_loop'' [c]) ws @
     [Lib_call ''rte_telemetry_register_cmd /adv/summary'' [], Lib_call ''rte_telemetry_register_cmd /adv/lcore_stats'' []])"
  by (simp add: adv_main_start_def must_eq launch_all_runs call_p_def done_p_def)

text \<open>One worker alone counts exactly; two can lose a loop from the total.\<close>

lemma one_worker_exact:
  "let s = (worker_tick c ^^ (2 * n)) tel_init in
   tel_loops s = (\<lambda>_. 0)(c := of_nat n) \<and> tel_total s = of_nat n \<and> tel_reg s = Map.empty"
proof (induction n)
  case (Suc n)
  have "worker_tick c (worker_tick c s) = s\<lparr>tel_loops := (tel_loops s)(c := tel_loops s c + 1), tel_total := tel_total s + 1\<rparr>"
    if "tel_reg s = Map.empty" for s
    using that by (simp add: worker_tick_def)
  with Suc show ?case by (simp add: Let_def add.commute fun_eq_iff)
qed (simp add: tel_init_def fun_eq_iff)

lemma total_lost_update:
  "let s = worker_tick 2 (worker_tick 1 (worker_tick 2 (worker_tick 1 tel_init)))
   in tel_loops s 1 = 1 \<and> tel_loops s 2 = 1 \<and> tel_total s = 1"
  by (simp add: worker_tick_def tel_init_def)

subsection \<open>timer/sample\<close>

text \<open>
  Each round reads a number (\<open>None\<close>: \<open>scanf\<close> converts nothing and leaves \<open>n\<close> as it is) and
  the time. The state is the start time once started, and \<open>n\<close>, not initialised at first.
  The outer \<open>None\<close> is undefined: \<open>n\<close> read before it has a value, or a division by zero.
\<close>

datatype timer_line = Timer_started | Timer_restarted | Current_second u64

definition timer_round :: "u64 \<Rightarrow> int option \<Rightarrow> u64 \<Rightarrow> u64 option \<times> int option \<Rightarrow>
    ((u64 option \<times> int option) \<times> timer_line list) option" where
  "timer_round hz inp now st =
     (let n = (case inp of None \<Rightarrow> snd st | Some k \<Rightarrow> Some k)
      in case fst st of
           None \<Rightarrow> Some ((Some now, n), [Timer_started])
         | Some start_tsc \<Rightarrow>
             (case n of None \<Rightarrow> None
              | Some k \<Rightarrow>
                  if k = 0 then Some ((Some now, n), [Timer_restarted])
                  else if k = 9 then (if hz = 0 then None else Some ((Some start_tsc, n), [Current_second ((now - start_tsc) div hz)]))
                  else Some ((Some start_tsc, n), [])))"

fun timer_session :: "u64 \<Rightarrow> (int option \<times> u64) list \<Rightarrow> u64 option \<times> int option \<Rightarrow> timer_line list option" where
  "timer_session hz [] st = Some []"
| "timer_session hz ((inp, now) # rest) st =
     (case timer_round hz inp now st of None \<Rightarrow> None
      | Some (st', out) \<Rightarrow> map_option (\<lambda>l. out @ l) (timer_session hz rest st'))"

text \<open>What the session should print: a reference that keeps the start time only.\<close>

fun stop_watch :: "u64 \<Rightarrow> u64 \<Rightarrow> (int \<times> u64) list \<Rightarrow> timer_line list" where
  "stop_watch hz start [] = []"
| "stop_watch hz start ((k, now) # rest) =
     (if k = 0 then Timer_restarted # stop_watch hz now rest
      else if k = 9 then Current_second ((now - start) div hz) # stop_watch hz start rest
      else stop_watch hz start rest)"

lemma timer_running:
  "hz \<noteq> 0 \<Longrightarrow> timer_session hz (map (\<lambda>(k, t). (Some k, t)) ins) (Some start, n) = Some (stop_watch hz start ins)"
  by (induction hz start ins arbitrary: n rule: stop_watch.induct) (auto simp: timer_round_def Let_def)

lemma timer_correct:
  "hz \<noteq> 0 \<Longrightarrow> timer_session hz (map (\<lambda>(k, t). (Some k, t)) ((k0, t0) # ins)) (None, None) =
   Some (Timer_started # stop_watch hz t0 ins)"
  by (simp add: timer_round_def timer_running)

text \<open>Input that is not a number starts the timer, and the next round reads a variable that has no value.\<close>

lemma timer_uninitialised: "timer_session hz [(None, t0), (None, t1)] (None, None) = None"
  by (simp add: timer_round_def)

subsection \<open>hashing/sample\<close>

definition hash_main :: "('h, int, nat) hash_api \<Rightarrow> int \<Rightarrow> 'h option \<Rightarrow> string + nat option" where
  "hash_main H ret hash =
     (if ret < 0 then Inl ''EAL init failed''
      else (case hash of None \<Rightarrow> Inl ''Hash create failed''
        | Some h \<Rightarrow> (let h1 = snd (add_key_data H h 50 500) in Inr (lookup_data H h1 50))))"

lemma hash_main_found:
  assumes "hash_laws H" "0 \<le> fst (add_key_data H h 50 500)"
  shows "hash_main H 0 (Some h) = Inr (Some 500)"
  using assms by (simp add: hash_main_def hash_laws_def)

subsection \<open>lcore\<close>

text \<open>
  \<open>lcore_wit.c\<close>: the value each core returns, collected from the workers in order, and the time
  in microseconds it is busy. \<open>lcore_var_example.c\<close>: a counter of its own per core.
  \<open>exp_lcore\<close>: which function prints on which core.
\<close>

definition lcore_return :: "u32 \<Rightarrow> u32" where
  "lcore_return lc = lc * 10"

definition lcore_delay :: "u32 \<Rightarrow> u32" where
  "lcore_delay lc = (300 + lc * 100) * 1000"

definition wait_all :: "u32 list \<Rightarrow> (u32 \<times> u32) list" where
  "wait_all workers = map (\<lambda>lc. (lc, lcore_return lc)) workers"

fun lcore_var_run :: "nat list \<Rightarrow> (nat \<Rightarrow> int) \<Rightarrow> (nat \<times> int) list" where
  "lcore_var_run [] counter = []"
| "lcore_var_run (lc # lcs) counter =
     (let n = counter lc + 1 in (lc, n) # lcore_var_run lcs (counter(lc := n)))"

definition func2 :: "nat \<Rightarrow> (string \<times> nat) list" where
  "func2 lcore = [(''func2'', lcore)]"

definition func1 :: "nat \<Rightarrow> (string \<times> nat) list" where
  "func1 lcore = (''func1'', lcore) # func2 lcore"

definition exp_lcore_main :: "(string \<times> nat) list \<times> (string \<times> nat) list" where
  "exp_lcore_main = (func1 1, func2 2)"

lemma own_counters: "distinct ls \<Longrightarrow> \<forall>l\<in>set ls. c l = 0 \<Longrightarrow> lcore_var_run ls c = map (\<lambda>l. (l, 1)) ls"
  by (induction ls arbitrary: c) (auto simp: Let_def)

lemma same_core: "snd ` set (fst exp_lcore_main) = {1} \<and> snd ` set (snd exp_lcore_main) = {2}"
  by (simp add: exp_lcore_main_def func1_def func2_def)

end
