(* ===== verification/Cli.thy ===== *)
theory Cli
  imports Startup
begin

text \<open>
  The command lines of \<open>cli\<close>: \<open>sample\<close> and \<open>new_core\<close> on the terminal, \<open>socket_cli\<close> for one
  client after the other on a socket. A program gives the command-line library a context: for
  each command its tokens and the handler that is called with the numbers of the line. The
  library compares the words of a line with the tokens; how it reads a number is the parameter
  \<open>num\<close>. A handler returns the new data, its output and whether it called \<open>cmdline_quit\<close>;
  \<open>None\<close> is undefined behaviour.
\<close>

datatype token = Tok_string string | Tok_u16

type_synonym ('s, 'o) handler = "u16 list \<Rightarrow> 's \<Rightarrow> ('s \<times> 'o list \<times> bool) option"
type_synonym ('s, 'o) context_table = "(token list \<times> ('s, 'o) handler) list"

fun split_words :: "string \<Rightarrow> string \<Rightarrow> string list" where
  "split_words w [] = (if w = [] then [] else [w])"
| "split_words w (c # cs) =
     (if c = CHR '' '' then (if w = [] then split_words [] cs else w # split_words [] cs) else split_words (w @ [c]) cs)"

fun match_tokens :: "(string \<Rightarrow> u16 option) \<Rightarrow> token list \<Rightarrow> string list \<Rightarrow> u16 list option" where
  "match_tokens num [] [] = Some []"
| "match_tokens num (Tok_string t # ts) (w # ws) = (if w = t then match_tokens num ts ws else None)"
| "match_tokens num (Tok_u16 # ts) (w # ws) =
     (case num w of None \<Rightarrow> None | Some n \<Rightarrow> map_option ((#) n) (match_tokens num ts ws))"
| "match_tokens num _ _ = None"

fun run_command :: "(string \<Rightarrow> u16 option) \<Rightarrow> ('s, 'o) context_table \<Rightarrow> string list \<Rightarrow> 's \<Rightarrow> ('s \<times> 'o list \<times> bool) option" where
  "run_command num [] ws s = Some (s, [], False)"
| "run_command num ((ts, f) # ctx) ws s =
     (case match_tokens num ts ws of None \<Rightarrow> run_command num ctx ws s | Some ns \<Rightarrow> f ns s)"

text \<open>\<open>cmdline_interact\<close>: lines until a handler quits or the input ends.\<close>

fun cmdline_interact :: "(string \<Rightarrow> u16 option) \<Rightarrow> ('s, 'o) context_table \<Rightarrow> string list \<Rightarrow> 's \<Rightarrow> ('s \<times> 'o list) option" where
  "cmdline_interact num ctx [] s = Some (s, [])"
| "cmdline_interact num ctx (l # ls) s =
     (case run_command num ctx (split_words [] l) s of None \<Rightarrow> None
      | Some (s1, out, quit) \<Rightarrow>
          if quit then Some (s1, out)
          else map_option (\<lambda>(s2, out2). (s2, out @ out2)) (cmdline_interact num ctx ls s1))"

subsection \<open>cli/new_core/main.c\<close>

datatype cli_line = Show_port u16 int | Entered u16 | Hello_number u16 | Exiting | Bye







subsection \<open>cli/sample/main.c\<close>







subsection \<open>cli/socket_cli/main.c\<close>

definition cmd_hello_parsed :: "(unit, cli_line) handler" where
  "cmd_hello_parsed ns d = Some (d, [Hello_number (ns ! 0)], False)"

definition sc_exit_parsed :: "(unit, cli_line) handler" where
  "sc_exit_parsed ns d = Some (d, [Bye], True)"

definition cmd_hello_inst :: "token list" where
  "cmd_hello_inst = [Tok_string ''hello'', Tok_u16]"

definition sc_exit :: "token list" where
  "sc_exit = [Tok_string ''exit'']"

definition sc_main_ctx :: "(unit, cli_line) context_table" where
  "sc_main_ctx = [(cmd_hello_inst, cmd_hello_parsed), (sc_exit, sc_exit_parsed)]"

text \<open>
  What the outside does on one turn of the accept loop: the result of \<open>accept\<close>, whether
  \<open>cmdline_new\<close> succeeds, and the lines this client sends.
\<close>

record client =
  client_fd :: int
  cmdline_ok :: bool
  client_lines :: "string list"

datatype server_event = Connected int | Output int "cli_line list" | Closed int | Failed int

definition cli_thread :: "(string \<Rightarrow> u16 option) \<Rightarrow> client \<Rightarrow> int \<times> server_event list" where
  "cli_thread num c =
     (if \<not> cmdline_ok c then (-1, [Closed (client_fd c)])
      else (case cmdline_interact num sc_main_ctx (client_lines c) () of
          None \<Rightarrow> (0, [Closed (client_fd c)])
        | Some (_, out) \<Rightarrow> (0, [Output (client_fd c) out, Closed (client_fd c)])))"


definition socket_main_start :: "unit prog" where
  "socket_main_start =
     must Rte_eal_init ''EAL init failed''
     (call_p (Lib_call ''socket'' []) (\<lambda>server_fd. if server_fd < 0 then rte_exit ''socket failed'' else
     call_p (Lib_call ''setsockopt'' [server_fd]) (\<lambda>_.
     must (Lib_call ''bind'' [server_fd, 9090]) ''bind failed''
     (must (Lib_call ''listen'' [server_fd, 5]) ''listen failed'' (done_p ())))))"

subsection \<open>Sessions\<close>



lemma match_nil [simp]: "match_tokens num [] ws = (if ws = [] then Some [] else None)"
  by (cases ws) simp_all















end
