(* ===== verification/Simple_Ring.thy ===== *)
theory Simple_Ring
  imports Ring_Ipc Startup
begin

text \<open>
  \<open>rings/sample/simple_ring.c\<close> with its memory. The producer allocates each value and passes
  its address through the ring, the consumer prints and frees it, and both look at a flag that a
  signal clears. Theory \<open>Ring_Ipc\<close> has the values that pass; here every access to the heap is
  a step of its own, so that it can be seen who uses a block when.

  The heap maps the addresses of allocated blocks to their contents. \<open>malloc\<close> gives some unused
  address and is taken to succeed, its result is not checked by the code. An access to a block
  that is not allocated is undefined (\<open>None\<close>).
\<close>

datatype producer_pc = Pr_test | Pr_enqueue nat | Pr_print nat | Pr_full nat | Pr_stop

datatype consumer_pc = Co_test | Co_dequeue | Co_print nat | Co_free nat | Co_stop

record 'r ring_prog =
  my_ring :: 'r
  blocks :: "nat \<rightharpoonup> u64"
  value_counter :: u64
  keep_running :: bool
  producer_at :: producer_pc
  consumer_at :: consumer_pc
  prod_out :: "u64 option list"
  cons_out :: "u64 list"

text \<open>The producer prints the value, or \<open>Ring full!\<close> (\<open>None\<close>) and frees it; \<open>a\<close> is what \<open>malloc\<close> returns.\<close>

definition producer :: "('r, nat) ring_api \<Rightarrow> nat \<Rightarrow> 'r ring_prog \<Rightarrow> 'r ring_prog option" where
  "producer R a s = (case producer_at s of
       Pr_test \<Rightarrow> Some (if keep_running s
         then s\<lparr>blocks := (blocks s)(a \<mapsto> value_counter s), value_counter := value_counter s + 1, producer_at := Pr_enqueue a\<rparr>
         else s\<lparr>producer_at := Pr_stop\<rparr>)
     | Pr_enqueue d \<Rightarrow> (case ring_enqueue R (my_ring s) d of (ret, q) \<Rightarrow>
         Some (s\<lparr>my_ring := q, producer_at := if ret = 0 then Pr_print d else Pr_full d\<rparr>))
     | Pr_print d \<Rightarrow> (case blocks s d of None \<Rightarrow> None
         | Some v \<Rightarrow> Some (s\<lparr>prod_out := prod_out s @ [Some v], producer_at := Pr_test\<rparr>))
     | Pr_full d \<Rightarrow> (case blocks s d of None \<Rightarrow> None
         | Some v \<Rightarrow> Some (s\<lparr>blocks := (blocks s)(d := None), prod_out := prod_out s @ [None], producer_at := Pr_test\<rparr>))
     | Pr_stop \<Rightarrow> Some s)"

definition consumer :: "('r, nat) ring_api \<Rightarrow> 'r ring_prog \<Rightarrow> 'r ring_prog option" where
  "consumer R s = (case consumer_at s of
       Co_test \<Rightarrow> Some (s\<lparr>consumer_at := if keep_running s then Co_dequeue else Co_stop\<rparr>)
     | Co_dequeue \<Rightarrow> (case ring_dequeue R (my_ring s) of (ptr, q) \<Rightarrow>
         Some (s\<lparr>my_ring := q, consumer_at := case ptr of None \<Rightarrow> Co_test | Some d \<Rightarrow> Co_print d\<rparr>))
     | Co_print d \<Rightarrow> (case blocks s d of None \<Rightarrow> None
         | Some v \<Rightarrow> Some (s\<lparr>cons_out := cons_out s @ [v], consumer_at := Co_free d\<rparr>))
     | Co_free d \<Rightarrow> (case blocks s d of None \<Rightarrow> None
         | Some _ \<Rightarrow> Some (s\<lparr>blocks := (blocks s)(d := None), consumer_at := Co_test\<rparr>))
     | Co_stop \<Rightarrow> Some s)"

definition handle_signal :: "'r ring_prog \<Rightarrow> 'r ring_prog" where
  "handle_signal s = s\<lparr>keep_running := False\<rparr>"

inductive ring_prog_step :: "('r, nat) ring_api \<Rightarrow> 'r ring_prog \<Rightarrow> 'r ring_prog \<Rightarrow> bool" for R where
  produce: "blocks s a = None \<Longrightarrow> producer R a s = Some s' \<Longrightarrow> ring_prog_step R s s'"
| consume: "consumer R s = Some s' \<Longrightarrow> ring_prog_step R s s'"
| signal: "ring_prog_step R s (handle_signal s)"

definition ring_prog_init :: "'r \<Rightarrow> 'r ring_prog" where
  "ring_prog_init r = \<lparr>my_ring = r, blocks = Map.empty, value_counter = 0, keep_running = True,
     producer_at = Pr_test, consumer_at = Co_test, prod_out = [], cons_out = []\<rparr>"

definition simple_ring_start :: "unit prog" where
  "simple_ring_start =
     must Rte_eal_init ''Error initializing EAL''
     (nonnull (Rte_ring_create ''my_ring'' 1024) ''Cannot create ring'' (\<lambda>ring.
     call_p (Lib_call ''rte_eal_remote_launch producer'' [ring, 1]) (\<lambda>_.
     call_p (Lib_call ''rte_eal_remote_launch consumer'' [ring, 2]) (\<lambda>_. done_p ()))))"

subsection \<open>Who owns a block\<close>

text \<open>
  A block belongs to the producer until it is in the ring, to the ring, or to the consumer. The
  stream is what was printed by the consumer and what is on its way to it.
\<close>

definition producer_owns :: "producer_pc \<Rightarrow> nat list" where
  "producer_owns p = (case p of Pr_enqueue d \<Rightarrow> [d] | Pr_full d \<Rightarrow> [d] | _ \<Rightarrow> [])"

definition consumer_owns :: "consumer_pc \<Rightarrow> nat list" where
  "consumer_owns c = (case c of Co_print d \<Rightarrow> [d] | Co_free d \<Rightarrow> [d] | _ \<Rightarrow> [])"

definition owned :: "('r, nat) ring_api \<Rightarrow> 'r ring_prog \<Rightarrow> nat list" where
  "owned R s = consumer_owns (consumer_at s) @ ring_items R (my_ring s) @ producer_owns (producer_at s)"

definition stream :: "('r, nat) ring_api \<Rightarrow> 'r ring_prog \<Rightarrow> u64 list" where
  "stream R s = cons_out s @ map (\<lambda>d. the (blocks s d))
     ((case consumer_at s of Co_print d \<Rightarrow> [d] | _ \<Rightarrow> []) @ ring_items R (my_ring s))"

definition not_taken :: "'r ring_prog \<Rightarrow> nat" where
  "not_taken s = length (filter (\<lambda>x. x = None) (prod_out s)) + (case producer_at s of Pr_full _ \<Rightarrow> 1 | _ \<Rightarrow> 0)"

text \<open>\<open>m\<close> values were offered to the ring so far; at \<open>Pr_enqueue\<close> the next one is ready.\<close>

definition offered :: "nat \<Rightarrow> 'r ring_prog \<Rightarrow> bool" where
  "offered m s = (case producer_at s of
       Pr_enqueue d \<Rightarrow> blocks s d = Some (of_nat m) \<and> value_counter s = of_nat m + 1
     | Pr_print d \<Rightarrow> value_counter s = of_nat m \<and> (blocks s d = None \<or> blocks s d = Some (of_nat m - 1))
     | _ \<Rightarrow> value_counter s = of_nat m)"

definition ring_prog_inv :: "('r, nat) ring_api \<Rightarrow> nat \<Rightarrow> 'r ring_prog \<Rightarrow> bool" where
  "ring_prog_inv R m s \<longleftrightarrow> distinct (owned R s) \<and> dom (blocks s) = set (owned R s) \<and> offered m s \<and>
     subseq (stream R s) (map of_nat [0..<m]) \<and> m = length (stream R s) + not_taken s"

lemmas ring_prog_defs = ring_prog_inv_def owned_def stream_def offered_def not_taken_def producer_owns_def consumer_owns_def

lemma subseq_snoc:
  "subseq xs ys \<Longrightarrow> subseq (xs @ [v]) (ys @ [v])" "subseq xs ys \<Longrightarrow> subseq xs (ys @ [v])"
  using list_emb_append_mono [of "(=)" xs ys "[v]" "[v]"] list_emb_append_mono [of "(=)" xs ys "[]" "[v]"] by simp_all

lemma map_other [simp]: "a \<notin> set xs \<Longrightarrow> map (\<lambda>d. the ((f(a := v)) d)) xs = map (\<lambda>d. the (f d)) xs"
  by auto


lemma ring_prog_invI:
  "\<lbrakk>distinct (owned R s); dom (blocks s) = set (owned R s); offered m s; subseq (stream R s) (map of_nat [0..<m]);
    m = length (stream R s) + not_taken s\<rbrakk> \<Longrightarrow> ring_prog_inv R m s"
  by (simp add: ring_prog_inv_def)

lemma ring_prog_invD:
  assumes "ring_prog_inv R m s"
  shows "distinct (owned R s)" "dom (blocks s) = set (owned R s)" "offered m s"
    "subseq (stream R s) (map of_nat [0..<m])" "m = length (stream R s) + not_taken s"
  using assms unfolding ring_prog_inv_def by blast+

lemma producer_side:
  "producer_at s' = producer_at s \<Longrightarrow> blocks s' = blocks s \<Longrightarrow> value_counter s' = value_counter s \<Longrightarrow> offered m s' = offered m s"
  "producer_at s' = producer_at s \<Longrightarrow> prod_out s' = prod_out s \<Longrightarrow> not_taken s' = not_taken s"
  by (auto simp: offered_def not_taken_def split: producer_pc.splits)

lemma producer_inv:
  assumes R: "ring_laws R" and i: "ring_prog_inv R m s" and a: "blocks s a = None" and p: "producer R a s = Some s'"
  shows "\<exists>m'. ring_prog_inv R m' s'"
proof -
  note iD = ring_prog_invD [OF i]
  show ?thesis
  proof (cases "producer_at s")
    case Pr_test
    have no: "a \<notin> set (owned R s)" using iD(2) a by blast
    show ?thesis
    proof (cases "keep_running s")
      case True
      with Pr_test p have s': "s' = s\<lparr>blocks := (blocks s)(a \<mapsto> value_counter s), value_counter := value_counter s + 1, producer_at := Pr_enqueue a\<rparr>"
        by (simp add: producer_def)
      have st: "stream R s' = stream R s"
        using no by (auto simp: s' stream_def owned_def consumer_owns_def split: consumer_pc.splits)
      have ow: "owned R s' = owned R s @ [a]" by (simp add: s' owned_def producer_owns_def Pr_test)
      have "ring_prog_inv R m s'"
        by (rule ring_prog_invI) (use iD no Pr_test in \<open>simp_all add: st ow\<close>, simp_all add: s' offered_def not_taken_def)
      then show ?thesis ..
    next
      case False
      with Pr_test p have s': "s' = s\<lparr>producer_at := Pr_stop\<rparr>" by (simp add: producer_def)
      have "ring_prog_inv R m s'"
        by (rule ring_prog_invI) (use iD Pr_test in \<open>simp_all add: s' owned_def producer_owns_def stream_def offered_def not_taken_def\<close>)
      then show ?thesis ..
    qed
  next
    case (Pr_enqueue d)
    obtain c q where e: "ring_enqueue R (my_ring s) d = (c, q)" by fastforce
    note q = ring_enqueue_account [OF R e]
    from Pr_enqueue p e have s': "s' = s\<lparr>my_ring := q, producer_at := if c = 0 then Pr_print d else Pr_full d\<rparr>"
      by (simp add: producer_def)
    have v: "blocks s d = Some (of_nat m)" using iD(3) by (simp add: offered_def Pr_enqueue)
    have st: "stream R s' = (if c = 0 then stream R s @ [of_nat m] else stream R s)"
      by (simp add: s' stream_def q(1) v)
    have ow: "owned R s' = owned R s" by (simp add: s' owned_def q(1) producer_owns_def Pr_enqueue)
    have "ring_prog_inv R (Suc m) s'"
    proof (rule ring_prog_invI)
      show "subseq (stream R s') (map of_nat [0..<Suc m])" using subseq_snoc [OF iD(4)] by (simp add: st)
      show "Suc m = length (stream R s') + not_taken s'" using iD(5) Pr_enqueue unfolding st by (simp add: s' not_taken_def)
      show "offered (Suc m) s'" using iD(3) Pr_enqueue by (simp add: s' offered_def)
    qed (use iD in \<open>simp_all add: ow, simp add: s'\<close>)
    then show ?thesis ..
  next
    case (Pr_print d)
    with p obtain v where "s' = s\<lparr>prod_out := prod_out s @ [Some v], producer_at := Pr_test\<rparr>"
      by (auto simp: producer_def split: option.splits)
    with iD Pr_print have "ring_prog_inv R m s'"
      by (intro ring_prog_invI) (simp_all add: owned_def producer_owns_def stream_def offered_def not_taken_def)
    then show ?thesis ..
  next
    case (Pr_full d)
    with p have s': "s' = s\<lparr>blocks := (blocks s)(d := None), prod_out := prod_out s @ [None], producer_at := Pr_test\<rparr>"
      by (auto simp: producer_def split: option.splits)
    have ow: "owned R s = owned R s' @ [d]" by (simp add: s' owned_def producer_owns_def Pr_full)
    then have no: "d \<notin> set (owned R s')" "distinct (owned R s')" using iD(1) by simp_all
    have st: "stream R s' = stream R s"
      using no by (auto simp: s' stream_def owned_def consumer_owns_def split: consumer_pc.splits)
    have "dom (blocks s') = set (owned R s')" using iD(2) no(1) unfolding ow by (simp add: s')
    then have "ring_prog_inv R m s'"
      by (rule ring_prog_invI [OF no(2)]) (use iD Pr_full in \<open>simp_all add: st\<close>, simp_all add: s' offered_def not_taken_def)
    then show ?thesis ..
  next
    case Pr_stop
    with i p show ?thesis by (auto simp: producer_def)
  qed
qed

lemma consumer_inv:
  assumes R: "ring_laws R" "ring_serves R" and i: "ring_prog_inv R m s" and c: "consumer R s = Some s'"
  shows "ring_prog_inv R m s'"
proof -
  note iD = ring_prog_invD [OF i]
  show ?thesis
  proof (cases "consumer_at s")
    case Co_test
    with c obtain pc where s': "s' = s\<lparr>consumer_at := pc\<rparr>" and pc: "pc = Co_dequeue \<or> pc = Co_stop"
      by (cases "keep_running s") (auto simp: consumer_def)
    have ow: "owned R s' = owned R s" and st: "stream R s' = stream R s"
      using Co_test pc by (auto simp: s' owned_def consumer_owns_def stream_def)
    show ?thesis
      by (rule ring_prog_invI) (use iD producer_side [of s' s] in \<open>simp_all add: ow st\<close>, simp_all add: s')
  next
    case Co_dequeue
    obtain x q where d: "ring_dequeue R (my_ring s) = (x, q)" by fastforce
    from Co_dequeue c d have s': "s' = s\<lparr>my_ring := q, consumer_at := case x of None \<Rightarrow> Co_test | Some d \<Rightarrow> Co_print d\<rparr>"
      by (simp add: consumer_def)
    have ow: "owned R s' = owned R s" and st: "stream R s' = stream R s"
      using ring_dequeue_cases [OF R d] Co_dequeue by (auto simp: s' owned_def consumer_owns_def stream_def)
    show ?thesis
      by (rule ring_prog_invI) (use iD producer_side [of s' s] in \<open>simp_all add: ow st\<close>, simp_all add: s')
  next
    case (Co_print d)
    with c obtain v where v: "blocks s d = Some v" and s': "s' = s\<lparr>cons_out := cons_out s @ [v], consumer_at := Co_free d\<rparr>"
      by (auto simp: consumer_def split: option.splits)
    have ow: "owned R s' = owned R s" and st: "stream R s' = stream R s"
      using Co_print v by (simp_all add: s' owned_def consumer_owns_def stream_def)
    show ?thesis
      by (rule ring_prog_invI) (use iD producer_side [of s' s] in \<open>simp_all add: ow st\<close>, simp_all add: s')
  next
    case (Co_free d)
    with c have s': "s' = s\<lparr>blocks := (blocks s)(d := None), consumer_at := Co_test\<rparr>"
      by (auto simp: consumer_def split: option.splits)
    have ow: "owned R s = d # owned R s'" using Co_free by (simp add: s' owned_def consumer_owns_def)
    then have no: "d \<notin> set (owned R s')" "distinct (owned R s')" using iD(1) by simp_all
    have st: "stream R s' = stream R s"
      using no(1) Co_free by (simp add: s' stream_def owned_def)
    have "dom (blocks s') = set (owned R s')" using iD(2) no(1) unfolding ow by (simp add: s')
    moreover have "offered m s'" using iD(3) no(1)
      by (auto simp: s' offered_def owned_def producer_owns_def split: producer_pc.splits)
    ultimately show ?thesis
      by (rule ring_prog_invI [OF no(2)]) (use iD in \<open>simp_all add: st\<close>, simp_all add: s' not_taken_def)
  next
    case Co_stop
    with i c show ?thesis by (simp add: consumer_def)
  qed
qed

lemma ring_prog_reach_inv:
  assumes R: "ring_laws R" "ring_serves R" and "(ring_prog_step R)\<^sup>*\<^sup>* s0 s" "ring_prog_inv R m0 s0"
  shows "\<exists>m. ring_prog_inv R m s"
  using assms(3,4)
proof (induction rule: rtranclp_induct)
  case (step s s')
  then obtain m where m: "ring_prog_inv R m s" by blast
  from step.hyps(2) show ?case
  proof cases
    case (produce a)
    from producer_inv [OF R(1) m this] show ?thesis .
  next
    case consume
    from consumer_inv [OF R m this] show ?thesis ..
  next
    case signal
    have ow: "owned R s' = owned R s" and st: "stream R s' = stream R s"
      by (simp_all add: signal handle_signal_def owned_def stream_def)
    have "ring_prog_inv R m s'"
      by (rule ring_prog_invI) (use ring_prog_invD [OF m] producer_side [of s' s] in \<open>simp_all add: ow st\<close>,
        simp_all add: signal handle_signal_def)
    then show ?thesis ..
  qed
qed blast

lemma ring_prog_init_inv: "ring_items R r = [] \<Longrightarrow> ring_prog_inv R 0 (ring_prog_init r)"
  by (simp add: ring_prog_defs ring_prog_init_def)

text \<open>Only the producer's own print can meet a block that is gone, and if it is there it holds the value printed.\<close>

lemma consumer_defined:
  assumes "ring_prog_inv R m s"
  shows "consumer R s \<noteq> None"
proof -
  have "d \<in> dom (blocks s)" if "consumer_at s = Co_print d \<or> consumer_at s = Co_free d" for d
    using ring_prog_invD(2) [OF assms] that by (auto simp: owned_def consumer_owns_def)
  then show ?thesis by (auto simp: consumer_def split: consumer_pc.splits prod.splits option.splits)
qed

lemma producer_defined:
  assumes "ring_prog_inv R m s" "producer R a s = None"
  shows "\<exists>d. producer_at s = Pr_print d \<and> blocks s d = None"
proof -
  have "d \<in> dom (blocks s)" if "producer_at s = Pr_full d" for d
    using ring_prog_invD(2) [OF assms(1)] that by (auto simp: owned_def producer_owns_def)
  with assms(2) show ?thesis by (auto simp: producer_def split: producer_pc.splits prod.splits option.splits)
qed

text \<open>The consumer is faster: it prints and frees the first value before the producer prints it.\<close>

lemma print_after_free:
  "\<exists>t. (ring_prog_step (ref_ring 1023))\<^sup>*\<^sup>* (ring_prog_init []) t \<and> producer (ref_ring 1023) a t = None"
proof -
  let ?R = "ref_ring 1023 :: (nat list, nat) ring_api"
  define s0 where "s0 = (ring_prog_init [] :: nat list ring_prog)"
  define s1 where "s1 = s0\<lparr>blocks := [0 \<mapsto> 0], value_counter := 1, producer_at := Pr_enqueue 0\<rparr>"
  define s2 where "s2 = s1\<lparr>my_ring := [0], producer_at := Pr_print 0\<rparr>"
  define s3 where "s3 = s2\<lparr>consumer_at := Co_dequeue\<rparr>"
  define s4 where "s4 = s3\<lparr>my_ring := [], consumer_at := Co_print 0\<rparr>"
  define s5 where "s5 = s4\<lparr>cons_out := [0], consumer_at := Co_free 0\<rparr>"
  define s6 where "s6 = s5\<lparr>blocks := Map.empty, consumer_at := Co_test\<rparr>"
  note ds = s0_def s1_def s2_def s3_def s4_def s5_def s6_def ring_prog_init_def
  have "ring_prog_step ?R s0 s1" by (rule ring_prog_step.produce [of _ 0]) (simp_all add: ds producer_def)
  moreover have "ring_prog_step ?R s1 s2" by (rule ring_prog_step.produce [of _ 1]) (simp_all add: ds producer_def ref_ring_def)
  moreover have "ring_prog_step ?R s2 s3" by (rule ring_prog_step.consume) (simp add: ds consumer_def)
  moreover have "ring_prog_step ?R s3 s4"
    by (rule ring_prog_step.consume) (simp add: ds consumer_def ring_dequeue_def ref_ring_def)
  moreover have "ring_prog_step ?R s4 s5" by (rule ring_prog_step.consume) (simp add: ds consumer_def)
  moreover have "ring_prog_step ?R s5 s6" by (rule ring_prog_step.consume) (auto simp: ds consumer_def fun_eq_iff)
  ultimately have "(ring_prog_step ?R)\<^sup>*\<^sup>* s0 s6" by (meson rtranclp.rtrancl_refl rtranclp.rtrancl_into_rtrancl)
  moreover have "producer ?R a s6 = None" by (simp add: ds producer_def)
  ultimately show ?thesis unfolding s0_def by blast
qed

text \<open>
  C24. Memory of the ring sample. However producer, consumer and signal interleave, over a ring
  that keeps its promises: every allocated block has exactly one owner (producer, ring or
  consumer), the consumer only reads and frees allocated blocks, and it prints values in the
  order in which they were produced, each at most once. The producer's free is safe too; its
  print after a successful enqueue is not: in a reachable state the consumer has already freed the
  block it reads, and this is the only undefined access there is. When both have stopped, the blocks still in
  the ring, and no others, are leaked.
\<close>

theorem simple_ring_memory:
  assumes "ring_laws R" "ring_serves R" "ring_items R r0 = []" "(ring_prog_step R)\<^sup>*\<^sup>* (ring_prog_init r0) s"
  shows "distinct (owned R s) \<and> dom (blocks s) = set (owned R s) \<and> consumer R s \<noteq> None \<and>
    (\<exists>m. subseq (cons_out s) (map of_nat [0..<m])) \<and>
    (producer R a s = None \<longrightarrow> (\<exists>d. producer_at s = Pr_print d \<and> blocks s d = None)) \<and>
    (\<exists>t. (ring_prog_step (ref_ring 1023))\<^sup>*\<^sup>* (ring_prog_init []) t \<and> producer (ref_ring 1023) a t = None) \<and>
    (producer_at s = Pr_stop \<longrightarrow> consumer_at s = Co_stop \<longrightarrow> dom (blocks s) = set (ring_items R (my_ring s)))"
proof -
  from ring_prog_reach_inv [OF assms(1,2,4) ring_prog_init_inv [OF assms(3)]]
  obtain m where m: "ring_prog_inv R m s" ..
  have "subseq (cons_out s) (stream R s)" by (simp add: stream_def prefix_imp_subseq)
  with ring_prog_invD(4) [OF m] have "subseq (cons_out s) (map of_nat [0..<m])" by (rule subseq_order.trans [rotated])
  moreover have "dom (blocks s) = set (ring_items R (my_ring s))" if "producer_at s = Pr_stop" "consumer_at s = Co_stop"
    using ring_prog_invD(2) [OF m] that by (simp add: owned_def producer_owns_def consumer_owns_def)
  ultimately show ?thesis
    using ring_prog_invD(1,2) [OF m] consumer_defined [OF m] producer_defined [OF m] print_after_free by blast
qed

theorem simple_ring_memory_witness:
  "\<exists>s. (ring_prog_step (ref_ring 1))\<^sup>*\<^sup>* (ring_prog_init []) s \<and> blocks s = [7 \<mapsto> 0] \<and> distinct (owned (ref_ring 1) s) \<and>
     dom (blocks s) = set (owned (ref_ring 1) s) \<and> producer (ref_ring 1) 8 s \<noteq> None"
proof -
  let ?s = "(ring_prog_init [])\<lparr>blocks := [7 \<mapsto> 0], value_counter := 1, producer_at := Pr_enqueue 7\<rparr>"
  have r: "(ring_prog_step (ref_ring 1))\<^sup>*\<^sup>* (ring_prog_init []) ?s"
    by (intro r_into_rtranclp ring_prog_step.produce [of _ 7]) (simp_all add: ring_prog_init_def producer_def)
  from simple_ring_memory [OF ref_ring_laws ref_ring_serves _ r, of 8] r show ?thesis
    by (intro exI [of _ ?s]) (auto simp: ref_ring_def)
qed

end
