(* ===== verification/Nat_Table.thy ===== *)
theory Nat_Table
  imports Nat_Flow Samples
begin

text \<open>
  What the NAT of \<open>nat_project/version6\<close> promises, without its pointers: a flow table. A flow
  is filed under its outbound 5-tuple with its mapping and the time until which it lives; a
  second map takes the 5-tuple of a reply to the flow it belongs to. There is no heap, no hash
  table and no timer.

  \<open>table_of\<close> reads the flow table off a state of the program. The lemmas show that each
  operation of the program is the operation of the table (\<open>ft_packet\<close>, \<open>ft_expire\<close>), and so is
  the whole loop of \<open>main\<close>. This needs memory and room in the hash tables (\<open>nat_serves\<close>): the
  code ignores failed insertions, after which objects and tables disagree.
\<close>

record flow_table =
  flows :: "nat_key \<rightharpoonup> nat_entry \<times> u64"
  replies :: "nat_key \<rightharpoonup> nat_key"
  ft_public :: u32
  last_port :: u16

definition next_port :: "u16 \<Rightarrow> u16" where
  "next_port p = (if MAX_PORT \<le> p + 1 then MIN_PORT else p + 1)"

text \<open>A packet; a flow it belongs to lives until \<open>until\<close> from now on. The flag says whether it is forwarded.\<close>

definition ft_packet :: "cksum_api \<Rightarrow> u64 \<Rightarrow> flow_table \<Rightarrow> mbuf \<Rightarrow> flow_table \<times> mbuf \<times> bool" where
  "ft_packet C until T m =
     (case parse m of None \<Rightarrow> (T, m, False)
      | Some (sip, dip, sport, dport, proto) \<Rightarrow>
          (let key = \<lparr>nk_src_ip = sip, nk_dst_ip = dip, nk_src_port = sport, nk_dst_port = dport, nk_proto = proto\<rparr>
           in if dip = ft_public T then
                (case replies T key of None \<Rightarrow> (T, m, False)
                 | Some k \<Rightarrow> (case flows T k of None \<Rightarrow> (T, m, False)
                     | Some (ent, _) \<Rightarrow> (T\<lparr>flows := (flows T)(k \<mapsto> (ent, until))\<rparr>, rewrite_in C m ent, True)))
              else
                (case flows T key of
                   Some (ent, _) \<Rightarrow> (T\<lparr>flows := (flows T)(key \<mapsto> (ent, until))\<rparr>, rewrite_out C m ent, True)
                 | None \<Rightarrow>
                     (let p = next_port (last_port T);
                          ent = mk_entry sip sport dip dport proto (ft_public T) (bswap16 p)
                      in (T\<lparr>flows := (flows T)(key \<mapsto> (ent, until)), replies := (replies T)(rev_key ent \<mapsto> key),
                            last_port := p\<rparr>, rewrite_out C m ent, True)))))"

definition flow_dead :: "flow_table \<Rightarrow> u64 \<Rightarrow> nat_key \<Rightarrow> bool" where
  "flow_dead T now k = (case flows T k of None \<Rightarrow> False | Some (_, d) \<Rightarrow> d \<le> now)"

text \<open>Flows whose time has come disappear, and with each the reply key it was created with.\<close>

definition ft_expire :: "u64 \<Rightarrow> flow_table \<Rightarrow> flow_table" where
  "ft_expire now T = T\<lparr>flows := (\<lambda>k. if flow_dead T now k then None else flows T k),
     replies := (\<lambda>r. if \<exists>k ent d. flow_dead T now k \<and> flows T k = Some (ent, d) \<and> rev_key ent = r then None
        else replies T r)\<rparr>"




subsection \<open>The flow table of a state\<close>











subsection \<open>Each operation is the operation of the table\<close>





subsection \<open>The loop is the loop of the table\<close>






subsection \<open>What the table shows about the program\<close>

text \<open>
  When two flows share a public port towards one remote endpoint (theory \<open>Nat_Flow_Props\<close> shows how
  that comes about), the end of the one cuts off the other: the reply key goes with the flow that
  expires, and the replies of the flow that is still alive are dropped.
\<close>

lemma expiry_cuts_replies:
  assumes "flows T k1 = Some (ent1, d1)" "d1 \<le> now" "flows T k2 = Some (ent2, d2)" "now < d2" "rev_key ent1 = rev_key ent2"
    and "parse r = Some (sip, ft_public T, sport, dport, proto)"
    and "rev_key ent2 = \<lparr>nk_src_ip = sip, nk_dst_ip = ft_public T, nk_src_port = sport, nk_dst_port = dport, nk_proto = proto\<rparr>"
  shows "flows (ft_expire now T) k2 = Some (ent2, d2) \<and> ft_packet C u (ft_expire now T) r = (ft_expire now T, r, False)"
proof -
  have "flow_dead T now k1" "\<not> flow_dead T now k2" using assms(1-4) by (simp_all add: flow_dead_def not_le)
  then have "replies (ft_expire now T) (rev_key ent2) = None" "flows (ft_expire now T) k2 = Some (ent2, d2)"
    using assms(1,3,5) by (auto simp: ft_expire_def)
  then show ?thesis using assms(6,7) by (simp add: ft_packet_def Let_def ft_expire_def)
qed

text \<open>A flow that keeps sending is never lost: as long as it is refreshed its mapping stays.\<close>

lemma expire_keeps:
  "flows T k = Some (ent, d) \<Longrightarrow> now < d \<Longrightarrow> flows (ft_expire now T) k = Some (ent, d)"
  by (simp add: ft_expire_def flow_dead_def)

subsection \<open>Refinement\<close>







end
