(* ===== verification/Two_Sources.thy ===== *)
theory Two_Sources
  imports Graph_Testing Graph_Samples
begin

text \<open>
  \<open>graph/two_start_node/main.c\<close> as a graph: two source nodes that feed one worker. Theory
  \<open>Graph_Testing\<close> has the loop with the walk written out; here the walk is that of the graph
  library (theory \<open>Graph_Samples\<close>), and the end of the loop is settled.

  \<open>ts_allocs\<close> are the results of the calls of \<open>rte_pktmbuf_alloc\<close> to come; at its end the pool
  gives \<open>NULL\<close> for ever.
\<close>

datatype ts_node = Ts_start1 | Ts_start2 | Ts_worker

record ts_vars =
  ts_allocs :: "mbuf option list"
  ts_prints :: nat
  ts_freed :: "mbuf list"

definition start1_process :: "ts_vars \<Rightarrow> ts_vars \<times> (nat \<times> mbuf list) list" where
  "start1_process s =
     (if 10 \<le> ts_prints s then (s, [])
      else (case ts_allocs s of
          [] \<Rightarrow> (s, [])
        | None # as \<Rightarrow> (s\<lparr>ts_allocs := as\<rparr>, [])
        | Some m # as \<Rightarrow> (s\<lparr>ts_allocs := as, ts_prints := ts_prints s + 1\<rparr>, [(0, [m])])))"

definition start2_process :: "ts_vars \<Rightarrow> ts_vars \<times> (nat \<times> mbuf list) list" where
  "start2_process s =
     (if 10 \<le> ts_prints s then (s, [])
      else (case ts_allocs s of
          [] \<Rightarrow> (s, [])
        | None # as \<Rightarrow> (s\<lparr>ts_allocs := as\<rparr>, [])
        | Some m # as \<Rightarrow> (s\<lparr>ts_allocs := as, ts_prints := ts_prints s + 1\<rparr>, [(0, [m])])))"

definition ts_process :: "ts_vars \<Rightarrow> ts_node \<Rightarrow> mbuf list \<Rightarrow> ts_vars \<times> (nat \<times> mbuf list) list" where
  "ts_process s n objs = (case n of Ts_start1 \<Rightarrow> start1_process s | Ts_start2 \<Rightarrow> start2_process s
     | Ts_worker \<Rightarrow> (s\<lparr>ts_freed := ts_freed s @ worker_process objs\<rparr>, []))"

definition ts_next :: "ts_node \<Rightarrow> nat \<Rightarrow> ts_node option" where
  "ts_next n e = (if n \<noteq> Ts_worker \<and> e = 0 then Some Ts_worker else None)"

definition ts_graph :: "(ts_vars, ts_node, mbuf) node_graph" where
  "ts_graph = \<lparr>sources = [Ts_start1, Ts_start2], next_nodes = ts_next, node_process = ts_process\<rparr>"

definition ts_loop :: "ts_vars \<Rightarrow> (ts_vars \<times> (ts_node \<times> mbuf list) list) option" where
  "ts_loop s = walk_loop ts_graph (\<lambda>s. ts_prints s < 10) id s"

subsection \<open>When the loop ends\<close>

definition ts_granted :: "mbuf option list \<Rightarrow> mbuf list" where
  "ts_granted as = List.map_filter id as"

lemma ts_granted_simps [simp]: "ts_granted [] = []" "ts_granted (None # as) = ts_granted as" "ts_granted (Some m # as) = m # ts_granted as"
  by (simp_all add: ts_granted_def map_filter_simps)

text \<open>One source: it passes on the next buffer that is ts_granted, if there is one and the limit is not reached.\<close>

lemma ts_start_processes:
  assumes "ts_prints s \<le> 10"
  shows "start2_process s = start1_process s"
    and "\<exists>ps. snd (start1_process s) = (if ps = [] then [] else [(0, ps)]) \<and> length ps \<le> 1 \<and>
      ts_granted (ts_allocs s) = ps @ ts_granted (ts_allocs (fst (start1_process s))) \<and>
      ts_prints (fst (start1_process s)) = ts_prints s + length ps \<and> ts_prints (fst (start1_process s)) \<le> 10 \<and>
      ts_freed (fst (start1_process s)) = ts_freed s \<and>
      (ts_prints s < 10 \<longrightarrow> ts_allocs s \<noteq> [] \<longrightarrow> length (ts_allocs (fst (start1_process s))) < length (ts_allocs s)) \<and>
      length (ts_allocs (fst (start1_process s))) \<le> length (ts_allocs s)"
proof -
  show "start2_process s = start1_process s" by (simp add: start1_process_def start2_process_def)
  show "\<exists>ps. snd (start1_process s) = (if ps = [] then [] else [(0, ps)]) \<and> length ps \<le> 1 \<and>
      ts_granted (ts_allocs s) = ps @ ts_granted (ts_allocs (fst (start1_process s))) \<and>
      ts_prints (fst (start1_process s)) = ts_prints s + length ps \<and> ts_prints (fst (start1_process s)) \<le> 10 \<and>
      ts_freed (fst (start1_process s)) = ts_freed s \<and>
      (ts_prints s < 10 \<longrightarrow> ts_allocs s \<noteq> [] \<longrightarrow> length (ts_allocs (fst (start1_process s))) < length (ts_allocs s)) \<and>
      length (ts_allocs (fst (start1_process s))) \<le> length (ts_allocs s)"
  proof (cases "10 \<le> ts_prints s \<or> ts_allocs s = []")
    case True
    then show ?thesis by (intro exI [of _ "[]"]) (auto simp: start1_process_def assms)
  next
    case False
    then obtain a as where al: "ts_allocs s = a # as" by (cases "ts_allocs s") auto
    with False show ?thesis
      by (cases a; intro exI [of _ "case a of None \<Rightarrow> [] | Some m \<Rightarrow> [m]"]) (auto simp: start1_process_def)
  qed
qed

lemma ts_walk:
  assumes "ts_prints s \<le> 10"
  shows "\<exists>ps s1 l. graph_walk ts_graph s = Some (s1, l) \<and> ts_granted (ts_allocs s) = ps @ ts_granted (ts_allocs s1) \<and>
    ts_freed s1 = ts_freed s @ ps \<and> ts_prints s1 = ts_prints s + length ps \<and> ts_prints s1 \<le> 10 \<and>
    (ts_prints s < 10 \<longrightarrow> ts_allocs s \<noteq> [] \<longrightarrow> length (ts_allocs s1) < length (ts_allocs s))"
proof -
  obtain s1 es1 where p1: "start1_process s = (s1, es1)" by fastforce
  from ts_start_processes(2) [OF assms, unfolded p1 fst_conv snd_conv] obtain ps where
    1: "es1 = (if ps = [] then [] else [(0, ps)])" "ts_granted (ts_allocs s) = ps @ ts_granted (ts_allocs s1)"
      "ts_prints s1 = ts_prints s + length ps" "ts_prints s1 \<le> 10" "ts_freed s1 = ts_freed s"
      "ts_prints s < 10 \<longrightarrow> ts_allocs s \<noteq> [] \<longrightarrow> length (ts_allocs s1) < length (ts_allocs s)" by blast
  obtain s2 es2 where p2: "start2_process s1 = (s2, es2)" by fastforce
  from ts_start_processes(2) [OF 1(4), folded ts_start_processes(1) [OF 1(4)], unfolded p2 fst_conv snd_conv] obtain qs where
    2: "es2 = (if qs = [] then [] else [(0, qs)])" "ts_granted (ts_allocs s1) = qs @ ts_granted (ts_allocs s2)"
      "ts_prints s2 = ts_prints s1 + length qs" "ts_prints s2 \<le> 10" "ts_freed s2 = ts_freed s1"
      "length (ts_allocs s2) \<le> length (ts_allocs s1)" by blast
  have w: "worker_process xs = xs" for xs by (simp add: worker_process_def free_range_drop)
  have "graph_walk ts_graph s = Some (s2\<lparr>ts_freed := ts_freed s2 @ ps @ qs\<rparr>,
      [(Ts_start1, []), (Ts_start2, [])] @ (if ps @ qs = [] then [] else [(Ts_worker, ps @ qs)]))"
    using p1 p2 1(1) 2(1)
    by (cases "ps = []"; cases "qs = []") (simp_all add: walk_simps ts_graph_def ts_process_def ts_next_def w)
  then show ?thesis using 1 2 by (intro exI [of _ "ps @ qs"]) auto
qed

lemma ts_loop_ends:
  assumes "ts_prints s \<le> 10" "10 \<le> ts_prints s + length (ts_granted (ts_allocs s))"
  shows "\<exists>s' l. ts_loop s = Some (s', l) \<and> ts_prints s' = 10 \<and>
    ts_freed s' = ts_freed s @ take (10 - ts_prints s) (ts_granted (ts_allocs s))"
proof -
  let ?J = "\<lambda>t :: ts_vars. ts_prints t \<le> 10 \<and> ts_prints s \<le> ts_prints t \<and>
     10 \<le> ts_prints t + length (ts_granted (ts_allocs t)) \<and>
     (\<exists>ps. ts_granted (ts_allocs s) = ps @ ts_granted (ts_allocs t) \<and> ts_freed t = ts_freed s @ ps \<and>
        ts_prints t = ts_prints s + length ps)"
  have "\<exists>s' l. walk_loop ts_graph (\<lambda>s. ts_prints s < 10) id s = Some (s', l) \<and> ?J s' \<and> \<not> ts_prints s' < 10"
  proof (rule walk_loop_until [where m = "\<lambda>t. length (ts_allocs t)"])
    fix t assume c: "ts_prints t < 10" and j: "?J t"
    then have "ts_allocs t \<noteq> []" by auto
    with ts_walk [of t] c j show "\<exists>s1 l. graph_walk ts_graph t = Some (s1, l) \<and> ?J (id s1) \<and>
        length (ts_allocs (id s1)) < length (ts_allocs t)" by fastforce
  qed (use assms in simp)
  then show ?thesis by (auto simp: ts_loop_def)
qed

text \<open>A loop that ends has taken ten buffers.\<close>

lemma ts_loop_needs:
  assumes "ts_loop s = Some (s', l)" "ts_prints s \<le> 10"
  shows "10 \<le> ts_prints s + length (ts_granted (ts_allocs s))"
proof -
  let ?c = "\<lambda>t :: ts_vars. ts_prints t < 10"
  let ?P = "\<lambda>G cond (after :: ts_vars \<Rightarrow> ts_vars) (t :: ts_vars) (r :: ts_vars \<times> (ts_node \<times> mbuf list) list). G = ts_graph \<longrightarrow> cond = ?c \<longrightarrow> after = id \<longrightarrow> ts_prints t \<le> 10 \<longrightarrow>
      10 \<le> ts_prints t + length (ts_granted (ts_allocs t))"
  have "?P ts_graph ?c id s (s', l)"
  proof (rule walk_loop.raw_induct [where P = ?P, OF _ assms(1) [unfolded ts_loop_def]])
    fix f G cond after and t :: ts_vars and r :: "ts_vars \<times> (ts_node \<times> mbuf list) list"
    assume IH: "\<And>G cond after t r. f G cond after t = Some r \<Longrightarrow> ?P G cond after t r"
      and step: "(if cond t then Option.bind (graph_walk G t) (\<lambda>(s1, l1).
        Option.bind (f G cond after (after s1)) (\<lambda>(s2, l2). Some (s2, l1 @ l2))) else Some (t, [])) = Some r"
    show "?P G cond after t r"
    proof (intro impI)
      assume G: "G = ts_graph" "cond = ?c" "after = id" and le: "ts_prints t \<le> 10"
      from ts_walk [OF le] obtain ps s1 l1 where w: "graph_walk ts_graph t = Some (s1, l1)"
        "ts_granted (ts_allocs t) = ps @ ts_granted (ts_allocs s1)" "ts_prints s1 = ts_prints t + length ps" "ts_prints s1 \<le> 10" by blast
      show "10 \<le> ts_prints t + length (ts_granted (ts_allocs t))"
      proof (cases "?c t")
        case True
        with step G w(1) obtain r1 where "f ts_graph ?c id s1 = Some r1" by (auto simp: bind_eq_Some_conv)
        from IH [OF this] w show ?thesis by simp
      qed simp
    qed
  qed
  then show ?thesis using assms(2) by simp
qed

lemma two_sources_end:
  "(\<exists>r. ts_loop \<lparr>ts_allocs = as, ts_prints = 0, ts_freed = []\<rparr> = Some r) \<longleftrightarrow> 10 \<le> length (ts_granted as)"
  "10 \<le> length (ts_granted as) \<Longrightarrow> \<exists>s' l. ts_loop \<lparr>ts_allocs = as, ts_prints = 0, ts_freed = []\<rparr> = Some (s', l) \<and>
     ts_prints s' = 10 \<and> ts_freed s' = take 10 (ts_granted as)"
  using ts_loop_ends [of "\<lparr>ts_allocs = as, ts_prints = 0, ts_freed = []\<rparr>"]
    ts_loop_needs [of "\<lparr>ts_allocs = as, ts_prints = 0, ts_freed = []\<rparr>"] by auto

end
