(* ===== verification/L2fwd_Args.thy ===== *)
theory L2fwd_Args
  imports Acl Cstdio
begin

text \<open>
  The command line of \<open>ACL/l2fwd_acl/main.c\<close>: \<open>parse_args\<close> over \<open>getopt\<close> with the option
  string \<open>p:\<close> and \<open>strtoul\<close> in base 16, both of the C library. The words are those that follow
  the program's name. \<open>getopt\<close> is GNU's: words that are no options are passed over, and \<open>--\<close> ends
  the options. \<open>l2fwd_main\<close> is the start of the program with its command line.
\<close>

subsection \<open>strtoul in base 16\<close>

definition nibble_value :: "char \<Rightarrow> nat option" where
  "nibble_value c = (let n = of_char c in
     if 48 \<le> n \<and> n \<le> 57 then Some (n - 48)
     else if 97 \<le> n \<and> n \<le> 102 then Some (n - 87)
     else if 65 \<le> n \<and> n \<le> 70 then Some (n - 55) else None)"

fun hex_digits :: "string \<Rightarrow> nat list" where
  "hex_digits [] = []"
| "hex_digits (c # s) = (case nibble_value c of None \<Rightarrow> [] | Some d \<Rightarrow> d # hex_digits s)"

definition hex_number :: "nat list \<Rightarrow> nat" where
  "hex_number ds = foldl (\<lambda>v d. 16 * v + d) 0 ds"

definition strtoul16 :: "string \<Rightarrow> u64" where
  "strtoul16 s =
     (let s1 = dropWhile isspace s;
          (neg, s2) = (case s1 of c # r \<Rightarrow> if c = CHR ''-'' then (True, r) else if c = CHR ''+'' then (False, r) else (False, s1)
                       | [] \<Rightarrow> (False, s1));
          s3 = (if take 2 s2 \<in> {''0x'', ''0X''} \<and> hex_digits (drop 2 s2) \<noteq> [] then drop 2 s2 else s2);
          v = hex_number (hex_digits s3)
      in if 2 ^ 64 \<le> v then - 1 else if neg then - of_nat v else of_nat v)"

subsection \<open>getopt and parse_args\<close>

text \<open>\<open>No_more\<close> is the return value -1, \<open>Bad_option\<close> is \<open>?\<close>.\<close>

datatype opt = No_more | Bad_option | Opt_p string "string list"

fun getopt_p :: "string list \<Rightarrow> opt" where
  "getopt_p [] = No_more"
| "getopt_p (w # ws) =
     (if length w < 2 \<or> hd w \<noteq> CHR ''-'' then getopt_p ws
      else if w = ''--'' then No_more
      else if w ! 1 \<noteq> CHR ''p'' then Bad_option
      else if 2 < length w then Opt_p (drop 2 w) ws
      else (case ws of [] \<Rightarrow> Bad_option | a # ws' \<Rightarrow> Opt_p a ws'))"

lemma getopt_p_shorter: "getopt_p ws = Opt_p a ws' \<Longrightarrow> length ws' < length ws"
proof (induction ws)
  case (Cons w ws)
  then show ?case by (auto split: list.splits if_splits)
qed simp

text \<open>The return value and \<open>portmask\<close> afterwards; the assignment keeps 32 of the 64 bits.\<close>

function parse_args :: "string list \<Rightarrow> u32 \<Rightarrow> int \<times> u32" where
  "parse_args ws portmask =
     (case getopt_p ws of
        No_more \<Rightarrow> (0, portmask)
      | Bad_option \<Rightarrow> (- 1, portmask)
      | Opt_p optarg ws' \<Rightarrow> parse_args ws' (ucast (strtoul16 optarg)))"
  by pat_completeness auto
termination by (relation "measure (length \<circ> fst)") (auto dest: getopt_p_shorter)

declare parse_args.simps [simp del]

text \<open>\<open>portmask\<close> is 1 before the command line is read.\<close>

definition l2fwd_main :: "string list \<Rightarrow> nat list \<Rightarrow> unit prog" where
  "l2fwd_main words devs =
     (let (ret, portmask) = parse_args words 1 in l2fwd_main_start (\<not> ret < 0) portmask devs)"

subsection \<open>A mask that is printed is read back\<close>

definition hex_char :: "nat \<Rightarrow> char" where
  "hex_char d = ''0123456789abcdef'' ! d"

fun show_hex :: "nat \<Rightarrow> string" where
  "show_hex n = (if n < 16 then [hex_char n] else show_hex (n div 16) @ [hex_char (n mod 16)])"

declare show_hex.simps [simp del]

lemma hex_char_cases:
  assumes "d < 16"
  shows "nibble_value (hex_char d) = Some d" and "\<not> isspace (hex_char d)"
    and "hex_char d \<notin> {CHR ''-'', CHR ''+'', CHR ''x'', CHR ''X''}"
proof -
  have "d \<in> set [0..<16]" using assms by simp
  then show "nibble_value (hex_char d) = Some d" "\<not> isspace (hex_char d)"
    "hex_char d \<notin> {CHR ''-'', CHR ''+'', CHR ''x'', CHR ''X''}"
    unfolding upt_rec_numeral by (auto simp: hex_char_def nibble_value_def isspace_def upt_rec)
qed

lemma show_hex_digits: "\<exists>ds. show_hex n = map hex_char ds \<and> (\<forall>d\<in>set ds. d < 16) \<and> ds \<noteq> [] \<and> hex_number ds = n"
proof (induction n rule: show_hex.induct)
  case (1 n)
  show ?case
  proof (cases "n < 16")
    case True
    then show ?thesis by (intro exI [of _ "[n]"]) (simp add: show_hex.simps [of n] hex_number_def)
  next
    case False
    with 1 obtain ds where "show_hex (n div 16) = map hex_char ds" "\<forall>d\<in>set ds. d < 16" "hex_number ds = n div 16" by blast
    with False show ?thesis
      by (intro exI [of _ "ds @ [n mod 16]"]) (simp add: show_hex.simps [of n] hex_number_def)
  qed
qed

lemma hex_digits_chars: "\<forall>d\<in>set ds. d < 16 \<Longrightarrow> hex_digits (map hex_char ds) = ds"
  by (induction ds) (auto simp: hex_char_cases(1))

lemma strtoul16_show_hex:
  assumes "n < 2 ^ 64"
  shows "strtoul16 (show_hex n) = of_nat n"
proof -
  obtain ds where s: "show_hex n = map hex_char ds" "\<forall>d\<in>set ds. d < 16" "ds \<noteq> []" "hex_number ds = n"
    using show_hex_digits [of n] by blast
  obtain d ds' where ds: "ds = d # ds'" using s(3) by (cases ds) auto
  then have d: "\<not> isspace (hex_char d)" "hex_char d \<noteq> CHR ''-''" "hex_char d \<noteq> CHR ''+''"
    using hex_char_cases [of d] s(2) by auto
  have x: "take 2 (map hex_char ds) \<notin> {''0x'', ''0X''}"
    using hex_char_cases(3) s(2) by (cases ds') (auto simp: ds)
  have w: "dropWhile isspace (map hex_char ds) = map hex_char ds" using d by (simp add: ds)
  have c: "(case map hex_char ds of c # r \<Rightarrow> if c = CHR ''-'' then (True, r)
      else if c = CHR ''+'' then (False, r) else (False, map hex_char ds) | [] \<Rightarrow> (False, map hex_char ds)) = (False, map hex_char ds)"
    using d by (simp add: ds)
  have f: "(take 2 (map hex_char ds) \<in> {''0x'', ''0X''} \<and> hex_digits (drop 2 (map hex_char ds)) \<noteq> []) = False"
    using x by blast
  have "strtoul16 (show_hex n) = (if 2 ^ 64 \<le> n then - 1 else of_nat n)"
    unfolding strtoul16_def s(1) Let_def w c split_conv f if_False hex_digits_chars [OF s(2)] s(4) by simp
  with assms show ?thesis by simp
qed

lemma show_hex_not_option: "\<exists>c r. show_hex n = c # r"
  using show_hex_digits [of n] by (metis map_is_Nil_conv neq_Nil_conv)

definition plain_word :: "string \<Rightarrow> bool" where
  "plain_word w \<longleftrightarrow> length w < 2 \<or> hd w \<noteq> CHR ''-''"

lemma getopt_p_plain: "\<forall>w\<in>set fs. plain_word w \<Longrightarrow> getopt_p (fs @ ws) = getopt_p ws"
  by (induction fs) (simp_all add: plain_word_def)

text \<open>
  The last \<open>-p\<close> decides, in both spellings; a missing argument and any other option are refused,
  and a word that is no number gives the mask 0 without an error: then no port is started.
\<close>

lemma parse_args_mask:
  assumes "\<forall>w\<in>set fs. plain_word w" "n < 2 ^ 32"
  shows "parse_args (fs @ ''-p'' # show_hex n # ws) m = parse_args ws (of_nat n)"
    and "parse_args (fs @ (''-p'' @ show_hex n) # ws) m = parse_args ws (of_nat n)"
    and "parse_args fs m = (0, m)"
    and "parse_args (fs @ [''-p'']) m = (- 1, m)"
proof -
  have "n < 2 ^ 64" using assms(2) by simp
  have u: "ucast (strtoul16 (show_hex n)) = (of_nat n :: u32)"
    unfolding strtoul16_show_hex [OF \<open>n < 2 ^ 64\<close>] by (simp add: unsigned_of_nat take_bit_nat_eq_self [OF \<open>n < 2 ^ 64\<close>])
  obtain c r where h: "show_hex n = c # r" using show_hex_not_option by blast
  show "parse_args (fs @ ''-p'' # show_hex n # ws) m = parse_args ws (of_nat n)"
    by (simp add: parse_args.simps [of "fs @ _"] getopt_p_plain [OF assms(1)] u)
  show "parse_args (fs @ (''-p'' @ show_hex n) # ws) m = parse_args ws (of_nat n)"
    using u by (simp add: parse_args.simps [of "fs @ _"] getopt_p_plain [OF assms(1)] h)
  show "parse_args fs m = (0, m)" using getopt_p_plain [OF assms(1), of "[]"] by (simp add: parse_args.simps [of fs])
  show "parse_args (fs @ [''-p'']) m = (- 1, m)" by (simp add: parse_args.simps [of "fs @ _"] getopt_p_plain [OF assms(1)])
qed

lemma parse_args_no_number: "parse_args [''-p'', ''port1''] m = (0, 0)" "parse_args [''-p'', ''0x3''] m = (0, 3)"
  "parse_args [''-q''] m = (- 1, m)" "parse_args [''-p'', ''-1''] m = (0, 0xFFFFFFFF)"
  by (simp_all add: parse_args.simps strtoul16_def isspace_def nibble_value_def hex_number_def
      unsigned_minus_1_eq_mask mask_eq_exp_minus_1)

text \<open>Without a port in the mask the program starts nothing, and does not say so.\<close>

lemma l2fwd_ports_none: "\<forall>p\<in>set devs. \<not> bit portmask p \<Longrightarrow> l2fwd_ports portmask mp devs E tr = (Done (), tr)"
  by (induction devs) (auto simp: prog_defs)

lemma l2fwd_main_no_number:
  assumes "l2fwd_main [''-p'', ''port1''] devs E [] = (Done (), tr)"
  shows "\<forall>p. Rte_eth_dev_start p \<notin> set tr"
  using assms
  by (auto simp: l2fwd_main_def parse_args_no_number l2fwd_main_start_def init_acl_def must_eq nonnull_eq bind_p_def
      call_p_def l2fwd_ports_none done_p_def rte_exit_def split: if_splits)

end
