(* ===== verification/Spec2Isabelle.thy ===== *)
theory Spec2Isabelle
  imports Nat_Flow_Props Nat_Pool_Props Load_Balancer Mac_Table Startups Graph_Testing Feature_Arc
    Reorder Rss Ring_Ipc Event_Dev Rcu Mbuf_Clone Graph_Samples Ipc_Programs Port_Echo Nic_Stats
    Demos Cli Simple_Ring Nat_Table Two_Sources L2fwd_Args
begin

text \<open>
  Verification of the packet-processing programs of the repository \<open>DPDK_For_Beginners\<close>.

  \<^bold>\<open>The program.\<close> The repository is a collection of DPDK programs. The largest is
  \<open>nat_project\<close>, a network address translator in six versions that grow from an address
  tracker to a flow-based NAPT with idle timers. Around it stand a load balancer, a VXLAN
  gateway, a learning switch, a control/data classifier, access-control-list filters, a router
  by longest prefix, a packet dissector, packet generators, a three-thread pipeline, packet
  graphs (one with a firewall and a command line), reordering, metering, queue distribution,
  programs whose threads or processes talk over rings, messages, an event device or an
  RCU-protected pointer, command lines, and programs that show one interface (clones, callbacks,
  telemetry, CPU frequencies, prefetching). They share a shape: initialise the environment, a packet pool and a port; then
  receive bursts, handle each packet in place, and send or free the buffers.

  \<^bold>\<open>How it is modelled.\<close> A packet buffer (\<open>mbuf\<close> in theory \<open>Dpdk\<close>) is its memory, the offset
  and length of its data and an identity; header fields are read and written at their wire
  offsets as little-endian loads and stores, so byte-order mistakes are visible. Machine
  integers are words of their width. Code that may run into undefined behaviour (a freed
  mapping, a null pointer, an index out of range) returns \<open>option\<close>, with \<open>None\<close> for the
  undefined case, and safety theorems show it is not reached. Loops over received bursts
  recurse over the list of bursts; no fuel is used anywhere. A loop that in C is ended by a
  signal is the run over any finite sequence of bursts. A loop that may not end at all (the
  two command loops that ignore the end of their input, the walk along the links of a feature
  arc) is a \<open>partial_function\<close> into \<open>option\<close>, and theorems say exactly when it returns. Each packet handler is a function
  from a state and a packet to a new state, the packet after rewriting, and whether it is
  forwarded (\<open>Burst\<close>).

  \<^bold>\<open>What is outside the repository.\<close> DPDK is not part of it. Its operations are parameters with
  their documented behaviour as named hypotheses: \<open>cksum_laws\<close> (checksum helpers, promised
  only for a cleared field), \<open>hash_laws\<close> (\<open>rte_hash\<close>), \<open>ring_laws\<close> (\<open>rte_ring\<close>), \<open>tx_ok\<close>
  (\<open>rte_eth_tx_burst\<close>), \<open>pktmbuf_laws\<close> (prepend, adj, append, trim),
  \<open>pool_laws\<close> (allocation, clones and reference counts), \<open>enqueue_codes\<close> (an enqueue fails only
  with a negative code), \<open>acl_laws\<close>
  (\<open>rte_acl_classify\<close>), \<open>lpm_laws\<close> (\<open>rte_lpm\<close>), \<open>reorder_laws\<close> (\<open>rte_reorder\<close>), the order in
  which \<open>rte_graph_walk\<close> runs nodes (left open in the packet graphs; in \<open>Graph_Samples\<close>, where
  it decides what is printed, the documented schedule), \<open>ring_serves\<close> (a ring that holds objects
  delivers), \<open>event_laws\<close> (\<open>rte_event\<close>), \<open>rcu_laws\<close> (\<open>rte_rcu_qsbr\<close>),
  the timers of \<open>Rte_Timer\<close>, the number reader of the command-line library (\<open>num\<close> in
  \<open>Cli\<close>, any function), and the environment of \<open>Eal\<close> that gives the return code of every
  start-up call. \<open>ref_cksum\<close>, \<open>ref_hash\<close>, \<open>ref_ring\<close>, \<open>ref_pktmbuf\<close>, \<open>ref_pool\<close>, \<open>ref_acl\<close>,
  \<open>ref_lpm\<close>, \<open>ref_reorder\<close>, \<open>ref_dev\<close> and \<open>ref_rcu\<close> satisfy them, and the witnesses use these.

  \<^bold>\<open>The theories.\<close>
  \<^item> \<open>Prelude\<close>: word types, little-endian memory, byte order, shared list and option lemmas.
  \<^item> \<open>Dpdk\<close>: mbufs, header offsets, the Internet checksum (RFC 1071) and when a header or
    datagram verifies. \<open>Rte_Hash\<close> (locale \<open>table\<close>), \<open>Rte_Ring\<close> (locales \<open>fifo\<close>,
    \<open>bounded_fifo\<close>), \<open>Rte_Timer\<close>, \<open>Eal\<close>, \<open>Burst\<close> (locale \<open>burst_handler\<close>): the
    interfaces, each interpreted on the definitions of the programs. \<open>Cstdio\<close>:
    \<open>fgets\<close>, \<open>sscanf\<close> and \<open>inet_pton\<close> as the configuration readers use them.
    \<open>Samples\<close>: packets for the witnesses. \<open>Rte_Mbuf\<close> (locale \<open>data_room\<close>), \<open>Rte_Graph\<close>
    (locales \<open>graph_nodes\<close>, \<open>graph_flow\<close>) and \<open>Startup\<close> (a monitor for start-up traces) are
    the other interfaces.
  \<^item> \<open>Nat_Flow\<close>, \<open>Nat_Flow_Props\<close> (\<open>nat_project/version6\<close>): two hash tables that share
    heap-allocated mappings, a timer inside each mapping, port allocation, parsing, rewriting,
    the in-place compaction of \<open>main.c\<close>. No reachable interleaving of packets and timer
    runs uses a freed mapping; every buffer is sent or freed once; replies reach the host that
    opened the flow; exactly the idle mappings expire; when packets are dropped; and two
    defects, the reuse of live ports and the checksum over an uncleared field.
  \<^item> \<open>Nat_Table\<close>: the specification of \<open>version6\<close>. \<open>flow_table\<close> is what a NAT promises, without
    pointers, hash tables or timers: the flows with their endpoints and when
    they end, and which flow a reply belongs to.
    \<open>table_of\<close> reads it off a state of the program, and the whole main loop refines the loop over
    it, while memory and tables have room (\<open>nat_serves\<close>; \<open>big_env\<close> is such an environment). One
    more defect is seen there: the end of a flow can cut off another flow's replies.
  \<^item> \<open>Ip_Track\<close> (\<open>nat_project/sample\<close>, \<open>version2\<close>, \<open>hash.c\<close> of \<open>version3\<close> to
    \<open>version5\<close>): exactly the endpoints seen are stored and dumped; the session timer.
  \<^item> \<open>Nat_Static\<close> (\<open>version3\<close>): configuration files are read back as printed, with the
    cases where the reader goes wrong; packets of configured hosts are rewritten with valid
    checksums (\<open>Nat_Rewrite\<close>).
  \<^item> \<open>Nat_Slots\<close>, \<open>Nat_Pool\<close>, \<open>Nat_Pool_Props\<close> (\<open>version5\<close>) and \<open>Nat_Pool4\<close>
    (\<open>version4\<close>): the slot pool stays consistent with the outbound table, hosts never share
    a public address, what the two timers release, and that the one-pass search of
    \<open>version4\<close> is release followed by search.
  \<^item> \<open>Load_Balancer\<close>, \<open>Vxlan\<close>, \<open>Mac_Table\<close> (\<open>l2_forwarding\<close>, \<open>hashing/mac_learning\<close>),
    \<open>Control_Data\<close>, \<open>Acl\<close> (four programs), \<open>Nat_Sim\<close> (\<open>NAT/static_nat\<close>),
    \<open>Packet_Parsing\<close> (\<open>ports/packet_parsing\<close>), \<open>Pipeline\<close>
    (\<open>thread_parsing/threaded_project\<close>): one theory per program, with fairness, wire format,
    round trip, refinement of an abstract bridge, memory bounds of the classifier, exact
    filtering, checksum, dissection (IPv4, IPv6 and VLAN frames) and FIFO theorems. \<open>L2fwd_Args\<close>
    is the command line of the filter, with \<open>getopt\<close> and \<open>strtoul\<close>: a port mask is read back
    as printed. \<open>Pipeline\<close> interleaves the atomic
    actions of the three threads as an inductive step relation.
  \<^item> \<open>Lpm\<close> (\<open>longest_prefix_match_lpm\<close>): the routes installed are exactly the ones looked
    up. \<open>Packet_Build\<close> (\<open>tranmit_packet\<close>, \<open>packet_change\<close>, \<open>mempool_membuff/append_prependops.c\<close>):
    the generated packet is dissected back to what was meant.
  \<^item> \<open>Graph_Pipeline\<close> (\<open>graph/pipeline\<close>, \<open>graph/rx_drop_sample\<close>), \<open>Graph_Fw\<close>
    (\<open>dpdk-graph-fw\<close>) and \<open>Graph_Testing\<close> (\<open>graph/testing\<close>, \<open>graph/two_start_node\<close>): walks end in
    every order of the nodes and account for every packet, also while commands are typed; the
    graph computes what direct calls compute. \<open>Two_Sources\<close>: the loop over the two sources ends
    exactly when the pool grants ten buffers.
  \<^item> \<open>Feature_Arc\<close> (\<open>feature_arc/sample\<close>), \<open>Reorder\<close> (\<open>reordering\<close>), \<open>Rss\<close>
    (\<open>rss_dpdk/af_packet_rss\<close>), \<open>Metering\<close> (\<open>meter_dpdk\<close>), \<open>Nat_Startup\<close> and \<open>Startups\<close> (the
    start-up code of the NAT versions, and of all programs together).
  \<^item> \<open>Ring_Ipc\<close> (locale \<open>served_fifo\<close>; \<open>inter_process_comm\<close> over rings, the values of \<open>rings/sample\<close>),
    \<open>Event_Dev\<close> (locale \<open>scheduler\<close>; \<open>eventdev\<close>) and \<open>Rcu\<close> (locale \<open>grace_period\<close>;
    \<open>rcu/sample\<close>): two sides as step functions that interleave freely. The request protocol
    over one ring loses nothing and can always be completed; each event reaches one consumer,
    in the order of its flow; no object is read or freed after its release.

  \<^item> \<open>Mbuf_Clone\<close> (locale \<open>packet_pool\<close>; \<open>zero_copy_cloning\<close>, \<open>mempool_membuff/simple.c\<close>):
    a typing of packet pools, in which every reference count is the number of holders and
    clones; the cloning program is well typed and gives everything back.
  \<^item> \<open>Graph_Samples\<close> (\<open>graph/sample\<close>, \<open>graph/node_sched\<close>, \<open>graph/two_start_with_worker\<close>,
    \<open>graph_private_context\<close>, \<open>feature_arc/graph_arc\<close>): what the small graphs print and
    whether their loops end.
  \<^item> \<open>Ipc_Programs\<close> (\<open>through_rte_ring\<close>, \<open>practice/ring.c\<close>, \<open>sample_rte_mp\<close>,
    \<open>virtu_vhost_ipc\<close>, \<open>inter_process_comm/eventdev\<close>): one-way delivery under every
    interleaving, and where buffers are lost.
  \<^item> \<open>Simple_Ring\<close> (\<open>rings/sample\<close>): the heap under two threads; who owns a block, and the one
    access to a block that may be gone.
  \<^item> \<open>Port_Echo\<close> (\<open>ports/begin\<close>, \<open>ports/port_mempool\<close>, \<open>rxtx_callbacks\<close>, \<open>rss_dpdk/main.c\<close>):
    the echo loops account for every packet, and the printed bytes are those of the packet.
  \<^item> \<open>Nic_Stats\<close> (\<open>nic_stats\<close>): a refinement of \<open>Pipeline\<close>. \<open>Demos\<close>
    (\<open>power_aware_polling\<close>, \<open>prefetch\<close>, \<open>telementry\<close>, \<open>timer\<close>, \<open>hashing/sample\<close>, \<open>lcore\<close>):
    prefetching does not change what is computed, and time stamps survive wrap-around. \<open>Cli\<close>
    (\<open>cli\<close>): sessions against their commands, and connections are closed once.

  \<^bold>\<open>Not modelled.\<close> Log and statistics output (except where output is the result, as in the
  dumps, the dissector and the demonstrations); reads beyond a short packet, except in the
  classifier, return what the buffer holds there; weak memory ordering between threads, and
  the helper thread of \<open>feature_arc/graph_arc\<close> that enqueues into a graph while it is walked (a
  data race in the library); cycle counts, sleeping, and process start-up. \<open>hash.c\<close> of
  \<open>version4\<close> and \<open>version5\<close> repeats that of \<open>version3\<close>, and the dissector in the
  three-thread pipeline that of \<open>ports/packet_parsing\<close>: they are modelled once. The web front
  end of \<open>cli\<close> is JavaScript. \<open>practice/sample.c\<close>, \<open>hello_world\<close> and
  \<open>ports/begin/sample.c\<close> only initialise the environment and print a line.
\<close>


end
